(* ===== verification/Prelude.thy ===== *)
theory Prelude
  imports Complex_Main "HOL-Library.Word" "HOL-Library.List_Lexorder" "HOL-Library.Char_ord"
begin

text \<open>
  Shared vocabulary of the development: Rust's \<^verbatim>\<open>Result\<close> with the early return of the
  \<^verbatim>\<open>?\<close> operator, loops that stop at the first error, slices and byte lookups, the checked
  64-bit arithmetic of the standard library, and \<^verbatim>\<open>BTreeMap\<close> as a strictly sorted
  association list behind a map interface.

  A Rust string is its UTF-8 byte sequence, a HOL \<open>string\<close> whose characters are bytes; so
  \<^verbatim>\<open>len()\<close> is \<open>length\<close>, \<^verbatim>\<open>as_bytes()\<close> is the identity, and the order of strings is
  the byte-wise lexicographic order.
\<close>

named_theorems result_simps \<open>equations of results and of loops over results\<close>

section \<open>Results\<close>

datatype ('a, 'e) result = Ok 'a | Err 'e

fun bindR :: "('a, 'e) result \<Rightarrow> ('a \<Rightarrow> ('b, 'e) result) \<Rightarrow> ('b, 'e) result" where
  "bindR (Ok x) f = f x"
| "bindR (Err e) f = Err e"

fun is_ok :: "('a, 'e) result \<Rightarrow> bool" where
  "is_ok (Ok _) = True"
| "is_ok (Err _) = False"

fun map_err :: "('e \<Rightarrow> 'f) \<Rightarrow> ('a, 'e) result \<Rightarrow> ('a, 'f) result" where
  "map_err f (Ok x) = Ok x"
| "map_err f (Err e) = Err (f e)"

fun map_ok :: "('a \<Rightarrow> 'b) \<Rightarrow> ('a, 'e) result \<Rightarrow> ('b, 'e) result" where
  "map_ok f (Ok x) = Ok (f x)"
| "map_ok f (Err e) = Err e"

fun ok_or :: "'a option \<Rightarrow> 'e \<Rightarrow> ('a, 'e) result" where
  "ok_or (Some x) e = Ok x"
| "ok_or None e = Err e"

definition guardR :: "bool \<Rightarrow> 'e \<Rightarrow> (unit, 'e) result" where
  "guardR b e = (if b then Ok () else Err e)"

text \<open>\<^verbatim>\<open>for x in xs { s = f(s, x)?; }\<close> and \<^verbatim>\<open>xs.map(f).collect::<Result<Vec<_>, _>>()\<close>.\<close>

fun foldR :: "('s \<Rightarrow> 'a \<Rightarrow> ('s, 'e) result) \<Rightarrow> 's \<Rightarrow> 'a list \<Rightarrow> ('s, 'e) result" where
  "foldR f s [] = Ok s"
| "foldR f s (x # xs) = bindR (f s x) (\<lambda>s'. foldR f s' xs)"

fun mapR :: "('a \<Rightarrow> ('b, 'e) result) \<Rightarrow> 'a list \<Rightarrow> ('b list, 'e) result" where
  "mapR f [] = Ok []"
| "mapR f (x # xs) = bindR (f x) (\<lambda>y. bindR (mapR f xs) (\<lambda>ys. Ok (y # ys)))"

lemma bindR_Ok_iff [simp]: "bindR m f = Ok y \<longleftrightarrow> (\<exists>x. m = Ok x \<and> f x = Ok y)"
  by (cases m) auto

lemma bindR_Err_iff: "bindR m f = Err e \<longleftrightarrow> m = Err e \<or> (\<exists>x. m = Ok x \<and> f x = Err e)"
  by (cases m) auto

lemma bindR_split:
  "P (bindR m f) \<longleftrightarrow> (\<forall>x. m = Ok x \<longrightarrow> P (f x)) \<and> (\<forall>e. m = Err e \<longrightarrow> P (Err e))"
  by (cases m) auto

lemma bindR_cong [fundef_cong]:
  "m = m' \<Longrightarrow> (\<And>x. m' = Ok x \<Longrightarrow> f x = g x) \<Longrightarrow> bindR m f = bindR m' g"
  by (cases m') auto

lemma bindR_assoc [result_simps]: "bindR (bindR m f) g = bindR m (\<lambda>x. bindR (f x) g)"
  by (cases m) auto

lemma map_err_Ok_iff [simp]: "map_err f m = Ok x \<longleftrightarrow> m = Ok x"
  by (cases m) auto

lemma map_err_Err_iff: "map_err f m = Err e \<longleftrightarrow> (\<exists>e'. m = Err e' \<and> e = f e')"
  by (cases m) auto

lemma map_ok_Ok_iff [simp]: "map_ok f m = Ok y \<longleftrightarrow> (\<exists>x. m = Ok x \<and> y = f x)"
  by (cases m) auto

lemma map_ok_Err_iff [simp]: "map_ok f m = Err e \<longleftrightarrow> m = Err e"
  by (cases m) auto

lemma ok_or_Ok_iff [simp]: "ok_or m e = Ok x \<longleftrightarrow> m = Some x"
  by (cases m) auto

lemma ok_or_Err_iff [simp]: "ok_or m e = Err e' \<longleftrightarrow> m = None \<and> e' = e"
  by (cases m) auto

lemma guardR_Ok_iff [simp]: "guardR b e = Ok u \<longleftrightarrow> b"
  by (simp add: guardR_def)

lemma guardR_Err_iff [simp]: "guardR b e = Err e' \<longleftrightarrow> \<not> b \<and> e' = e"
  by (auto simp: guardR_def)

lemma guardR_simps [simp]: "guardR True e = Ok ()" "guardR False e = Err e"
  by (simp_all add: guardR_def)

lemma is_ok_iff: "is_ok m \<longleftrightarrow> (\<exists>x. m = Ok x)"
  by (cases m) auto

lemma not_is_ok_iff: "\<not> is_ok m \<longleftrightarrow> (\<exists>e. m = Err e)"
  by (cases m) auto

lemma foldR_cong [fundef_cong]:
  "xs = ys \<Longrightarrow> s = t \<Longrightarrow> (\<And>s x. x \<in> set ys \<Longrightarrow> f s x = g s x) \<Longrightarrow> foldR f s xs = foldR g t ys"
proof (induction xs arbitrary: ys s t)
  case (Cons x xs)
  then have "f s x = g s x" "\<And>s'. foldR f s' xs = foldR g s' xs" by auto
  with Cons.prems(1,2) show ?case by (auto intro: bindR_cong)
qed simp

lemma foldR_append [result_simps]:
  "foldR f s (xs @ ys) = bindR (foldR f s xs) (\<lambda>s'. foldR f s' ys)"
  by (induction xs arbitrary: s) (simp_all add: bindR_assoc)

lemma foldR_invariant:
  assumes "\<And>s x s'. P s \<Longrightarrow> x \<in> set xs \<Longrightarrow> f s x = Ok s' \<Longrightarrow> P s'"
    and "P s" and "foldR f s xs = Ok s'"
  shows "P s'"
  using assms
proof (induction xs arbitrary: s)
  case Nil
  then show ?case by simp
next
  case (Cons x xs)
  from Cons.prems(3) obtain t where t: "f s x = Ok t" "foldR f t xs = Ok s'" by auto
  have "P t" by (rule Cons.prems(1) [OF Cons.prems(2) _ t(1)]) simp
  from Cons.prems(1) have "\<And>s y s'. P s \<Longrightarrow> y \<in> set xs \<Longrightarrow> f s y = Ok s' \<Longrightarrow> P s'"
    by (metis list.set_intros(2))
  then show ?case using \<open>P t\<close> t(2) by (rule Cons.IH)
qed

lemma mapR_Ok_iff: "mapR f xs = Ok ys \<longleftrightarrow> list_all2 (\<lambda>x y. f x = Ok y) xs ys"
  by (induction xs arbitrary: ys) (auto simp: list_all2_Cons1)

lemma mapR_length: "mapR f xs = Ok ys \<Longrightarrow> length ys = length xs"
  by (simp add: mapR_Ok_iff list_all2_lengthD)

lemma mapR_all_Ok: "(\<And>x. x \<in> set xs \<Longrightarrow> f x = Ok (g x)) \<Longrightarrow> mapR f xs = Ok (map g xs)"
  by (induction xs) auto

lemma map_ok_cong [fundef_cong]: "m = m' \<Longrightarrow> (\<And>x. m' = Ok x \<Longrightarrow> f x = g x) \<Longrightarrow> map_ok f m = map_ok g m'"
  by (cases m') auto

text \<open>A result keeps a contract: \<open>P\<close> of the value, \<open>E\<close> of the error.\<close>

fun ensures :: "('e \<Rightarrow> bool) \<Rightarrow> ('a \<Rightarrow> bool) \<Rightarrow> ('a, 'e) result \<Rightarrow> bool" where
  "ensures E P (Ok x) = P x"
| "ensures E P (Err e) = E e"

lemma ensures_bind:
  "ensures E P m \<Longrightarrow> (\<And>x. m = Ok x \<Longrightarrow> P x \<Longrightarrow> ensures E Q (f x)) \<Longrightarrow> ensures E Q (bindR m f)"
  by (cases m) auto

lemma ensures_weaken: "ensures E P m \<Longrightarrow> (\<And>x. P x \<Longrightarrow> Q x) \<Longrightarrow> ensures E Q m"
  by (cases m) auto

lemma ensures_OkD: "ensures E P m \<Longrightarrow> m = Ok x \<Longrightarrow> P x"
  by simp

lemma ensures_ErrD: "ensures E P m \<Longrightarrow> m = Err e \<Longrightarrow> E e"
  by simp

lemma ensures_iff: "ensures E P m \<longleftrightarrow> (\<forall>x. m = Ok x \<longrightarrow> P x) \<and> (\<forall>e. m = Err e \<longrightarrow> E e)"
  by (cases m) auto

section \<open>Byte strings\<close>

text \<open>\<^verbatim>\<open>bytes.get(i)\<close>, \<^verbatim>\<open>bytes[i..j]\<close> and \<^verbatim>\<open>bytes.get(i..j)\<close>.\<close>

definition get_at :: "'a list \<Rightarrow> nat \<Rightarrow> 'a option" where
  "get_at xs i = (if i < length xs then Some (xs ! i) else None)"

definition slice :: "'a list \<Rightarrow> nat \<Rightarrow> nat \<Rightarrow> 'a list" where
  "slice xs i j = take (j - i) (drop i xs)"

definition get_range :: "'a list \<Rightarrow> nat \<Rightarrow> nat \<Rightarrow> 'a list option" where
  "get_range xs i j = (if i \<le> j \<and> j \<le> length xs then Some (slice xs i j) else None)"

definition byte :: "char \<Rightarrow> nat" where
  "byte c = of_char c"

definition starts_with_at :: "string \<Rightarrow> nat \<Rightarrow> string \<Rightarrow> bool" where
  "starts_with_at s i prefix = (take (length prefix) (drop i s) = prefix)"

lemma get_at_Some_iff [simp]: "get_at xs i = Some x \<longleftrightarrow> i < length xs \<and> xs ! i = x"
  by (simp add: get_at_def)

lemma get_at_None_iff [simp]: "get_at xs i = None \<longleftrightarrow> length xs \<le> i"
  by (simp add: get_at_def not_less)

lemma get_at_in [simp]: "i < length xs \<Longrightarrow> get_at xs i = Some (xs ! i)"
  and get_at_out [simp]: "length xs \<le> i \<Longrightarrow> get_at xs i = None"
  by (simp_all add: get_at_def)

lemma get_at_conv_drop: "get_at xs i = (case drop i xs of [] \<Rightarrow> None | x # _ \<Rightarrow> Some x)"
  by (auto simp: get_at_def Cons_nth_drop_Suc [symmetric] split: list.splits)

lemma get_at_length_append [simp]: "get_at (xs @ ys) (length xs) = get_at ys 0"
  by (simp add: get_at_def nth_append)

lemma length_slice [simp]: "j \<le> length xs \<Longrightarrow> length (slice xs i j) = j - i"
  by (simp add: slice_def)

lemma slice_append_adjacent:
  "i \<le> j \<Longrightarrow> j \<le> k \<Longrightarrow> slice xs i j @ slice xs j k = slice xs i k"
proof -
  assume ij: "i \<le> j" and jk: "j \<le> k"
  have "drop j xs = drop (j - i) (drop i xs)"
    using ij by simp
  moreover have "take (k - i) (drop i xs) =
      take (j - i) (drop i xs) @ take (k - i - (j - i)) (drop (j - i) (drop i xs))"
    using ij jk by (metis diff_le_mono le_add_diff_inverse take_add)
  ultimately show ?thesis
    using ij jk by (simp add: slice_def)
qed

lemma slice_0 [simp]: "slice xs 0 j = take j xs"
  by (simp add: slice_def)

lemma get_range_Some_iff:
  "get_range xs i j = Some ys \<longleftrightarrow> i \<le> j \<and> j \<le> length xs \<and> ys = slice xs i j"
  by (auto simp: get_range_def)

lemma byte_less_256 [simp]: "byte c < 256"
  by (simp add: byte_def)

lemma byte_inject [simp]: "byte c = byte d \<longleftrightarrow> c = d"
  by (simp add: byte_def)

lemma less_char_byte: "c < d \<longleftrightarrow> byte c < byte d"
  by (simp add: byte_def less_char_def)

text \<open>\<^verbatim>\<open>to_string()\<close> of an unsigned integer.\<close>

fun nat_to_string :: "nat \<Rightarrow> string" where
  "nat_to_string n = (if n < 10 then [char_of (48 + n)] else nat_to_string (n div 10) @ [char_of (48 + n mod 10)])"

declare nat_to_string.simps [simp del]

section \<open>Checked 64-bit arithmetic\<close>

type_synonym u64 = "64 word"
type_synonym u8 = "8 word"

text \<open>\<^verbatim>\<open>u64::checked_add\<close>, \<^verbatim>\<open>checked_sub\<close> and \<^verbatim>\<open>checked_mul\<close>.\<close>

definition checked_add :: "u64 \<Rightarrow> u64 \<Rightarrow> u64 option" where
  "checked_add a b = (if unat a + unat b < 2 ^ 64 then Some (a + b) else None)"

definition checked_sub :: "u64 \<Rightarrow> u64 \<Rightarrow> u64 option" where
  "checked_sub a b = (if b \<le> a then Some (a - b) else None)"

definition checked_mul :: "u64 \<Rightarrow> u64 \<Rightarrow> u64 option" where
  "checked_mul a b = (if unat a * unat b < 2 ^ 64 then Some (a * b) else None)"

text \<open>\<^verbatim>\<open>usize::checked_add\<close>: lengths are natural numbers below $2^{64}$.\<close>

definition checked_add_usize :: "nat \<Rightarrow> nat \<Rightarrow> nat option" where
  "checked_add_usize a b = (if a + b < 2 ^ 64 then Some (a + b) else None)"

lemma unat_u64_less: "unat (a :: u64) < 2 ^ 64"
  using unsigned_less [of a] by simp

lemma checked_add_Some_iff: "checked_add a b = Some c \<longleftrightarrow> unat c = unat a + unat b"
proof
  assume "checked_add a b = Some c"
  then show "unat c = unat a + unat b"
    by (auto simp: checked_add_def unat_word_ariths split: if_splits)
next
  assume c: "unat c = unat a + unat b"
  then have "unat a + unat b < 2 ^ 64"
    using unat_u64_less [of c] by simp
  moreover from this c have "unat (a + b) = unat c"
    by (simp add: unat_word_ariths)
  ultimately show "checked_add a b = Some c"
    by (simp add: checked_add_def word_unat_eq_iff)
qed

lemma checked_sub_Some_iff: "checked_sub a b = Some c \<longleftrightarrow> unat a = unat b + unat c"
proof
  assume "checked_sub a b = Some c"
  then show "unat a = unat b + unat c"
    by (auto simp: checked_sub_def unat_sub word_le_nat_alt split: if_splits)
next
  assume a: "unat a = unat b + unat c"
  then have "b \<le> a" by (simp add: word_le_nat_alt)
  moreover from this a have "unat (a - b) = unat c" by (simp add: unat_sub)
  ultimately show "checked_sub a b = Some c" by (simp add: checked_sub_def word_unat_eq_iff)
qed

lemma checked_mul_Some_iff: "checked_mul a b = Some c \<longleftrightarrow> unat c = unat a * unat b"
proof
  assume "checked_mul a b = Some c"
  then show "unat c = unat a * unat b"
    by (auto simp: checked_mul_def unat_word_ariths split: if_splits)
next
  assume c: "unat c = unat a * unat b"
  then have "unat a * unat b < 2 ^ 64"
    using unat_u64_less [of c] by simp
  moreover from this c have "unat (a * b) = unat c"
    by (simp add: unat_word_ariths)
  ultimately show "checked_mul a b = Some c"
    by (simp add: checked_mul_def word_unat_eq_iff)
qed

lemma checked_add_None_iff: "checked_add a b = None \<longleftrightarrow> 2 ^ 64 \<le> unat a + unat b"
  by (auto simp: checked_add_def)

lemma checked_mul_None_iff: "checked_mul a b = None \<longleftrightarrow> 2 ^ 64 \<le> unat a * unat b"
  by (auto simp: checked_mul_def)

lemma checked_add_usize_Some_iff [simp]:
  "checked_add_usize a b = Some c \<longleftrightarrow> c = a + b \<and> a + b < 2 ^ 64"
  by (auto simp: checked_add_usize_def)

section \<open>Ordered maps\<close>

text \<open>
  \<^verbatim>\<open>BTreeMap\<close>: a strictly increasing association list. \<open>btree_insert\<close> replaces the value of a
  key that is there; iteration is the list itself.
\<close>

type_synonym ('k, 'v) btree = "('k \<times> 'v) list"

fun btree_insert :: "'k::linorder \<Rightarrow> 'v \<Rightarrow> ('k, 'v) btree \<Rightarrow> ('k, 'v) btree" where
  "btree_insert k v [] = [(k, v)]"
| "btree_insert k v ((k', v') # m) =
     (if k < k' then (k, v) # (k', v') # m
      else if k = k' then (k, v) # m
      else (k', v') # btree_insert k v m)"

fun btree_get :: "('k, 'v) btree \<Rightarrow> 'k \<Rightarrow> 'v option" where
  "btree_get [] k = None"
| "btree_get ((k', v) # m) k = (if k = k' then Some v else btree_get m k)"

definition btree_ok :: "('k::linorder, 'v) btree \<Rightarrow> bool" where
  "btree_ok m = sorted_wrt (<) (map fst m)"

text \<open>The map interface its clients rely on.\<close>

locale ordered_map =
  fixes empty :: "'m"
    and insert :: "'k::linorder \<Rightarrow> 'v \<Rightarrow> 'm \<Rightarrow> 'm"
    and get :: "'m \<Rightarrow> 'k \<Rightarrow> 'v option"
    and entries :: "'m \<Rightarrow> ('k \<times> 'v) list"
    and ok :: "'m \<Rightarrow> bool"
  assumes ok_empty: "ok empty"
    and entries_empty: "entries empty = []"
    and ok_insert: "ok m \<Longrightarrow> ok (insert k v m)"
    and get_insert: "ok m \<Longrightarrow> get (insert k v m) k' = (if k' = k then Some v else get m k')"
    and get_entries: "ok m \<Longrightarrow> get m k = Some v \<longleftrightarrow> (k, v) \<in> set (entries m)"
    and entries_sorted: "ok m \<Longrightarrow> sorted_wrt (<) (map fst (entries m))"
begin

lemma get_empty: "get empty k = None"
  using get_entries [OF ok_empty, of k] by (cases "get empty k") (auto simp: entries_empty)

lemma entries_distinct: "ok m \<Longrightarrow> distinct (map fst (entries m))"
  using entries_sorted [of m] by (simp add: strict_sorted_iff)

lemma entries_determined:
  assumes "ok m" "ok n" and same: "\<And>k. get m k = get n k"
  shows "entries m = entries n"
proof -
  have sets: "set (entries m) = set (entries n)"
    using assms by (auto simp: get_entries [symmetric])
  have "map fst (entries m) = map fst (entries n)"
    using sets by (intro strict_sorted_equal entries_sorted assms(1,2)) auto
  moreover have "map snd (entries m) = map snd (entries n)"
  proof (rule nth_equalityI)
    show len: "length (map snd (entries m)) = length (map snd (entries n))"
      using calculation by (metis length_map)
    fix i assume i: "i < length (map snd (entries m))"
    let ?k = "fst (entries m ! i)"
    have fst_eq: "fst (entries n ! i) = ?k"
      using calculation i len by (metis length_map nth_map)
    have "get m ?k = Some (snd (entries m ! i))"
      using i by (simp add: get_entries [OF assms(1)])
    moreover have "get n ?k = Some (snd (entries n ! i))"
      using i len fst_eq by (metis get_entries [OF assms(2)] length_map nth_mem prod.collapse)
    ultimately show "map snd (entries m) ! i = map snd (entries n) ! i"
      using same i len by simp
  qed
  ultimately show ?thesis
    by (metis zip_map_fst_snd)
qed

lemma insert_idle: "ok m \<Longrightarrow> get m k = Some v \<Longrightarrow> entries (insert k v m) = entries m"
  by (rule entries_determined) (auto simp: ok_insert get_insert)

lemma insert_commute:
  assumes "ok m" and "k \<noteq> k'"
  shows "entries (insert k v (insert k' v' m)) = entries (insert k' v' (insert k v m))"
  by (rule entries_determined) (use assms in \<open>auto simp: ok_insert get_insert\<close>)

end

lemma btree_keys_insert:
  "fst ` set (btree_insert k v m) = Set.insert k (fst ` set m)"
proof (induction m)
  case (Cons p m)
  then show ?case by (cases p) (auto simp del: image_insert simp: image_insert)
qed simp

lemma btree_ok_insert: "btree_ok m \<Longrightarrow> btree_ok (btree_insert k v m)"
proof (induction m)
  case Nil
  then show ?case by (simp add: btree_ok_def)
next
  case (Cons p m)
  then have "btree_ok (btree_insert k v m)" by (simp add: btree_ok_def)
  with Cons.prems show ?case
    using btree_keys_insert [of k v m]
    by (cases p) (force simp: btree_ok_def)
qed

lemma btree_get_insert [simp]:
  "btree_get (btree_insert k v m) k' = (if k' = k then Some v else btree_get m k')"
  by (induction m) auto

lemma btree_get_map_of: "btree_get m = map_of m"
  by (rule ext, rename_tac k, induct_tac m) auto

interpretation btree: ordered_map "[]" btree_insert btree_get "\<lambda>m. m" btree_ok
proof unfold_locales
  fix m :: "('a \<times> 'b) list" and k v
  assume ok: "btree_ok m"
  then have "distinct (map fst m)"
    by (simp add: btree_ok_def strict_sorted_iff)
  then show "btree_get m k = Some v \<longleftrightarrow> (k, v) \<in> set m"
    by (simp add: btree_get_map_of)
  show "sorted_wrt (<) (map fst m)"
    using ok by (simp add: btree_ok_def)
qed (auto simp: btree_ok_insert, simp add: btree_ok_def)

lemmas btree_simps = btree.ok_insert btree.ok_empty

end
