(* ===== verification/Number.thy ===== *)
theory Number
  imports Prelude
begin

text \<open>
  Exact JSON numbers, \<^verbatim>\<open>protocol/engine/src/number.rs\<close>: the scanner of a complete number token,
  its normalised decimal value, the integrality test, the bounded conversion to an unsigned count and
  the total order. Arbitrary-precision exponents (\<^verbatim>\<open>BigInt\<close>) are the mathematical integers.

  The lemmas relate each operation to the rational number a token denotes: parsing accepts exactly
  the grammar and keeps the value, equality and order are equality and order of values, and the
  conversion to a count is exact or refused with the reason that applies.
\<close>

section \<open>Data\<close>

datatype decimal =
    DZero
  | DNonzero (negative: bool) (digits: string) (exponent: int)

record json_number =
  jn_token :: string
  jn_value :: decimal

datatype unsigned_conversion_error = Negative | Fractional | OutOfRange

datatype ordering = Less | Equal | Greater

section \<open>Scanning\<close>

definition is_ascii_digit :: "char \<Rightarrow> bool" where
  "is_ascii_digit c = (48 \<le> byte c \<and> byte c \<le> 57)"

definition digit_val :: "char \<Rightarrow> nat" where
  "digit_val c = byte c - 48"

definition nat_of_digits :: "string \<Rightarrow> nat" where
  "nat_of_digits ds = foldl (\<lambda>n c. 10 * n + digit_val c) 0 ds"

text \<open>\<^verbatim>\<open>while bytes.get(at).is_some_and(u8::is_ascii_digit) { at += 1; }\<close>\<close>

function skip_digits :: "string \<Rightarrow> nat \<Rightarrow> nat" where
  "skip_digits s pos =
     (case get_at s pos of
        Some c \<Rightarrow> if is_ascii_digit c then skip_digits s (Suc pos) else pos
      | None \<Rightarrow> pos)"
  by pat_completeness auto
termination
  by (relation "measure (\<lambda>(s, pos). length s - pos)") auto

declare skip_digits.simps [simp del]

definition scan_integer :: "string \<Rightarrow> nat \<Rightarrow> (nat, nat) result" where
  "scan_integer s pos =
     (case get_at s pos of
        Some c \<Rightarrow>
          if c = CHR ''0'' then Ok (pos + 1)
          else if 49 \<le> byte c \<and> byte c \<le> 57 then Ok (skip_digits s (pos + 1))
          else Err pos
      | None \<Rightarrow> Err pos)"

definition scan_fraction :: "string \<Rightarrow> nat \<Rightarrow> (nat \<times> nat, nat) result" where
  "scan_fraction s pos =
     (if get_at s pos = Some CHR ''.'' then
        (let fraction_start = pos + 1; pos' = skip_digits s fraction_start
         in if pos' = fraction_start then Err pos' else Ok (fraction_start, pos'))
      else Ok (pos, pos))"

text \<open>\<^verbatim>\<open>BigInt::from_str\<close> on the text of an exponent: an optional sign and decimal digits.\<close>

definition bigint_from_str :: "string \<Rightarrow> int option" where
  "bigint_from_str s =
     (let (neg, ds) = (case s of
          [] \<Rightarrow> (False, [])
        | c # cs \<Rightarrow> if c = CHR ''-'' then (True, cs) else if c = CHR ''+'' then (False, cs) else (False, s))
      in if ds \<noteq> [] \<and> list_all is_ascii_digit ds
         then Some (if neg then - int (nat_of_digits ds) else int (nat_of_digits ds)) else None)"

definition scan_exponent :: "string \<Rightarrow> nat \<Rightarrow> (int \<times> nat, nat) result" where
  "scan_exponent s pos =
     (if get_at s pos = Some CHR ''e'' \<or> get_at s pos = Some CHR ''E'' then
        (let exponent_start = pos + 1;
             exponent_digits =
               (if get_at s exponent_start = Some CHR ''+'' \<or> get_at s exponent_start = Some CHR ''-''
                then exponent_start + 1 else exponent_start);
             pos' = skip_digits s exponent_digits
         in if pos' = exponent_digits then Err pos'
            else (case bigint_from_str (slice s exponent_start pos') of
                    Some e \<Rightarrow> Ok (e, pos')
                  | None \<Rightarrow> Err exponent_start))
      else Ok (0, pos))"

definition trim_start_zeros :: "string \<Rightarrow> string" where
  "trim_start_zeros = dropWhile (\<lambda>c. c = CHR ''0'')"

definition trim_end_zeros :: "string \<Rightarrow> string" where
  "trim_end_zeros s = rev (dropWhile (\<lambda>c. c = CHR ''0'') (rev s))"

text \<open>The normalised value of a coefficient with \<open>fraction\<close> digits after the point.\<close>

definition normalize :: "bool \<Rightarrow> string \<Rightarrow> nat \<Rightarrow> int \<Rightarrow> decimal" where
  "normalize neg coefficient fraction e =
     (let significant = trim_start_zeros coefficient
      in if significant = [] then DZero
         else let ds = trim_end_zeros significant
              in DNonzero neg ds (e - int fraction + int (length significant - length ds)))"

definition json_number_parse :: "string \<Rightarrow> (json_number, nat) result" where
  "json_number_parse s =
     (let neg = (get_at s 0 = Some CHR ''-'');
          integer_start = (if neg then 1 else 0)
      in bindR (scan_integer s integer_start) (\<lambda>integer_end.
         bindR (scan_fraction s integer_end) (\<lambda>(fraction_start, fraction_end).
         bindR (scan_exponent s fraction_end) (\<lambda>(e, pos).
           if pos \<noteq> length s then Err pos
           else Ok \<lparr>jn_token = s,
                    jn_value = normalize neg
                      (slice s integer_start integer_end @ slice s fraction_start fraction_end)
                      (fraction_end - fraction_start) e\<rparr>))))"

section \<open>Operations\<close>

fun decimal_is_integer :: "decimal \<Rightarrow> bool" where
  "decimal_is_integer DZero = True"
| "decimal_is_integer (DNonzero _ _ e) = (0 \<le> e)"

definition json_number_is_integer :: "json_number \<Rightarrow> bool" where
  "json_number_is_integer n = decimal_is_integer (jn_value n)"

fun times_ten :: "nat \<Rightarrow> u64 \<Rightarrow> (u64, unsigned_conversion_error) result" where
  "times_ten 0 r = Ok r"
| "times_ten (Suc zeros) r = bindR (ok_or (checked_mul r 10) OutOfRange) (times_ten zeros)"

fun decimal_as_unsigned :: "decimal \<Rightarrow> u64 \<Rightarrow> (u64, unsigned_conversion_error) result" where
  "decimal_as_unsigned DZero maximum = Ok 0"
| "decimal_as_unsigned (DNonzero neg ds e) maximum =
     (if neg then Err Negative
      else if e < 0 then Err Fractional
      else if e + int (length ds) > 20 then Err OutOfRange
      else if nat_of_digits ds \<ge> 2 ^ 64 then Err OutOfRange
      else if e \<ge> 2 ^ 32 then Err OutOfRange
      else bindR (times_ten (nat e) (of_nat (nat_of_digits ds))) (\<lambda>r.
        if r > maximum then Err OutOfRange else Ok r))"

definition as_unsigned :: "json_number \<Rightarrow> u64 \<Rightarrow> (u64, unsigned_conversion_error) result" where
  "as_unsigned n maximum = decimal_as_unsigned (jn_value n) maximum"

definition json_number_eq :: "json_number \<Rightarrow> json_number \<Rightarrow> bool" where
  "json_number_eq a b = (jn_value a = jn_value b)"

fun reverse_ordering :: "ordering \<Rightarrow> ordering" where
  "reverse_ordering Less = Greater"
| "reverse_ordering Equal = Equal"
| "reverse_ordering Greater = Less"

definition compare :: "'a::linorder \<Rightarrow> 'a \<Rightarrow> ordering" where
  "compare a b = (if a < b then Less else if a = b then Equal else Greater)"

text \<open>\<^verbatim>\<open>left.bytes().chain(repeat(b'0'))\<close> cut to the longer of the two digit strings.\<close>

definition pad_digits :: "nat \<Rightarrow> string \<Rightarrow> string" where
  "pad_digits n ds = ds @ replicate (n - length ds) CHR ''0''"

definition compare_digits :: "string \<Rightarrow> string \<Rightarrow> ordering" where
  "compare_digits left right =
     (let n = max (length left) (length right)
      in case find (\<lambda>ord. ord \<noteq> Equal)
                (map2 (\<lambda>a b. compare (byte a) (byte b)) (pad_digits n left) (pad_digits n right)) of
           Some ord \<Rightarrow> ord
         | None \<Rightarrow> Equal)"

fun decimal_sign :: "decimal \<Rightarrow> int" where
  "decimal_sign DZero = 0"
| "decimal_sign (DNonzero neg _ _) = (if neg then - 1 else 1)"

fun decimal_cmp :: "decimal \<Rightarrow> decimal \<Rightarrow> ordering" where
  "decimal_cmp a b =
     (let sign_order = compare (decimal_sign a) (decimal_sign b)
      in if sign_order \<noteq> Equal then sign_order
         else (case (a, b) of
             (DNonzero neg left left_exp, DNonzero _ right right_exp) \<Rightarrow>
               (let magnitude = compare (left_exp + int (length left)) (right_exp + int (length right));
                    absolute = (if magnitude = Equal then compare_digits left right else magnitude)
                in if neg then reverse_ordering absolute else absolute)
           | _ \<Rightarrow> Equal))"

definition json_number_cmp :: "json_number \<Rightarrow> json_number \<Rightarrow> ordering" where
  "json_number_cmp a b = decimal_cmp (jn_value a) (jn_value b)"

section \<open>Values\<close>

text \<open>The rational number a normalised decimal denotes.\<close>

fun decimal_val :: "decimal \<Rightarrow> rat" where
  "decimal_val DZero = 0"
| "decimal_val (DNonzero neg ds e) =
     (if neg then - 1 else 1) * (of_nat (nat_of_digits ds) * 10 powi e)"

definition json_number_val :: "json_number \<Rightarrow> rat" where
  "json_number_val n = decimal_val (jn_value n)"

text \<open>Normal form: decimal digits, none of them an outer zero.\<close>

fun decimal_ok :: "decimal \<Rightarrow> bool" where
  "decimal_ok DZero = True"
| "decimal_ok (DNonzero _ ds _) =
     (ds \<noteq> [] \<and> list_all is_ascii_digit ds \<and> hd ds \<noteq> CHR ''0'' \<and> last ds \<noteq> CHR ''0'')"

text \<open>The grammar of a number token, independent of the scanner.\<close>

definition number_grammar :: "string \<Rightarrow> bool \<Rightarrow> string \<Rightarrow> string \<Rightarrow> int \<Rightarrow> bool" where
  "number_grammar s neg ip fr e \<longleftrightarrow>
     (\<exists>fp ep. s = (if neg then ''-'' else []) @ ip @ fp @ ep
        \<and> (ip = ''0'' \<or> ip \<noteq> [] \<and> list_all is_ascii_digit ip \<and> hd ip \<noteq> CHR ''0'')
        \<and> list_all is_ascii_digit fr
        \<and> (fp = [] \<and> fr = [] \<or> fr \<noteq> [] \<and> fp = CHR ''.'' # fr)
        \<and> (ep = [] \<and> e = 0
           \<or> (\<exists>c es. ep = c # es \<and> (c = CHR ''e'' \<or> c = CHR ''E'') \<and> bigint_from_str es = Some e)))"


section \<open>Digit strings\<close>

lemma digit_val_less [simp]: "is_ascii_digit c \<Longrightarrow> digit_val c < 10"
  by (auto simp: is_ascii_digit_def digit_val_def)

lemma digit_val_0_iff: "is_ascii_digit c \<Longrightarrow> digit_val c = 0 \<longleftrightarrow> c = CHR ''0''"
proof -
  assume c: "is_ascii_digit c"
  have "byte (CHR ''0'') = 48" by (simp add: byte_def)
  with c show ?thesis
    by (auto simp: is_ascii_digit_def digit_val_def simp flip: byte_inject)
qed

lemma is_ascii_digit_zero [simp]: "is_ascii_digit (CHR ''0'')"
  by (simp add: is_ascii_digit_def byte_def)

lemma digit_val_zero [simp]: "digit_val (CHR ''0'') = 0"
  by (simp add: digit_val_def byte_def)

lemma nat_of_digits_Nil [simp]: "nat_of_digits [] = 0"
  by (simp add: nat_of_digits_def)

lemma nat_of_digits_snoc: "nat_of_digits (ds @ [c]) = 10 * nat_of_digits ds + digit_val c"
  by (simp add: nat_of_digits_def)

lemma nat_of_digits_append:
  "nat_of_digits (xs @ ys) = nat_of_digits xs * 10 ^ length ys + nat_of_digits ys"
proof (induction ys rule: rev_induct)
  case (snoc y ys)
  then show ?case
    by (simp add: nat_of_digits_snoc algebra_simps flip: append_assoc)
qed simp

lemma nat_of_digits_Cons:
  "nat_of_digits (c # ds) = digit_val c * 10 ^ length ds + nat_of_digits ds"
  using nat_of_digits_append [of "[c]" ds] nat_of_digits_snoc [of "[]" c] by simp

lemma nat_of_digits_zeros [simp]: "nat_of_digits (replicate n (CHR ''0'')) = 0"
  by (induction n) (simp_all add: nat_of_digits_Cons)

lemma nat_of_digits_less: "list_all is_ascii_digit ds \<Longrightarrow> nat_of_digits ds < 10 ^ length ds"
proof (induction ds rule: rev_induct)
  case (snoc c ds)
  then have "nat_of_digits ds < 10 ^ length ds" and "digit_val c < 10" by auto
  then show ?case by (simp add: nat_of_digits_snoc)
qed simp

lemma nat_of_digits_ge:
  assumes "list_all is_ascii_digit ds" "ds \<noteq> []" "hd ds \<noteq> CHR ''0''"
  shows "10 ^ (length ds - 1) \<le> nat_of_digits ds"
proof (cases ds)
  case (Cons c cs)
  with assms have "0 < digit_val c" using digit_val_0_iff [of c] by auto
  then have "1 * 10 ^ length cs \<le> digit_val c * 10 ^ length cs"
    by (intro mult_le_mono1) simp
  with Cons show ?thesis by (simp add: nat_of_digits_Cons trans_le_add1)
qed (use assms in simp)

lemma nat_of_digits_mod_10: "nat_of_digits (ds @ [c]) mod 10 = digit_val c mod 10"
  by (simp add: nat_of_digits_snoc)

lemma trim_start_zeros_decomp: "\<exists>k. s = replicate k (CHR ''0'') @ trim_start_zeros s"
proof -
  let ?z = "takeWhile (\<lambda>c. c = CHR ''0'') s"
  have "replicate (length ?z) (CHR ''0'') = ?z"
    by (rule replicate_length_same) (auto dest: set_takeWhileD)
  then have "s = replicate (length ?z) (CHR ''0'') @ trim_start_zeros s"
    by (simp add: trim_start_zeros_def)
  then show ?thesis by blast
qed

lemma trim_end_zeros_decomp:
  "s = trim_end_zeros s @ replicate (length s - length (trim_end_zeros s)) (CHR ''0'')"
proof -
  obtain k where k: "rev s = replicate k (CHR ''0'') @ trim_start_zeros (rev s)"
    using trim_start_zeros_decomp by blast
  have s: "s = trim_end_zeros s @ replicate k (CHR ''0'')"
    using arg_cong [OF k, of rev] by (simp add: trim_end_zeros_def trim_start_zeros_def)
  then have "k = length s - length (trim_end_zeros s)"
    by (metis add_diff_cancel_left' length_append length_replicate)
  with s show ?thesis by simp
qed

lemma hd_trim_start_zeros: "trim_start_zeros s \<noteq> [] \<Longrightarrow> hd (trim_start_zeros s) \<noteq> CHR ''0''"
  unfolding trim_start_zeros_def by (metis (mono_tags, lifting) hd_dropWhile)

lemma last_trim_end_zeros: "trim_end_zeros s \<noteq> [] \<Longrightarrow> last (trim_end_zeros s) \<noteq> CHR ''0''"
  unfolding trim_end_zeros_def by (metis (mono_tags, lifting) hd_dropWhile last_rev rev_is_Nil_conv)

lemma nat_of_digits_trim_start [simp]: "nat_of_digits (trim_start_zeros s) = nat_of_digits s"
proof -
  obtain k where "s = replicate k (CHR ''0'') @ trim_start_zeros s"
    using trim_start_zeros_decomp by blast
  then show ?thesis using nat_of_digits_append [of "replicate k (CHR ''0'')" "trim_start_zeros s"] by simp
qed

lemma normalize_ok:
  assumes "list_all is_ascii_digit ds"
  shows "decimal_ok (normalize neg ds fr e)"
proof (cases "trim_start_zeros ds = []")
  case False
  let ?s = "trim_start_zeros ds" and ?t = "trim_end_zeros (trim_start_zeros ds)"
  have s: "?s = ?t @ replicate (length ?s - length ?t) (CHR ''0'')"
    by (rule trim_end_zeros_decomp)
  have nonempty: "?t \<noteq> []"
  proof
    assume "?t = []"
    with s have "?s = replicate (length ?s) (CHR ''0'')" by simp
    with False have "hd ?s = CHR ''0''" by (metis hd_replicate length_0_conv)
    with False hd_trim_start_zeros show False by blast
  qed
  have "hd ?t = hd ?s" using s nonempty by (metis hd_append2)
  moreover have "set ?t \<subseteq> set ds"
    unfolding trim_end_zeros_def trim_start_zeros_def by (auto dest!: set_dropWhileD)
  ultimately show ?thesis
    using False nonempty assms hd_trim_start_zeros [OF False] last_trim_end_zeros [OF nonempty]
    by (auto simp: normalize_def Let_def list_all_iff)
qed (simp add: normalize_def)

lemma normalize_val:
  "decimal_val (normalize neg ds fr e) =
     (if neg then - 1 else 1) * (of_nat (nat_of_digits ds) * 10 powi (e - int fr))"
proof (cases "trim_start_zeros ds = []")
  case True
  then have "nat_of_digits ds = 0" using nat_of_digits_trim_start [of ds] by simp
  with True show ?thesis by (simp add: normalize_def)
next
  case False
  let ?s = "trim_start_zeros ds" and ?t = "trim_end_zeros (trim_start_zeros ds)"
  let ?k = "length ?s - length ?t"
  have "nat_of_digits ?s = nat_of_digits ?t * 10 ^ ?k"
    by (subst trim_end_zeros_decomp [of ?s]) (simp add: nat_of_digits_append)
  then have "(of_nat (nat_of_digits ds) :: rat) = of_nat (nat_of_digits ?t) * 10 ^ ?k"
    by (metis nat_of_digits_trim_start of_nat_mult of_nat_numeral of_nat_power)
  moreover have "(10 :: rat) powi (e - int fr + int ?k) = 10 powi (e - int fr) * 10 ^ ?k"
    by (simp add: power_int_add)
  ultimately show ?thesis using False by (simp add: normalize_def Let_def)
qed

section \<open>The scanner and the grammar\<close>

definition integer_part :: "string \<Rightarrow> bool" where
  "integer_part ip \<longleftrightarrow> ip = ''0'' \<or> ip \<noteq> [] \<and> list_all is_ascii_digit ip \<and> hd ip \<noteq> CHR ''0''"

definition fraction_part :: "string \<Rightarrow> string \<Rightarrow> bool" where
  "fraction_part fp fr \<longleftrightarrow>
     list_all is_ascii_digit fr \<and> (fp = [] \<and> fr = [] \<or> fr \<noteq> [] \<and> fp = CHR ''.'' # fr)"

definition exponent_part :: "string \<Rightarrow> int \<Rightarrow> bool" where
  "exponent_part ep e \<longleftrightarrow>
     ep = [] \<and> e = 0 \<or> (\<exists>c es. ep = c # es \<and> (c = CHR ''e'' \<or> c = CHR ''E'') \<and> bigint_from_str es = Some e)"

lemma number_grammar_parts:
  "number_grammar s neg ip fr e \<longleftrightarrow>
     (\<exists>fp ep. s = (if neg then ''-'' else []) @ ip @ fp @ ep
        \<and> integer_part ip \<and> fraction_part fp fr \<and> exponent_part ep e)"
  unfolding number_grammar_def integer_part_def fraction_part_def exponent_part_def by auto

abbreviation no_digit_start :: "string \<Rightarrow> bool" where
  "no_digit_start r \<equiv> r = [] \<or> \<not> is_ascii_digit (hd r)"

lemma nonzero_digit_iff:
  "49 \<le> byte c \<and> byte c \<le> 57 \<longleftrightarrow> is_ascii_digit c \<and> c \<noteq> CHR ''0''"
proof -
  have "byte (CHR ''0'') = 48" by (simp add: byte_def)
  then show ?thesis by (auto simp: is_ascii_digit_def simp flip: byte_inject)
qed

lemma skip_digits_append:
  "skip_digits (pre @ rest) (length pre) = length pre + length (takeWhile is_ascii_digit rest)"
proof (induction rest arbitrary: pre)
  case Nil
  then show ?case by (subst skip_digits.simps) (simp add: get_at_def)
next
  case (Cons c rest)
  have "skip_digits (pre @ c # rest) (Suc (length pre)) =
      Suc (length pre) + length (takeWhile is_ascii_digit rest)"
    using Cons.IH [of "pre @ [c]"] by simp
  then show ?case by (subst skip_digits.simps) (simp add: get_at_def)
qed

lemma skip_digits_part:
  assumes "list_all is_ascii_digit ds" "no_digit_start rest"
  shows "skip_digits (pre @ ds @ rest) (length pre) = length pre + length ds"
proof -
  have "takeWhile is_ascii_digit (ds @ rest) = ds"
    using assms by (cases rest) (auto simp: list_all_iff takeWhile_append)
  then show ?thesis using skip_digits_append [of pre "ds @ rest"] by simp
qed

lemma skip_digits_decomp:
  "\<exists>ds rest'. rest = ds @ rest' \<and> list_all is_ascii_digit ds \<and> no_digit_start rest'
     \<and> skip_digits (pre @ rest) (length pre) = length (pre @ ds)"
proof -
  let ?ds = "takeWhile is_ascii_digit rest" and ?r = "dropWhile is_ascii_digit rest"
  have "list_all is_ascii_digit ?ds" by (auto simp: list_all_iff dest: set_takeWhileD)
  moreover have "no_digit_start ?r" using hd_dropWhile by blast
  moreover have "rest = ?ds @ ?r" by simp
  ultimately show ?thesis
    using skip_digits_append [of pre rest] by (metis length_append)
qed

lemma scan_integer_sound:
  assumes "scan_integer (pre @ rest) (length pre) = Ok k"
  shows "\<exists>ip rest'. rest = ip @ rest' \<and> integer_part ip \<and> k = length (pre @ ip)"
proof -
  obtain c r where rest: "rest = c # r"
    using assms by (cases rest) (auto simp: scan_integer_def get_at_def)
  show ?thesis
  proof (cases "c = CHR ''0''")
    case True
    then show ?thesis using assms rest
      by (intro exI [of _ "''0''"] exI [of _ r]) (simp add: scan_integer_def get_at_def integer_part_def)
  next
    case False
    then have k: "k = skip_digits (pre @ c # r) (Suc (length pre))" and c: "is_ascii_digit c"
      using assms rest nonzero_digit_iff [of c]
      by (auto simp: scan_integer_def get_at_def split: if_splits)
    obtain ds r' where "r = ds @ r'" "list_all is_ascii_digit ds"
        "skip_digits ((pre @ [c]) @ r) (length (pre @ [c])) = length ((pre @ [c]) @ ds)"
      using skip_digits_decomp [of r "pre @ [c]"] by blast
    then show ?thesis using False c k rest
      by (intro exI [of _ "c # ds"] exI [of _ r']) (auto simp: integer_part_def)
  qed
qed

lemma scan_integer_complete:
  assumes "integer_part ip" "no_digit_start rest"
  shows "scan_integer (pre @ ip @ rest) (length pre) = Ok (length (pre @ ip))"
proof (cases "ip = ''0''")
  case True
  then show ?thesis by (simp add: scan_integer_def get_at_def)
next
  case False
  with assms obtain c ds where ip: "ip = c # ds" "is_ascii_digit c" "list_all is_ascii_digit ds"
      "c \<noteq> CHR ''0''"
    by (cases ip) (auto simp: integer_part_def)
  have "skip_digits ((pre @ [c]) @ ds @ rest) (length (pre @ [c])) = length (pre @ [c]) + length ds"
    using ip(3) assms(2) by (rule skip_digits_part)
  then show ?thesis using ip nonzero_digit_iff [of c]
    by (simp add: scan_integer_def get_at_def)
qed

lemma scan_fraction_sound:
  assumes "scan_fraction (pre @ rest) (length pre) = Ok (a, b)"
  shows "\<exists>fp fr rest'. rest = fp @ rest' \<and> fraction_part fp fr \<and> b = length (pre @ fp)
           \<and> slice (pre @ rest) a b = fr \<and> b - a = length fr"
proof (cases "get_at rest 0 = Some CHR ''.''")
  case False
  then show ?thesis using assms
    by (intro exI [of _ "[]"] exI [of _ rest])
       (auto simp: scan_fraction_def fraction_part_def slice_def)
next
  case True
  then obtain r where rest: "rest = CHR ''.'' # r" by (cases rest) (auto simp: get_at_def)
  obtain ds r' where ds: "r = ds @ r'" "list_all is_ascii_digit ds"
      "skip_digits ((pre @ [CHR ''.'']) @ r) (length (pre @ [CHR ''.''])) = length ((pre @ [CHR ''.'']) @ ds)"
    using skip_digits_decomp [of r "pre @ [CHR ''.'']"] by blast
  then have "a = Suc (length pre)" "b = Suc (length pre) + length ds" "ds \<noteq> []"
    using assms True rest by (auto simp: scan_fraction_def Let_def split: if_splits)
  then show ?thesis using rest ds
    by (intro exI [of _ "CHR ''.'' # ds"] exI [of _ ds] exI [of _ r'])
       (simp add: fraction_part_def slice_def)
qed

lemma scan_fraction_complete:
  assumes "fraction_part fp fr" "no_digit_start rest" "rest = [] \<or> hd rest \<noteq> CHR ''.''"
  shows "\<exists>a. scan_fraction (pre @ fp @ rest) (length pre) = Ok (a, length (pre @ fp))
           \<and> slice (pre @ fp @ rest) a (length (pre @ fp)) = fr \<and> length (pre @ fp) - a = length fr"
proof (cases "fp = []")
  case True
  with assms show ?thesis
    by (cases rest) (auto simp: scan_fraction_def get_at_def fraction_part_def slice_def)
next
  case False
  with assms have fp: "fp = CHR ''.'' # fr" "fr \<noteq> []" "list_all is_ascii_digit fr"
    by (auto simp: fraction_part_def)
  have "skip_digits ((pre @ [CHR ''.'']) @ fr @ rest) (length (pre @ [CHR ''.''])) =
      length (pre @ [CHR ''.'']) + length fr"
    using fp(3) assms(2) by (rule skip_digits_part)
  then show ?thesis using fp
    by (simp add: scan_fraction_def Let_def get_at_def slice_def)
qed

lemma bigint_from_str_cases:
  assumes "bigint_from_str es = Some e"
  obtains sg ds where "es = sg @ ds" "ds \<noteq> []" "list_all is_ascii_digit ds"
    "sg = [] \<or> sg = ''+'' \<or> sg = ''-''"
proof (cases es)
  case (Cons c cs)
  show ?thesis
  proof (cases "c = CHR ''-'' \<or> c = CHR ''+''")
    case True
    with Cons assms show ?thesis
      by (intro that [of "[c]" cs]) (auto simp: bigint_from_str_def split: if_splits)
  next
    case False
    with Cons assms show ?thesis
      by (intro that [of "[]" es]) (auto simp: bigint_from_str_def split: if_splits)
  qed
qed (use assms in \<open>simp add: bigint_from_str_def\<close>)

lemma sign_not_digit [simp]: "\<not> is_ascii_digit (CHR ''+'')" "\<not> is_ascii_digit (CHR ''-'')"
    "\<not> is_ascii_digit (CHR ''e'')" "\<not> is_ascii_digit (CHR ''E'')" "\<not> is_ascii_digit (CHR ''.'')"
  by (simp_all add: is_ascii_digit_def byte_def)

lemma scan_exponent_sound:
  assumes "scan_exponent (pre @ rest) (length pre) = Ok (e, k)" and "k = length (pre @ rest)"
  shows "exponent_part rest e"
proof (cases "get_at rest 0 = Some CHR ''e'' \<or> get_at rest 0 = Some CHR ''E''")
  case False
  then have "scan_exponent (pre @ rest) (length pre) = Ok (0, length pre)"
    unfolding scan_exponent_def get_at_length_append by (rule if_not_P)
  with assms show ?thesis by (simp add: exponent_part_def)
next
  case True
  then obtain c r where rest: "rest = c # r" "c = CHR ''e'' \<or> c = CHR ''E''"
    by (cases rest) (auto simp: get_at_def)
  have "bigint_from_str (slice (pre @ rest) (length pre + 1) k) = Some e"
    using assms True
    by (auto simp: scan_exponent_def Let_def simp del: get_at_Some_iff split: if_splits option.splits)
  moreover have "slice (pre @ rest) (length pre + 1) k = r"
    using assms(2) rest(1) by (simp add: slice_def)
  ultimately show ?thesis using rest by (auto simp: exponent_part_def)
qed

lemma scan_exponent_complete:
  assumes "exponent_part ep e"
  shows "scan_exponent (pre @ ep) (length pre) = Ok (e, length (pre @ ep))"
proof (cases "ep = []")
  case True
  with assms show ?thesis by (simp add: scan_exponent_def get_at_def exponent_part_def)
next
  case False
  with assms obtain c es where ep: "ep = c # es" "c = CHR ''e'' \<or> c = CHR ''E''"
    and es: "bigint_from_str es = Some e" by (auto simp: exponent_part_def)
  from es obtain sg ds where split: "es = sg @ ds" "ds \<noteq> []" "list_all is_ascii_digit ds"
      "sg = [] \<or> sg = ''+'' \<or> sg = ''-''" by (rule bigint_from_str_cases)
  let ?p = "pre @ [c]"
  have whole: "pre @ ep = ?p @ es" using ep by simp
  have c: "get_at (pre @ ep) (length pre) = Some CHR ''e'' \<or> get_at (pre @ ep) (length pre) = Some CHR ''E''"
    using ep by simp
  have sgn: "(get_at (pre @ ep) (length ?p) = Some CHR ''+'' \<or> get_at (pre @ ep) (length ?p) = Some CHR ''-'')
      \<longleftrightarrow> sg \<noteq> []"
  proof -
    have "get_at (pre @ ep) (length ?p) = get_at es 0"
      unfolding whole by (rule get_at_length_append)
    moreover have "hd ds \<noteq> CHR ''+''" "hd ds \<noteq> CHR ''-''"
      using split(2,3) by (cases ds; force)+
    ultimately show ?thesis
      using split(1,2,4) by (auto simp: get_at_def hd_conv_nth)
  qed
  have digits: "(if sg \<noteq> [] then length ?p + 1 else length ?p) = length (?p @ sg)"
    using split(4) by auto
  have skip: "skip_digits (pre @ ep) (length (?p @ sg)) = length (pre @ ep)"
    using skip_digits_part [OF split(3), of "[]" "?p @ sg"] split(1) whole by simp
  have "slice (pre @ ep) (length ?p) (length (pre @ ep)) = es"
    unfolding whole by (simp add: slice_def)
  moreover have "length (pre @ ep) \<noteq> length (?p @ sg)" using whole split(1,2) by simp
  moreover have "length pre + 1 = length ?p" by simp
  ultimately show ?thesis
    unfolding scan_exponent_def Let_def if_P [OF c] \<open>length pre + 1 = length ?p\<close> sgn digits skip
    using es by simp
qed

lemma parse_sound:
  assumes "json_number_parse s = Ok n"
  shows "\<exists>neg ip fr e. number_grammar s neg ip fr e
    \<and> n = \<lparr>jn_token = s, jn_value = normalize neg (ip @ fr) (length fr) e\<rparr>"
proof -
  define neg where "neg = (get_at s 0 = Some CHR ''-'')"
  define sg where "sg = (if neg then ''-'' else [])"
  have "\<exists>rest. s = sg @ rest"
    by (cases s) (auto simp: sg_def neg_def get_at_def)
  then obtain rest where s: "s = sg @ rest" by blast
  have start: "(if neg then 1 else 0) = length sg" by (simp add: sg_def)
  from assms obtain ie a b e where
      i: "scan_integer s (length sg) = Ok ie" and f: "scan_fraction s ie = Ok (a, b)"
      and x: "scan_exponent s b = Ok (e, length s)"
      and n: "n = \<lparr>jn_token = s, jn_value = normalize neg (slice s (length sg) ie @ slice s a b) (b - a) e\<rparr>"
    unfolding json_number_parse_def Let_def neg_def [symmetric] start
    by (auto split: if_splits prod.splits)
  obtain ip r1 where r1: "rest = ip @ r1" "integer_part ip" "ie = length (sg @ ip)"
    using scan_integer_sound [of sg rest ie] i s by blast
  obtain fp fr r2 where r2: "r1 = fp @ r2" "fraction_part fp fr" "b = length ((sg @ ip) @ fp)"
      "slice s a b = fr" "b - a = length fr"
    using scan_fraction_sound [of "sg @ ip" r1 a b] f s r1 by auto
  have "exponent_part r2 e"
    using scan_exponent_sound [of "sg @ ip @ fp" r2 e] x s r1 r2 by simp
  moreover have "slice s (length sg) ie = ip" using s r1 by (simp add: slice_def)
  moreover have "s = (if neg then ''-'' else []) @ ip @ fp @ r2"
    using s r1(1) r2(1) by (simp add: sg_def)
  ultimately have "number_grammar s neg ip fr e"
    using r1(2) r2(2) unfolding number_grammar_parts by blast
  moreover have "n = \<lparr>jn_token = s, jn_value = normalize neg (ip @ fr) (length fr) e\<rparr>"
    using n \<open>slice s (length sg) ie = ip\<close> r2(4,5) by simp
  ultimately show ?thesis by blast
qed

lemma parse_complete:
  assumes "number_grammar s neg ip fr e"
  shows "json_number_parse s = Ok \<lparr>jn_token = s, jn_value = normalize neg (ip @ fr) (length fr) e\<rparr>"
proof -
  from assms obtain fp ep where s: "s = (if neg then ''-'' else []) @ ip @ fp @ ep"
    and parts: "integer_part ip" "fraction_part fp fr" "exponent_part ep e"
    by (auto simp: number_grammar_parts)
  define sg where "sg = (if neg then ''-'' else [])"
  have hd_ip: "ip \<noteq> []" "hd ip \<noteq> CHR ''-''"
    using parts(1) by (cases ip; auto simp: integer_part_def)+
  then have neg: "(get_at s 0 = Some CHR ''-'') = neg"
    using s by (cases ip) (auto simp: get_at_def)
  have start: "(if neg then 1 else 0) = length sg" by (simp add: sg_def)
  have ep: "no_digit_start ep" "ep = [] \<or> hd ep \<noteq> CHR ''.''"
    using parts(3) by (auto simp: exponent_part_def)
  have fep: "no_digit_start (fp @ ep)" using parts(2) ep by (auto simp: fraction_part_def)
  have i: "scan_integer s (length sg) = Ok (length (sg @ ip))"
    using scan_integer_complete [OF parts(1) fep, of sg] s by (simp add: sg_def)
  obtain a where f: "scan_fraction s (length (sg @ ip)) = Ok (a, length (sg @ ip @ fp))"
      "slice s a (length (sg @ ip @ fp)) = fr" "length (sg @ ip @ fp) - a = length fr"
    using scan_fraction_complete [OF parts(2) ep, of "sg @ ip"] s by (auto simp: sg_def)
  have x: "scan_exponent s (length (sg @ ip @ fp)) = Ok (e, length s)"
    using scan_exponent_complete [OF parts(3), of "sg @ ip @ fp"] s by (simp add: sg_def)
  have "slice s (length sg) (length (sg @ ip)) = ip" using s by (simp add: slice_def sg_def)
  then show ?thesis
    unfolding json_number_parse_def Let_def neg start using i f x by simp
qed

lemma grammar_digits: "number_grammar s neg ip fr e \<Longrightarrow> list_all is_ascii_digit (ip @ fr)"
  by (auto simp: number_grammar_def)

lemma json_number_parse_exact_token: "json_number_parse s = Ok n \<Longrightarrow> s = jn_token n"
  using parse_sound [of s n] by auto

lemma parse_value_ok: "json_number_parse s = Ok n \<Longrightarrow> decimal_ok (jn_value n)"
  using parse_sound [of s n] grammar_digits normalize_ok by fastforce

section \<open>Order and equality of values\<close>

definition find_nonequal :: "ordering list \<Rightarrow> ordering" where
  "find_nonequal os = (case find (\<lambda>ord. ord \<noteq> Equal) os of Some ord \<Rightarrow> ord | None \<Rightarrow> Equal)"

lemma find_nonequal_simps [simp]:
  "find_nonequal [] = Equal"
  "find_nonequal (x # xs) = (if x = Equal then find_nonequal xs else x)"
  by (simp_all add: find_nonequal_def)

lemma compare_simps [simp]:
  "compare a b = Equal \<longleftrightarrow> a = b" "compare a b = Less \<longleftrightarrow> a < b" "compare a b = Greater \<longleftrightarrow> b < a"
  by (auto simp: compare_def)

lemma compare_same [simp]: "compare a a = Equal"
  by simp

lemma compare_eqI: "(x < y \<longleftrightarrow> a < b) \<Longrightarrow> (x = y \<longleftrightarrow> a = b) \<Longrightarrow> compare x y = compare a b"
  by (auto simp: compare_def)

lemma compare_byte_digit:
  "is_ascii_digit c \<Longrightarrow> is_ascii_digit d \<Longrightarrow> compare (byte c) (byte d) = compare (digit_val c) (digit_val d)"
  by (rule compare_eqI) (auto simp: is_ascii_digit_def digit_val_def simp del: byte_inject)

lemma find_nonequal_digits:
  assumes "length xs = length ys" "list_all is_ascii_digit xs" "list_all is_ascii_digit ys"
  shows "find_nonequal (map2 (\<lambda>a b. compare (byte a) (byte b)) xs ys) =
    compare (nat_of_digits xs) (nat_of_digits ys)"
  using assms
proof (induction xs ys rule: list_induct2)
  case Nil
  then show ?case by simp
next
  case (Cons x xs y ys)
  let ?p = "10 ^ length xs :: nat"
  have bounds: "nat_of_digits xs < ?p" "nat_of_digits ys < ?p"
    using Cons.prems Cons.hyps nat_of_digits_less [of xs] nat_of_digits_less [of ys] by auto
  have step: "a * ?p + nat_of_digits u < b * ?p + nat_of_digits v"
    if "a < b" "nat_of_digits u < ?p" for a b u v
  proof -
    have "a * ?p + nat_of_digits u < Suc a * ?p" using that(2) by simp
    also have "\<dots> \<le> b * ?p" using that(1) by (intro mult_le_mono1) simp
    finally show ?thesis by simp
  qed
  have cmp: "compare (byte x) (byte y) = compare (digit_val x) (digit_val y)"
    using Cons.prems by (intro compare_byte_digit) auto
  consider "digit_val x < digit_val y" | "digit_val y < digit_val x" | "digit_val x = digit_val y"
    by linarith
  then show ?case
  proof cases
    case 1
    then have "nat_of_digits (x # xs) < nat_of_digits (y # ys)"
      using step [of _ _ xs ys] bounds(1) Cons.hyps by (simp add: nat_of_digits_Cons)
    with 1 cmp show ?thesis by (simp add: compare_def)
  next
    case 2
    then have "nat_of_digits (y # ys) < nat_of_digits (x # xs)"
      using step [of _ _ ys xs] bounds(2) Cons.hyps by (simp add: nat_of_digits_Cons)
    with 2 cmp show ?thesis by (simp add: compare_def)
  next
    case 3
    then show ?thesis using Cons cmp by (simp add: nat_of_digits_Cons compare_def)
  qed
qed

lemma nat_of_digits_inject:
  assumes "length xs = length ys" "list_all is_ascii_digit xs" "list_all is_ascii_digit ys"
    and "nat_of_digits xs = nat_of_digits ys"
  shows "xs = ys"
proof -
  have "find_nonequal (map2 (\<lambda>a b. compare (byte a) (byte b)) xs ys) = Equal"
    using find_nonequal_digits [OF assms(1-3)] assms(4) by simp
  with assms(1) show ?thesis
    by (induction xs ys rule: list_induct2) (auto split: if_splits)
qed

lemma length_pad_digits: "length ds \<le> n \<Longrightarrow> length (pad_digits n ds) = n"
  by (simp add: pad_digits_def)

lemma pad_digits_val: "nat_of_digits (pad_digits n ds) = nat_of_digits ds * 10 ^ (n - length ds)"
  by (simp add: pad_digits_def nat_of_digits_append)

lemma compare_digits_val:
  assumes "list_all is_ascii_digit xs" "list_all is_ascii_digit ys"
  defines "n \<equiv> max (length xs) (length ys)"
  shows "compare_digits xs ys = compare (nat_of_digits (pad_digits n xs)) (nat_of_digits (pad_digits n ys))"
proof -
  have "list_all is_ascii_digit (pad_digits n xs)" "list_all is_ascii_digit (pad_digits n ys)"
    using assms(1,2) by (auto simp: pad_digits_def list_all_iff)
  moreover have "length (pad_digits n xs) = length (pad_digits n ys)"
    by (simp add: length_pad_digits n_def)
  ultimately have "find_nonequal (map2 (\<lambda>a b. compare (byte a) (byte b)) (pad_digits n xs) (pad_digits n ys)) =
      compare (nat_of_digits (pad_digits n xs)) (nat_of_digits (pad_digits n ys))"
    by (intro find_nonequal_digits)
  then show ?thesis
    by (simp add: compare_digits_def Let_def find_nonequal_def n_def)
qed

text \<open>The absolute value of a nonzero decimal and its decimal magnitude.\<close>

definition dec_abs :: "string \<Rightarrow> int \<Rightarrow> rat" where
  "dec_abs ds e = of_nat (nat_of_digits ds) * 10 powi e"

lemma dec_abs_bounds:
  assumes "list_all is_ascii_digit ds" "ds \<noteq> []" "hd ds \<noteq> CHR ''0''"
  shows "10 powi (e + int (length ds) - 1) \<le> dec_abs ds e" "dec_abs ds e < 10 powi (e + int (length ds))"
proof -
  have split: "e + int (length ds) - 1 = int (length ds - 1) + e"
    using assms(2) by (cases ds) simp_all
  have "(10 :: rat) powi (e + int (length ds) - 1) = 10 ^ (length ds - 1) * 10 powi e"
    unfolding split by (simp add: power_int_add)
  also have "\<dots> \<le> dec_abs ds e"
    using of_nat_mono [OF nat_of_digits_ge [OF assms], where 'a = rat] unfolding dec_abs_def
    by (intro mult_right_mono) simp_all
  finally show "10 powi (e + int (length ds) - 1) \<le> dec_abs ds e" .
  have "dec_abs ds e < 10 ^ length ds * 10 powi e"
    unfolding dec_abs_def
  proof (rule mult_strict_right_mono)
    have "(of_nat (nat_of_digits ds) :: rat) < of_nat (10 ^ length ds)"
      using nat_of_digits_less [OF assms(1)] by (simp only: of_nat_less_iff)
    then show "(of_nat (nat_of_digits ds) :: rat) < 10 ^ length ds" by simp
  qed simp
  also have "\<dots> = 10 powi (e + int (length ds))" by (simp add: power_int_add)
  finally show "dec_abs ds e < 10 powi (e + int (length ds))" .
qed

lemma dec_abs_pos: "list_all is_ascii_digit ds \<Longrightarrow> ds \<noteq> [] \<Longrightarrow> hd ds \<noteq> CHR ''0'' \<Longrightarrow> 0 < dec_abs ds e"
  using dec_abs_bounds(1) [of ds e] by (meson less_le_trans zero_less_numeral zero_less_power_int)

lemma dec_abs_pad:
  assumes "length ds \<le> n"
  shows "dec_abs ds e = of_nat (nat_of_digits (pad_digits n ds)) * 10 powi (e + int (length ds) - int n)"
proof -
  have split: "e = int (n - length ds) + (e + int (length ds) - int n)"
    using assms by (simp add: of_nat_diff)
  have "(10 :: rat) powi e = 10 ^ (n - length ds) * 10 powi (e + int (length ds) - int n)"
    by (subst split, subst power_int_add) simp_all
  then show ?thesis by (simp add: dec_abs_def pad_digits_val)
qed

lemma dec_abs_compare:
  fixes e f :: int
  assumes a: "list_all is_ascii_digit xs" "xs \<noteq> []" "hd xs \<noteq> CHR ''0''"
    and b: "list_all is_ascii_digit ys" "ys \<noteq> []" "hd ys \<noteq> CHR ''0''"
  defines "m \<equiv> compare (e + int (length xs)) (f + int (length ys))"
  shows "(if m = Equal then compare_digits xs ys else m) = compare (dec_abs xs e) (dec_abs ys f)"
proof -
  have apart: "dec_abs us g < dec_abs vs h"
    if "g + int (length us) < h + int (length vs)" and
      us: "list_all is_ascii_digit us" "us \<noteq> []" "hd us \<noteq> CHR ''0''" and
      vs: "list_all is_ascii_digit vs" "vs \<noteq> []" "hd vs \<noteq> CHR ''0''" for us vs g h
  proof -
    have "dec_abs us g < 10 powi (g + int (length us))" by (rule dec_abs_bounds(2) [OF us])
    also have "\<dots> \<le> 10 powi (h + int (length vs) - 1)"
      using that(1) by (intro power_int_increasing) auto
    also have "\<dots> \<le> dec_abs vs h" by (rule dec_abs_bounds(1) [OF vs])
    finally show ?thesis .
  qed
  show ?thesis
  proof (cases m)
    case Less
    then have "e + int (length xs) < f + int (length ys)" by (simp add: m_def)
    from apart [OF this a b] Less show ?thesis by (simp add: compare_def)
  next
    case Greater
    then have "f + int (length ys) < e + int (length xs)" by (simp add: m_def)
    from apart [OF this b a] Greater show ?thesis by (simp add: compare_def)
  next
    case Equal
    let ?n = "max (length xs) (length ys)"
    let ?s = "(10 :: rat) powi (e + int (length xs) - int ?n)"
    have "dec_abs xs e = of_nat (nat_of_digits (pad_digits ?n xs)) * ?s"
         "dec_abs ys f = of_nat (nat_of_digits (pad_digits ?n ys)) * ?s"
      using dec_abs_pad [of xs ?n e] dec_abs_pad [of ys ?n f] Equal by (simp_all add: m_def)
    then have "compare (dec_abs xs e) (dec_abs ys f) =
        compare (nat_of_digits (pad_digits ?n xs)) (nat_of_digits (pad_digits ?n ys))"
      by (intro compare_eqI) simp_all
    then show ?thesis using Equal a(1) b(1) by (simp add: compare_digits_val)
  qed
qed

lemma decimal_val_Nonzero: "decimal_val (DNonzero neg ds e) = (if neg then - dec_abs ds e else dec_abs ds e)"
  by (simp add: dec_abs_def)

lemma reverse_compare: "reverse_ordering (compare a b) = compare b a"
  by (auto simp: compare_def)

lemma compare_uminus: "compare (- a) (- b) = compare b (a :: rat)"
  by (auto simp: compare_def)

lemma decimal_sign_val: "decimal_ok d \<Longrightarrow> of_int (decimal_sign d) = sgn (decimal_val d)"
proof (cases d)
  case (DNonzero neg ds e)
  moreover assume "decimal_ok d"
  ultimately have "0 < dec_abs ds e" by (simp add: dec_abs_pos)
  then show ?thesis
    by (simp add: DNonzero decimal_val_Nonzero sgn_if del: decimal_val.simps)
qed simp

lemma compare_sgn_less:
  "sgn a < sgn (b :: rat) \<Longrightarrow> a < b"
  by (auto simp: sgn_if split: if_splits)

lemma decimal_cmp_val:
  assumes "decimal_ok a" "decimal_ok b"
  shows "decimal_cmp a b = compare (decimal_val a) (decimal_val b)"
proof (cases "decimal_sign a = decimal_sign b")
  case False
  have sign: "decimal_sign a < decimal_sign b \<longleftrightarrow> sgn (decimal_val a) < sgn (decimal_val b)"
    "decimal_sign b < decimal_sign a \<longleftrightarrow> sgn (decimal_val b) < sgn (decimal_val a)"
    using decimal_sign_val [OF assms(1)] decimal_sign_val [OF assms(2)]
    by (metis of_int_less_iff)+
  show ?thesis
  proof (cases "decimal_sign a < decimal_sign b")
    case True
    then have "decimal_val a < decimal_val b" using sign(1) compare_sgn_less by blast
    with True show ?thesis by (simp add: compare_def)
  next
    case False
    with \<open>decimal_sign a \<noteq> decimal_sign b\<close> have "decimal_sign b < decimal_sign a" by simp
    then have "decimal_val b < decimal_val a" using sign(2) compare_sgn_less by blast
    with \<open>decimal_sign b < decimal_sign a\<close> show ?thesis by (simp add: compare_def)
  qed
next
  case True
  show ?thesis
  proof (cases a)
    case DZero
    with True have "b = DZero" by (cases b) (auto split: if_splits)
    with DZero show ?thesis by simp
  next
    case (DNonzero neg xs e)
    with True obtain ys f where b: "b = DNonzero neg ys f"
      by (cases b) (auto split: if_splits)
    have "decimal_cmp a b = (if neg then reverse_ordering (compare (dec_abs xs e) (dec_abs ys f))
        else compare (dec_abs xs e) (dec_abs ys f))"
      using assms DNonzero b dec_abs_compare [of xs ys e f] by (simp add: Let_def)
    then show ?thesis
      by (simp add: DNonzero b decimal_val_Nonzero reverse_compare compare_uminus
          del: decimal_val.simps decimal_cmp.simps)
  qed
qed

lemma last_digit_not_dvd:
  assumes "list_all is_ascii_digit ds" "ds \<noteq> []" "last ds \<noteq> CHR ''0''"
  shows "\<not> 10 dvd nat_of_digits ds"
proof -
  obtain cs c where ds: "ds = cs @ [c]" using assms(2) by (cases ds rule: rev_cases) auto
  with assms have "digit_val c \<noteq> 0" "digit_val c < 10"
    using digit_val_0_iff [of c] by auto
  then have "nat_of_digits ds mod 10 \<noteq> 0" by (simp add: ds nat_of_digits_mod_10)
  then show ?thesis by (simp add: dvd_eq_mod_eq_0)
qed

lemma dec_abs_same_exponent:
  assumes "dec_abs xs e = dec_abs ys f" "e < f"
  shows "10 dvd nat_of_digits xs"
proof -
  obtain k where k: "f = e + int (Suc k)"
    using assms(2) by (metis zless_iff_Suc_zadd)
  have "(10 :: rat) powi f = 10 powi e * 10 ^ Suc k"
    unfolding k by (subst power_int_add) (simp, simp only: power_int_of_nat)
  with assms(1) have "(of_nat (nat_of_digits xs) :: rat) = of_nat (nat_of_digits ys) * 10 ^ Suc k"
    by (simp add: dec_abs_def)
  then have "(of_nat (nat_of_digits xs) :: rat) = of_nat (nat_of_digits ys * 10 ^ Suc k)" by simp
  then have "nat_of_digits xs = nat_of_digits ys * 10 ^ Suc k" by (simp only: of_nat_eq_iff)
  then show ?thesis by simp
qed

lemma decimal_val_inject:
  assumes "decimal_ok a" "decimal_ok b" "decimal_val a = decimal_val b"
  shows "a = b"
proof -
  have "decimal_sign a = decimal_sign b"
    using assms decimal_sign_val by (metis of_int_eq_iff)
  show ?thesis
  proof (cases a)
    case DZero
    with \<open>decimal_sign a = decimal_sign b\<close> show ?thesis by (cases b) (auto split: if_splits)
  next
    case (DNonzero neg xs e)
    with \<open>decimal_sign a = decimal_sign b\<close> obtain ys f where b: "b = DNonzero neg ys f"
      by (cases b) (auto split: if_splits)
    have same: "dec_abs xs e = dec_abs ys f"
      using assms(3) by (simp add: DNonzero b decimal_val_Nonzero del: decimal_val.simps split: if_splits)
    have ok: "list_all is_ascii_digit xs" "xs \<noteq> []" "hd xs \<noteq> CHR ''0''" "last xs \<noteq> CHR ''0''"
        "list_all is_ascii_digit ys" "ys \<noteq> []" "hd ys \<noteq> CHR ''0''" "last ys \<noteq> CHR ''0''"
      using assms(1,2) DNonzero b by auto
    have "e = f"
      using dec_abs_same_exponent [OF same] dec_abs_same_exponent [OF same [symmetric]]
        last_digit_not_dvd ok by (metis linorder_neqE)
    have "e + int (length xs) = f + int (length ys)"
      using dec_abs_compare [OF ok(1-3) ok(5-7), of e f] same
      by (metis compare_simps(1))
    with \<open>e = f\<close> have len: "length xs = length ys" by simp
    have "nat_of_digits xs = nat_of_digits ys" using same \<open>e = f\<close> by (simp add: dec_abs_def)
    then have "xs = ys" by (rule nat_of_digits_inject [OF len ok(1) ok(5)])
    with \<open>e = f\<close> DNonzero b show ?thesis by simp
  qed
qed

section \<open>Integers and counts\<close>

lemma dec_abs_nat: "0 \<le> e \<Longrightarrow> dec_abs ds e = of_nat (nat_of_digits ds * 10 ^ nat e)"
  by (simp add: dec_abs_def power_int_def)

lemma decimal_is_integer_val:
  assumes "decimal_ok d"
  shows "decimal_is_integer d \<longleftrightarrow> decimal_val d \<in> \<int>"
proof (cases d)
  case (DNonzero neg ds e)
  have "\<bar>decimal_val d\<bar> = dec_abs ds e"
    using assms DNonzero dec_abs_pos [of ds e] by (simp add: decimal_val_Nonzero del: decimal_val.simps)
  then have iff: "decimal_val d \<in> \<int> \<longleftrightarrow> dec_abs ds e \<in> \<int>"
    by (metis Ints_abs Ints_minus abs_if minus_minus)
  have "dec_abs ds e \<notin> \<int>" if "e < 0"
  proof
    assume "dec_abs ds e \<in> \<int>"
    then obtain z where z: "dec_abs ds e = of_int z" by (auto elim: Ints_cases)
    moreover have "0 < dec_abs ds e" using assms DNonzero by (simp add: dec_abs_pos)
    ultimately have "dec_abs ds e = of_nat (nat z)" by simp
    moreover have "(of_nat (nat z) :: rat) = of_nat (nat z) * 10 powi 0" by simp
    ultimately have "of_nat (nat_of_digits ds) = (of_nat (nat z) :: rat) * 10 ^ nat (- e)"
      using that by (simp add: dec_abs_def power_int_def field_simps)
    then have "(of_nat (nat_of_digits ds) :: rat) = of_nat (nat z * 10 ^ nat (- e))" by simp
    then have "nat_of_digits ds = nat z * 10 ^ nat (- e)" by (simp only: of_nat_eq_iff)
    moreover have "(10 :: nat) dvd 10 ^ nat (- e)" using that by simp
    ultimately show False using assms DNonzero last_digit_not_dvd [of ds] by simp
  qed
  moreover have "dec_abs ds e \<in> \<int>" if "0 \<le> e" using that by (simp add: dec_abs_nat)
  ultimately show ?thesis using iff DNonzero by (auto simp: not_le [symmetric])
qed simp

lemma times_ten_spec:
  "times_ten k r = (if unat r * 10 ^ k < 2 ^ 64 then Ok (of_nat (unat r * 10 ^ k)) else Err OutOfRange)"
proof (induction k arbitrary: r)
  case 0
  then show ?case using unat_u64_less [of r] by simp
next
  case (Suc k)
  show ?case
  proof (cases "checked_mul r 10")
    case None
    then have "2 ^ 64 \<le> unat r * 10" by (simp add: checked_mul_None_iff)
    also have "\<dots> \<le> unat r * 10 ^ Suc k" by simp
    finally show ?thesis using None by simp
  next
    case (Some q)
    then have "unat q = unat r * 10" using checked_mul_Some_iff [of r 10 q] by simp
    with Suc.IH [of q] Some show ?thesis by (simp add: mult.assoc)
  qed
qed

lemma decimal_as_unsigned_nat:
  assumes ds: "list_all is_ascii_digit ds" "ds \<noteq> []" "hd ds \<noteq> CHR ''0''" and e: "0 \<le> e"
  defines "N \<equiv> nat_of_digits ds * 10 ^ nat e"
  shows "decimal_as_unsigned (DNonzero False ds e) m = (if unat m < N then Err OutOfRange else Ok (of_nat N))"
proof -
  have m: "unat m < 2 ^ 64" by (rule unat_u64_less)
  have N_ge: "nat_of_digits ds \<le> N" by (simp add: N_def)
  have big: "(2 :: nat) ^ 64 \<le> 10 ^ 20" by simp
  show ?thesis
  proof (cases "e + int (length ds) > 20")
    case True
    have "20 \<le> length ds - 1 + nat e" using True ds(2) e by (cases ds) auto
    then have "(10 :: nat) ^ 20 \<le> 10 ^ (length ds - 1 + nat e)" by (rule power_increasing) simp
    also have "\<dots> \<le> N"
      unfolding N_def power_add using nat_of_digits_ge [OF ds] by (rule mult_le_mono1)
    finally have "unat m < N" using m big by linarith
    then show ?thesis using True e by simp
  next
    case False
    then have small: "\<not> e \<ge> 2 ^ 32" by simp
    show ?thesis
    proof (cases "nat_of_digits ds < 2 ^ 64")
      case True
      then have u: "unat (of_nat (nat_of_digits ds) :: u64) = nat_of_digits ds"
        by (simp add: unat_of_nat)
      have of_N: "unat (of_nat N :: u64) = N" if "N < 2 ^ 64" using that by (simp add: unat_of_nat)
      show ?thesis
      proof (cases "N < 2 ^ 64")
        case True
        then show ?thesis using False small e u of_N \<open>nat_of_digits ds < 2 ^ 64\<close>
          by (simp add: times_ten_spec N_def [symmetric] word_less_nat_alt)
      next
        case False
        then have "unat m < N" using m by linarith
        then show ?thesis using False small e u \<open>\<not> e + int (length ds) > 20\<close> \<open>nat_of_digits ds < 2 ^ 64\<close>
          by (simp add: times_ten_spec N_def [symmetric])
      qed
    next
      case large: False
      then have "unat m < N" using m N_ge by linarith
      then show ?thesis using False e large by simp
    qed
  qed
qed

lemma decimal_as_unsigned_exact:
  assumes ok: "decimal_ok d"
  shows "decimal_as_unsigned d m =
    (if decimal_val d < 0 then Err Negative
     else if decimal_val d \<notin> \<int> then Err Fractional
     else if decimal_val d > of_nat (unat m) then Err OutOfRange
     else Ok (of_nat (nat \<lfloor>decimal_val d\<rfloor>)))"
proof (cases d)
  case (DNonzero neg ds e)
  have ds: "list_all is_ascii_digit ds" "ds \<noteq> []" "hd ds \<noteq> CHR ''0''" using ok DNonzero by auto
  have pos: "0 < dec_abs ds e" by (rule dec_abs_pos [OF ds])
  show ?thesis
  proof (cases neg)
    case True
    then show ?thesis using DNonzero pos by (simp add: decimal_val_Nonzero del: decimal_val.simps)
  next
    case False
    then have val: "decimal_val d = dec_abs ds e"
      using DNonzero by (simp add: decimal_val_Nonzero del: decimal_val.simps)
    show ?thesis
    proof (cases "0 \<le> e")
      case True
      define N where "N = nat_of_digits ds * 10 ^ nat e"
      have "decimal_val d = of_nat N" using val True by (simp add: dec_abs_nat N_def)
      moreover have "decimal_as_unsigned d m = (if unat m < N then Err OutOfRange else Ok (of_nat N))"
        using decimal_as_unsigned_nat [OF ds True, of m] DNonzero False
        by (simp add: N_def del: decimal_as_unsigned.simps)
      ultimately show ?thesis by (simp del: of_nat_unat)
    next
      case neg_exp: False
      then have "decimal_val d \<notin> \<int>" using decimal_is_integer_val [OF ok] DNonzero by simp
      then show ?thesis using DNonzero False neg_exp val pos by simp
    qed
  qed
qed (simp del: of_nat_unat)

section \<open>Properties of parsed numbers\<close>

text \<open>C9: A token parses exactly when it is a complete number of the JSON grammar, and the parsed
  number keeps the token and holds, in normal form, the rational the grammar gives it: sign,
  integer digits, fraction digits and exponent.\<close>

theorem json_number_parse_exact:
  "json_number_parse s = Ok n \<longleftrightarrow>
     jn_token n = s \<and> decimal_ok (jn_value n) \<and>
     (\<exists>neg ip fr e. number_grammar s neg ip fr e \<and>
        json_number_val n =
          (if neg then - 1 else 1) * (of_nat (nat_of_digits (ip @ fr)) * 10 powi (e - int (length fr))))"
proof
  assume "json_number_parse s = Ok n"
  then show "jn_token n = s \<and> decimal_ok (jn_value n) \<and>
     (\<exists>neg ip fr e. number_grammar s neg ip fr e \<and>
        json_number_val n =
          (if neg then - 1 else 1) * (of_nat (nat_of_digits (ip @ fr)) * 10 powi (e - int (length fr))))"
    using parse_sound [of s n] parse_value_ok [of s n] normalize_val
    by (fastforce simp: json_number_val_def)
next
  assume "jn_token n = s \<and> decimal_ok (jn_value n) \<and>
     (\<exists>neg ip fr e. number_grammar s neg ip fr e \<and>
        json_number_val n =
          (if neg then - 1 else 1) * (of_nat (nat_of_digits (ip @ fr)) * 10 powi (e - int (length fr))))"
  then obtain neg ip fr e where g: "number_grammar s neg ip fr e"
    and n: "jn_token n = s" "decimal_ok (jn_value n)"
    and v: "json_number_val n = decimal_val (normalize neg (ip @ fr) (length fr) e)"
    by (auto simp: normalize_val)
  have "jn_value n = normalize neg (ip @ fr) (length fr) e"
    using decimal_val_inject [OF n(2) normalize_ok [OF grammar_digits [OF g]]] v
    by (simp add: json_number_val_def)
  with n(1) parse_complete [OF g] show "json_number_parse s = Ok n" by simp
qed

text \<open>C10: Comparison and equality of parsed numbers are the order and the equality of the rationals
  they denote, whatever their spelling and however large their exponents.\<close>

theorem json_number_order_exact:
  assumes "json_number_parse s = Ok a" "json_number_parse t = Ok b"
  shows "json_number_cmp a b = compare (json_number_val a) (json_number_val b)
    \<and> (json_number_eq a b \<longleftrightarrow> json_number_val a = json_number_val b)"
  using assms parse_value_ok decimal_cmp_val decimal_val_inject
  unfolding json_number_cmp_def json_number_eq_def json_number_val_def by metis

theorem json_number_order_exact_witness:
  "json_number_parse ''-9.990e2'' = Ok \<lparr>jn_token = ''-9.990e2'', jn_value = DNonzero True ''999'' 0\<rparr>
   \<and> json_number_parse ''1E-1'' = Ok \<lparr>jn_token = ''1E-1'', jn_value = DNonzero False ''1'' (- 1)\<rparr>
   \<and> json_number_cmp \<lparr>jn_token = ''-9.990e2'', jn_value = DNonzero True ''999'' 0\<rparr>
       \<lparr>jn_token = ''1E-1'', jn_value = DNonzero False ''1'' (- 1)\<rparr> = Less"
proof -
  have a: "json_number_parse ''-9.990e2'' = Ok \<lparr>jn_token = ''-9.990e2'', jn_value = DNonzero True ''999'' 0\<rparr>"
    by code_simp
  have b: "json_number_parse ''1E-1'' = Ok \<lparr>jn_token = ''1E-1'', jn_value = DNonzero False ''1'' (- 1)\<rparr>"
    by code_simp
  show ?thesis
    using a b json_number_order_exact [OF a b]
    by (simp add: json_number_val_def nat_of_digits_def digit_val_def byte_def power_int_def compare_def)
qed

text \<open>C11: The conversion of a parsed number to a count is exact on every branch: a negative value, a
  fraction and a value above the maximum are refused by name, and every other value is returned
  unchanged; the integrality test agrees with it.\<close>

theorem as_unsigned_exact:
  assumes "json_number_parse s = Ok n"
  shows "as_unsigned n m =
     (if json_number_val n < 0 then Err Negative
      else if json_number_val n \<notin> \<int> then Err Fractional
      else if json_number_val n > of_nat (unat m) then Err OutOfRange
      else Ok (of_nat (nat \<lfloor>json_number_val n\<rfloor>)))
    \<and> (json_number_is_integer n \<longleftrightarrow> json_number_val n \<in> \<int>)"
  using decimal_as_unsigned_exact [OF parse_value_ok [OF assms], of m]
    decimal_is_integer_val [OF parse_value_ok [OF assms]]
  unfolding as_unsigned_def json_number_is_integer_def json_number_val_def by (rule conjI)

theorem as_unsigned_exact_witness:
  "json_number_parse ''1.5e1'' = Ok \<lparr>jn_token = ''1.5e1'', jn_value = DNonzero False ''15'' 0\<rparr>
   \<and> as_unsigned \<lparr>jn_token = ''1.5e1'', jn_value = DNonzero False ''15'' 0\<rparr> 20 = Ok 15"
proof -
  have a: "json_number_parse ''1.5e1'' = Ok \<lparr>jn_token = ''1.5e1'', jn_value = DNonzero False ''15'' 0\<rparr>"
    by code_simp
  then show ?thesis
    using as_unsigned_exact [OF a, of 20]
    by (simp add: json_number_val_def nat_of_digits_def digit_val_def byte_def)
qed

end
