(* ===== verification/Utf8.thy ===== *)
theory Utf8
  imports Prelude
begin

text \<open>
  The parts of Rust's \<^verbatim>\<open>str\<close> that the decoder uses: UTF-8 validation (\<^verbatim>\<open>std::str::from_utf8\<close>), the
  length of the scalar a string starts with (\<^verbatim>\<open>chars().next()\<close>), character boundaries (slicing at any
  other offset panics), the number of scalars, and the encoding of a scalar value
  (\<^verbatim>\<open>String::push\<close>).
\<close>

section \<open>Definitions\<close>

definition is_continuation :: "char \<Rightarrow> bool" where
  "is_continuation c = (128 \<le> byte c \<and> byte c \<le> 191)"

text \<open>The length of the well-formed scalar at the head of a byte string (Unicode, table 3-7).\<close>

fun utf8_head :: "string \<Rightarrow> nat option" where
  "utf8_head [] = None"
| "utf8_head (c # cs) =
     (let b = byte c in
      if b < 128 then Some 1
      else if 194 \<le> b \<and> b \<le> 223 then
        (case cs of c1 # _ \<Rightarrow> if is_continuation c1 then Some 2 else None | _ \<Rightarrow> None)
      else if 224 \<le> b \<and> b \<le> 239 then
        (case cs of
           c1 # c2 # _ \<Rightarrow>
             if is_continuation c1 \<and> is_continuation c2
                \<and> (b = 224 \<longrightarrow> 160 \<le> byte c1) \<and> (b = 237 \<longrightarrow> byte c1 \<le> 159)
             then Some 3 else None
         | _ \<Rightarrow> None)
      else if 240 \<le> b \<and> b \<le> 244 then
        (case cs of
           c1 # c2 # c3 # _ \<Rightarrow>
             if is_continuation c1 \<and> is_continuation c2 \<and> is_continuation c3
                \<and> (b = 240 \<longrightarrow> 144 \<le> byte c1) \<and> (b = 244 \<longrightarrow> byte c1 \<le> 143)
             then Some 4 else None
         | _ \<Rightarrow> None)
      else None)"

lemma utf8_head_bounds: "utf8_head s = Some k \<Longrightarrow> 0 < k \<and> k \<le> length s"
  by (cases s) (auto simp: Let_def split: if_splits list.splits)

text \<open>\<^verbatim>\<open>Utf8Error::valid_up_to\<close>: the offset of the first byte that starts no well-formed scalar.\<close>

function utf8_valid_up_to :: "string \<Rightarrow> nat" where
  "utf8_valid_up_to s =
     (case utf8_head s of Some k \<Rightarrow> k + utf8_valid_up_to (drop k s) | None \<Rightarrow> 0)"
  by pat_completeness auto
termination
  by (relation "measure length") (use utf8_head_bounds in fastforce)+

declare utf8_valid_up_to.simps [simp del]

definition utf8_valid :: "string \<Rightarrow> bool" where
  "utf8_valid s = (utf8_valid_up_to s = length s)"

definition is_char_boundary :: "string \<Rightarrow> nat \<Rightarrow> bool" where
  "is_char_boundary s i =
     (i = length s \<or> i < length s \<and> \<not> is_continuation (s ! i))"

text \<open>\<^verbatim>\<open>text.chars().count()\<close> on a valid string: every byte but the continuation bytes starts a scalar.\<close>

definition char_count :: "string \<Rightarrow> nat" where
  "char_count s = length (filter (\<lambda>c. \<not> is_continuation c) s)"

text \<open>\<^verbatim>\<open>text.chars()\<close> on a valid string: its scalar values.\<close>

fun scalar_of :: "string \<Rightarrow> nat" where
  "scalar_of [a] = byte a"
| "scalar_of [a, b] = (byte a - 192) * 64 + (byte b - 128)"
| "scalar_of [a, b, c] = (byte a - 224) * 4096 + (byte b - 128) * 64 + (byte c - 128)"
| "scalar_of [a, b, c, d] =
     (byte a - 240) * 262144 + (byte b - 128) * 4096 + (byte c - 128) * 64 + (byte d - 128)"
| "scalar_of _ = 0"

function chars :: "string \<Rightarrow> nat list" where
  "chars s = (case utf8_head s of Some k \<Rightarrow> scalar_of (take k s) # chars (drop k s) | None \<Rightarrow> [])"
  by pat_completeness auto
termination
  by (relation "measure length") (use utf8_head_bounds in fastforce)+

declare chars.simps [simp del]

definition is_scalar :: "nat \<Rightarrow> bool" where
  "is_scalar n = (n < 55296 \<or> 57343 < n \<and> n < 1114112)"

definition byte_char :: "nat \<Rightarrow> char" where
  "byte_char n = char_of n"

definition utf8_encode :: "nat \<Rightarrow> string" where
  "utf8_encode n =
     (if n < 128 then [byte_char n]
      else if n < 2048 then [byte_char (192 + n div 64), byte_char (128 + n mod 64)]
      else if n < 65536 then
        [byte_char (224 + n div 4096), byte_char (128 + n div 64 mod 64), byte_char (128 + n mod 64)]
      else
        [byte_char (240 + n div 262144), byte_char (128 + n div 4096 mod 64),
         byte_char (128 + n div 64 mod 64), byte_char (128 + n mod 64)])"

section \<open>Validity\<close>

lemma byte_byte_char [simp]: "n < 256 \<Longrightarrow> byte (byte_char n) = n"
  by (simp add: byte_def byte_char_def)

lemma utf8_valid_Nil [simp]: "utf8_valid []"
  by (subst utf8_valid_def, subst utf8_valid_up_to.simps) simp

lemma utf8_valid_up_to_le: "utf8_valid_up_to s \<le> length s"
proof (induction s rule: utf8_valid_up_to.induct)
  case (1 s)
  show ?case
  proof (cases "utf8_head s")
    case None
    then show ?thesis by (subst utf8_valid_up_to.simps) simp
  next
    case (Some k)
    with 1 have "utf8_valid_up_to (drop k s) \<le> length s - k" by simp
    with Some utf8_head_bounds [of s k] show ?thesis by (subst utf8_valid_up_to.simps) auto
  qed
qed

lemma utf8_valid_iff_head:
  "utf8_valid s \<longleftrightarrow> s = [] \<or> (\<exists>k. utf8_head s = Some k \<and> utf8_valid (drop k s))"
proof (cases "utf8_head s")
  case None
  then show ?thesis by (auto simp: utf8_valid_def utf8_valid_up_to.simps [of s])
next
  case (Some k)
  then have "s \<noteq> []" by (cases s) auto
  with Some utf8_head_bounds [of s k] show ?thesis
    by (auto simp: utf8_valid_def utf8_valid_up_to.simps [of s])
qed

lemma utf8_valid_head: "utf8_valid s \<Longrightarrow> s \<noteq> [] \<Longrightarrow> \<exists>k. utf8_head s = Some k \<and> utf8_valid (drop k s)"
  by (subst (asm) utf8_valid_iff_head) blast

lemma utf8_valid_ascii_Cons: "byte c < 128 \<Longrightarrow> utf8_valid (c # s) \<longleftrightarrow> utf8_valid s"
  by (subst utf8_valid_iff_head) simp

lemma utf8_valid_not_continuation: "utf8_valid (c # s) \<Longrightarrow> \<not> is_continuation c"
  by (drule utf8_valid_head) (auto simp: is_continuation_def Let_def split: if_splits)

lemma utf8_head_append: "utf8_head s = Some k \<Longrightarrow> utf8_head (s @ t) = Some k"
  by (cases s) (auto simp: Let_def split: if_splits list.splits)

lemma utf8_valid_append: "utf8_valid s \<Longrightarrow> utf8_valid t \<Longrightarrow> utf8_valid (s @ t)"
proof (induction "length s" arbitrary: s rule: less_induct)
  case less
  show ?case
  proof (cases "s = []")
    case False
    with less.prems obtain k where k: "utf8_head s = Some k" "utf8_valid (drop k s)"
      using utf8_valid_head by blast
    have "utf8_valid (drop k s @ t)"
      using less.hyps [of "drop k s"] k(2) less.prems(2) utf8_head_bounds [OF k(1)] by auto
    with k utf8_head_bounds [OF k(1)] utf8_head_append [OF k(1)] show ?thesis
      by (subst utf8_valid_iff_head) auto
  qed (use less.prems in simp)
qed

lemma utf8_valid_scalar_head: "utf8_head s = Some k \<Longrightarrow> utf8_valid (take k s)"
proof -
  assume k: "utf8_head s = Some k"
  have "utf8_head (take k s) = Some k"
    using k by (cases s) (auto simp: Let_def split: if_splits list.splits)
  then show ?thesis by (subst utf8_valid_iff_head) simp
qed

lemma char_boundary_suffix:
  "utf8_valid (drop i s) \<Longrightarrow> i \<le> length s \<Longrightarrow> is_char_boundary s i"
  by (cases "drop i s")
     (auto simp: is_char_boundary_def dest: utf8_valid_not_continuation
       simp flip: Cons_nth_drop_Suc split: if_splits)

lemma utf8_encode_valid:
  assumes "is_scalar n"
  shows "utf8_valid (utf8_encode n)"
proof -
  have m: "x mod 64 < 64" for x :: nat by simp
  have rem: "q mod 64 = q - 64 * (q div 64)" for q :: nat by (rule minus_mult_div_eq_mod [symmetric])
  have cont: "is_continuation (byte_char (128 + x mod 64))" for x
    using m [of x] by (simp add: is_continuation_def)
  have "utf8_head (utf8_encode n) = Some (length (utf8_encode n))"
  proof -
    consider "n < 128" | "128 \<le> n" "n < 2048" | "2048 \<le> n" "n < 65536" | "65536 \<le> n" "n < 1114112"
      using assms by (fastforce simp: is_scalar_def)
    then show ?thesis
    proof cases
      case 1
      then show ?thesis by (simp add: utf8_encode_def)
    next
      case 2
      have "2 \<le> n div 64" "n div 64 < 32" using 2 by auto
      with 2 cont show ?thesis by (simp add: utf8_encode_def Let_def)
    next
      case 3
      have a: "n div 4096 < 16" using 3 by auto
      have e: "n div 4096 = n div 64 div 64" using div_mult2_eq [of n 64 64] by simp
      have "32 \<le> n div 64" using 3 by simp
      then have "32 \<le> n div 64 mod 64" if "n div 4096 = 0" using that e rem [of "n div 64"] by simp
      moreover have "n div 64 mod 64 < 32" if "n div 4096 = 13"
      proof -
        have "n < 55296" using that assms by (auto simp: is_scalar_def)
        then have "n div 64 < 864" by auto
        with that e show ?thesis using rem [of "n div 64"] by linarith
      qed
      ultimately show ?thesis using 3 a cont m [of "n div 64"]
        by (auto simp: utf8_encode_def Let_def)
    next
      case 4
      have a: "n div 262144 \<le> 4" using 4 by auto
      have b: "16 \<le> n div 4096" "n div 4096 < 272" using 4 by auto
      have e: "n div 262144 = n div 4096 div 64" using div_mult2_eq [of n 4096 64] by simp
      have "16 \<le> n div 4096 mod 64" if "n div 262144 = 0" using that b e rem [of "n div 4096"] by simp
      moreover have "n div 4096 mod 64 < 16" if "n div 262144 = 4" using that b e rem [of "n div 4096"] by linarith
      ultimately show ?thesis using 4 a cont m [of "n div 4096"]
        by (auto simp: utf8_encode_def Let_def)
    qed
  qed
  then show ?thesis by (subst utf8_valid_iff_head) simp
qed

end
