(* ===== verification/Json.thy ===== *)
theory Json
  imports Number Utf8
begin

text \<open>
  Exact JSON, \<^verbatim>\<open>protocol/engine/src/json.rs\<close>: the arena document, the iterative parser with its stack
  of open containers, its string and number scanners and its resource limits, the value accessors, and
  the structural equality of values by a worklist.

  The stack \<^verbatim>\<open>frames\<close> grows at the head of the list; \<^verbatim>\<open>expected\<close> texts are the constructors of
  \<open>expectation\<close>; a Rust panic (\<^verbatim>\<open>expect\<close>, \<^verbatim>\<open>assert!\<close>, \<^verbatim>\<open>unreachable!\<close>, a slice off a character
  boundary) is the outcome \<open>Panic\<close>, which is shown never to happen.
\<close>

section \<open>Data\<close>

record limits =
  lim_bytes :: nat
  lim_nodes :: nat
  lim_depth :: nat

datatype expectation =
    EndOfInput | CommaOrArrayClose | CommaOrObjectClose | MemberString | ColonAfterMember
  | JsonLiteral | JsonNumberText | JsonValueText | FourHexDigits | LowSurrogate | PairedSurrogate
  | StringEscape | EscapedControl | ClosingQuote

datatype resource = JsonBytes | JsonNodes | JsonDepth

datatype decode_error =
    InvalidUtf8 nat
  | Syntax nat expectation
  | DuplicateKey nat string
  | ResourceLimit resource nat

datatype decode_fault = Refused decode_error | Panic

datatype node =
    NNull
  | NBool bool
  | NNumber json_number
  | NString string
  | NArray "nat list"
  | NObject "(string, nat) btree"

record entry =
  en_node :: node
  en_span :: "nat \<times> nat"

record document =
  doc_source :: string
  doc_entries :: "entry list"
  doc_root :: nat

datatype position = First | Next | After

datatype frame =
    ArrayFrame nat "nat list" position
  | ObjectFrame nat "(string, nat) btree" position "string option"

record parser =
  ps_source :: string
  ps_at :: nat
  ps_entries :: "entry list"
  ps_frames :: "frame list"
  ps_root :: "nat option"
  ps_limits :: limits

section \<open>Scanning\<close>

definition parse_fail :: "nat \<Rightarrow> expectation \<Rightarrow> ('a, decode_fault) result" where
  "parse_fail pos e = Err (Refused (Syntax pos e))"

definition is_ws :: "char \<Rightarrow> bool" where
  "is_ws c = (c = CHR '' '' \<or> byte c = 9 \<or> byte c = 13 \<or> byte c = 10)"

function skip_ws :: "string \<Rightarrow> nat \<Rightarrow> nat" where
  "skip_ws s pos =
     (case get_at s pos of Some c \<Rightarrow> if is_ws c then skip_ws s (Suc pos) else pos | None \<Rightarrow> pos)"
  by pat_completeness auto
termination
  by (relation "measure (\<lambda>(s, pos). length s - pos)") auto

declare skip_ws.simps [simp del]

text \<open>\<^verbatim>\<open>&source[pos..]\<close> and \<^verbatim>\<open>&source[i..j]\<close>, which panic off a character boundary.\<close>

definition str_from :: "string \<Rightarrow> nat \<Rightarrow> (string, decode_fault) result" where
  "str_from s i = (if is_char_boundary s i then Ok (drop i s) else Err Panic)"

definition str_slice :: "string \<Rightarrow> nat \<Rightarrow> nat \<Rightarrow> (string, decode_fault) result" where
  "str_slice s i j =
     (if i \<le> j \<and> is_char_boundary s i \<and> is_char_boundary s j then Ok (slice s i j) else Err Panic)"

definition starts_with :: "string \<Rightarrow> string \<Rightarrow> bool" where
  "starts_with s p = (take (length p) s = p)"

definition hex_digit :: "char \<Rightarrow> nat option" where
  "hex_digit c =
     (let b = byte c in
      if 48 \<le> b \<and> b \<le> 57 then Some (b - 48)
      else if 97 \<le> b \<and> b \<le> 102 then Some (b - 97 + 10)
      else if 65 \<le> b \<and> b \<le> 70 then Some (b - 65 + 10)
      else None)"

fun hex_unit_loop :: "nat \<Rightarrow> string \<Rightarrow> nat \<Rightarrow> nat \<Rightarrow> (nat \<times> nat, decode_fault) result" where
  "hex_unit_loop 0 s pos v = Ok (v, pos)"
| "hex_unit_loop (Suc n) s pos v =
     (case get_at s pos of
        Some c \<Rightarrow>
          (case hex_digit c of
             Some d \<Rightarrow> hex_unit_loop n s (pos + 1) (v * 16 + d)
           | None \<Rightarrow> parse_fail pos FourHexDigits)
      | None \<Rightarrow> parse_fail pos FourHexDigits)"

definition hex_unit :: "string \<Rightarrow> nat \<Rightarrow> (nat \<times> nat, decode_fault) result" where
  "hex_unit s pos = hex_unit_loop 4 s pos 0"

text \<open>The scalar written as \<^verbatim>\<open>\uXXXX\<close> or as a surrogate pair, scanned from behind the \<^verbatim>\<open>u\<close>.\<close>

definition unicode_scalar :: "string \<Rightarrow> nat \<Rightarrow> nat \<Rightarrow> (nat \<times> nat, decode_fault) result" where
  "unicode_scalar s first pos =
     (if 55296 \<le> first \<and> first \<le> 56319 then
        bindR (str_from s pos) (\<lambda>rest.
          if \<not> starts_with rest [CHR 0x5C, CHR ''u''] then parse_fail pos LowSurrogate
          else bindR (hex_unit s (pos + 2)) (\<lambda>(second, pos).
            if \<not> (56320 \<le> second \<and> second \<le> 57343) then parse_fail pos LowSurrogate
            else Ok (65536 + (first - 55296) * 1024 + second - 56320, pos)))
      else if 56320 \<le> first \<and> first \<le> 57343 then parse_fail pos PairedSurrogate
      else Ok (first, pos))"

definition unicode_escape :: "string \<Rightarrow> nat \<Rightarrow> (nat \<times> nat, decode_fault) result" where
  "unicode_escape s pos = bindR (hex_unit s pos) (\<lambda>(first, pos). unicode_scalar s first pos)"

definition simple_escape :: "char \<Rightarrow> nat option" where
  "simple_escape c =
     (if c = CHR 0x22 then Some 34
      else if c = CHR 0x5C then Some 92
      else if c = CHR ''/'' then Some 47
      else if c = CHR ''b'' then Some 8
      else if c = CHR ''f'' then Some 12
      else if c = CHR ''n'' then Some 10
      else if c = CHR ''r'' then Some 13
      else if c = CHR ''t'' then Some 9
      else None)"

text \<open>One turn of the loop of \<^verbatim>\<open>string\<close> that does not end it: the bytes pushed and the next offset.\<close>

definition string_char :: "string \<Rightarrow> nat \<Rightarrow> (string \<times> nat, decode_fault) result" where
  "string_char s pos =
     (case get_at s pos of
        None \<Rightarrow> parse_fail pos ClosingQuote
      | Some c \<Rightarrow>
          if c = CHR 0x5C then
            (case get_at s (pos + 1) of
               None \<Rightarrow> parse_fail (pos + 1) StringEscape
             | Some d \<Rightarrow>
                 if d = CHR ''u'' then
                   bindR (unicode_escape s (pos + 2)) (\<lambda>(scalar, pos').
                     if is_scalar scalar then Ok (utf8_encode scalar, pos') else Err Panic)
                 else (case simple_escape d of
                         Some scalar \<Rightarrow> Ok (utf8_encode scalar, pos + 2)
                       | None \<Rightarrow> parse_fail (pos + 1) StringEscape))
          else if byte c \<le> 31 then parse_fail pos EscapedControl
          else bindR (str_from s pos) (\<lambda>rest.
            case utf8_head rest of
              Some k \<Rightarrow> Ok (take k rest, pos + k)
            | None \<Rightarrow> Err Panic))"

lemma hex_unit_loop_advances: "hex_unit_loop n s pos v = Ok (w, pos') \<Longrightarrow> pos' = pos + n"
  by (induction n arbitrary: pos v) (fastforce simp: parse_fail_def split: option.splits)+

lemma hex_unit_advances: "hex_unit s pos = Ok (w, pos') \<Longrightarrow> pos' = pos + 4"
  by (simp add: hex_unit_def hex_unit_loop_advances)

lemma unicode_escape_advances: "unicode_escape s pos = Ok (w, pos') \<Longrightarrow> pos < pos'"
  by (auto simp: unicode_escape_def unicode_scalar_def parse_fail_def split: if_splits dest!: hex_unit_advances)

lemma string_char_advances: "string_char s pos = Ok (bs, pos') \<Longrightarrow> pos < pos'"
  by (auto simp: string_char_def parse_fail_def split: option.splits if_splits
      dest!: unicode_escape_advances) (use utf8_head_bounds in blast)+

lemma string_char_in_range: "string_char s pos = Ok r \<Longrightarrow> pos < length s"
  by (auto simp: string_char_def parse_fail_def split: option.splits)

function string_loop :: "string \<Rightarrow> nat \<Rightarrow> string \<Rightarrow> (string \<times> nat, decode_fault) result" where
  "string_loop s pos decoded =
     (if get_at s pos = Some CHR 0x22 then Ok (decoded, pos + 1)
      else (case string_char s pos of
              Ok (bs, pos') \<Rightarrow> string_loop s pos' (decoded @ bs)
            | Err e \<Rightarrow> Err e))"
  by pat_completeness auto
termination
  by (relation "measure (\<lambda>(s, pos, _). length s - pos)")
     (use string_char_advances string_char_in_range in fastforce)+

declare string_loop.simps [simp del]

definition parse_string :: "string \<Rightarrow> nat \<Rightarrow> (string \<times> nat, decode_fault) result" where
  "parse_string s pos = string_loop s (pos + 1) []"

definition is_number_char :: "char \<Rightarrow> bool" where
  "is_number_char c =
     (c = CHR ''-'' \<or> c = CHR ''+'' \<or> c = CHR ''.'' \<or> c = CHR ''e'' \<or> c = CHR ''E'' \<or> is_ascii_digit c)"

function skip_number :: "string \<Rightarrow> nat \<Rightarrow> nat" where
  "skip_number s pos =
     (case get_at s pos of Some c \<Rightarrow> if is_number_char c then skip_number s (Suc pos) else pos | None \<Rightarrow> pos)"
  by pat_completeness auto
termination
  by (relation "measure (\<lambda>(s, pos). length s - pos)") auto

declare skip_number.simps [simp del]

definition parse_number :: "string \<Rightarrow> nat \<Rightarrow> (node \<times> nat, decode_fault) result" where
  "parse_number s start =
     (let pos = skip_number s start
      in bindR (str_slice s start pos) (\<lambda>token.
           case json_number_parse token of
             Ok n \<Rightarrow> Ok (NNumber n, pos)
           | Err b \<Rightarrow> parse_fail (start + b) JsonNumberText))"

definition parse_literal :: "string \<Rightarrow> nat \<Rightarrow> char \<Rightarrow> (node \<times> nat, decode_fault) result" where
  "parse_literal s pos c =
     (let (literal, node) =
        (if c = CHR ''n'' then (''null'', NNull)
         else if c = CHR ''t'' then (''true'', NBool True)
         else (''false'', NBool False))
      in bindR (str_from s pos) (\<lambda>rest.
           if \<not> starts_with rest literal then parse_fail pos JsonLiteral
           else Ok (node, pos + length literal)))"

section \<open>The parser\<close>

definition parser_accept :: "parser \<Rightarrow> node \<Rightarrow> nat \<Rightarrow> (parser, decode_fault) result" where
  "parser_accept p node start =
     (if length (ps_entries p) = lim_nodes (ps_limits p) then
        Err (Refused (ResourceLimit JsonNodes (lim_nodes (ps_limits p))))
      else
        let nid = length (ps_entries p);
            p' = p\<lparr>ps_entries := ps_entries p @ [\<lparr>en_node = node, en_span = (start, ps_at p)\<rparr>]\<rparr>
        in (case ps_frames p of
              ArrayFrame st elements position # fs \<Rightarrow>
                Ok (p'\<lparr>ps_frames := ArrayFrame st (elements @ [nid]) After # fs\<rparr>)
            | ObjectFrame st members position key # fs \<Rightarrow>
                (case key of
                   Some k \<Rightarrow> Ok (p'\<lparr>ps_frames := ObjectFrame st (btree_insert k nid members) After None # fs\<rparr>)
                 | None \<Rightarrow> Err Panic)
            | [] \<Rightarrow> (if ps_root p = None then Ok (p'\<lparr>ps_root := Some nid\<rparr>) else Err Panic)))"

definition parser_close :: "parser \<Rightarrow> (parser, decode_fault) result" where
  "parser_close p =
     (case ps_frames p of
        [] \<Rightarrow> Err Panic
      | ArrayFrame start elements _ # fs \<Rightarrow>
          parser_accept (p\<lparr>ps_at := ps_at p + 1, ps_frames := fs\<rparr>) (NArray elements) start
      | ObjectFrame start members _ _ # fs \<Rightarrow>
          parser_accept (p\<lparr>ps_at := ps_at p + 1, ps_frames := fs\<rparr>) (NObject members) start)"

datatype parse_control = Continue parser | Return "(document, decode_fault) result"

fun continue_or_fail :: "(parser, decode_fault) result \<Rightarrow> parse_control" where
  "continue_or_fail (Ok p) = Continue p"
| "continue_or_fail (Err e) = Return (Err e)"

definition parse_open :: "parser \<Rightarrow> char \<Rightarrow> (parser, decode_fault) result" where
  "parse_open p c =
     (if length (ps_frames p) = lim_depth (ps_limits p) then
        Err (Refused (ResourceLimit JsonDepth (lim_depth (ps_limits p))))
      else Ok (p\<lparr>ps_frames :=
                   (if c = CHR ''['' then ArrayFrame (ps_at p) [] First
                    else ObjectFrame (ps_at p) [] First None) # ps_frames p,
                 ps_at := ps_at p + 1\<rparr>))"

text \<open>The part of the loop body behind \<^verbatim>\<open>let start = self.at\<close>: one value, or the opening of one.\<close>

definition parse_value :: "parser \<Rightarrow> (parser, decode_fault) result" where
  "parse_value p =
     (let start = ps_at p; s = ps_source p
      in case get_at s start of
           None \<Rightarrow> parse_fail start JsonValueText
         | Some c \<Rightarrow>
             if c = CHR ''['' \<or> c = CHR ''{'' then parse_open p c
             else if c = CHR 0x22 then
               bindR (parse_string s start) (\<lambda>(text, pos). parser_accept (p\<lparr>ps_at := pos\<rparr>) (NString text) start)
             else if c = CHR ''n'' \<or> c = CHR ''t'' \<or> c = CHR ''f'' then
               bindR (parse_literal s start c) (\<lambda>(node, pos). parser_accept (p\<lparr>ps_at := pos\<rparr>) node start)
             else if c = CHR ''-'' \<or> is_ascii_digit c then
               bindR (parse_number s start) (\<lambda>(node, pos). parser_accept (p\<lparr>ps_at := pos\<rparr>) node start)
             else parse_fail start JsonValueText)"

definition parse_member_key :: "parser \<Rightarrow> nat \<Rightarrow> (string, nat) btree \<Rightarrow> position \<Rightarrow> frame list
    \<Rightarrow> (parser, decode_fault) result" where
  "parse_member_key p start members position fs =
     (let s = ps_source p in
      if get_at s (ps_at p) \<noteq> Some CHR 0x22 then parse_fail (ps_at p) MemberString
      else bindR (parse_string s (ps_at p)) (\<lambda>(decoded, pos).
        if btree_get members decoded \<noteq> None then Err (Refused (DuplicateKey (ps_at p) decoded))
        else let pos' = skip_ws s pos
             in if get_at s pos' \<noteq> Some CHR '':'' then parse_fail pos' ColonAfterMember
                else Ok (p\<lparr>ps_at := pos' + 1,
                           ps_frames := ObjectFrame start members position (Some decoded) # fs\<rparr>)))"

text \<open>The body of the loop of \<^verbatim>\<open>Parser::parse\<close>.\<close>

definition parse_step :: "parser \<Rightarrow> parse_control" where
  "parse_step p0 =
     (let p = p0\<lparr>ps_at := skip_ws (ps_source p0) (ps_at p0)\<rparr>;
          next = get_at (ps_source p) (ps_at p)
      in case ps_frames p of
           [] \<Rightarrow>
             (case ps_root p of
                Some r \<Rightarrow>
                  if next \<noteq> None then Return (parse_fail (ps_at p) EndOfInput)
                  else Return (Ok \<lparr>doc_source = ps_source p, doc_entries = ps_entries p, doc_root = r\<rparr>)
              | None \<Rightarrow> continue_or_fail (parse_value p))
         | ArrayFrame start elements position # fs \<Rightarrow>
             if position = First \<and> next = Some CHR '']'' then continue_or_fail (parser_close p)
             else if position = After then
               (if next = Some CHR '']'' then continue_or_fail (parser_close p)
                else if next = Some CHR '','' then
                  Continue (p\<lparr>ps_frames := ArrayFrame start elements Next # fs, ps_at := ps_at p + 1\<rparr>)
                else Return (parse_fail (ps_at p) CommaOrArrayClose))
             else continue_or_fail (parse_value p)
         | ObjectFrame start members position key # fs \<Rightarrow>
             if position = First \<and> key = None \<and> next = Some CHR ''}'' then continue_or_fail (parser_close p)
             else if position = After then
               (if next = Some CHR ''}'' then continue_or_fail (parser_close p)
                else if next = Some CHR '','' then
                  Continue (p\<lparr>ps_frames := ObjectFrame start members Next key # fs, ps_at := ps_at p + 1\<rparr>)
                else Return (parse_fail (ps_at p) CommaOrObjectClose))
             else if key = None then continue_or_fail (parse_member_key p start members position fs)
             else continue_or_fail (parse_value p))"

definition remaining :: "parser \<Rightarrow> nat" where
  "remaining p = length (ps_source p) - ps_at p"

section \<open>Termination of the loop\<close>

lemma string_loop_advances: "string_loop s pos decoded = Ok (text, pos') \<Longrightarrow> pos < pos'"
proof (induction s pos decoded rule: string_loop.induct)
  case (1 s pos decoded)
  show ?case
  proof (cases "get_at s pos = Some CHR 0x22")
    case True
    with 1(2) show ?thesis by (simp add: string_loop.simps [of s pos decoded])
  next
    case False
    with 1(2) obtain bs q where q: "string_char s pos = Ok (bs, q)"
        "string_loop s q (decoded @ bs) = Ok (text, pos')"
      by (auto simp: string_loop.simps [of s pos decoded] split: result.splits if_splits)
    have "q < pos'" by (rule 1(1) [OF False q(1) refl q(2)])
    with string_char_advances [OF q(1)] show ?thesis by simp
  qed
qed

lemma parse_string_advances: "parse_string s pos = Ok (text, pos') \<Longrightarrow> pos < pos'"
  by (auto simp: parse_string_def dest: string_loop_advances)

lemma skip_ws_ge: "pos \<le> skip_ws s pos"
proof (induction s pos rule: skip_ws.induct)
  case (1 s pos)
  then show ?case
    by (subst skip_ws.simps) (auto split: option.splits simp: Suc_le_eq dest: Suc_leD)
qed

lemma skip_number_ge: "pos \<le> skip_number s pos"
proof (induction s pos rule: skip_number.induct)
  case (1 s pos)
  then show ?case
    by (subst skip_number.simps) (auto split: option.splits dest: Suc_leD)
qed

lemma skip_number_gt: "pos < length s \<Longrightarrow> is_number_char (s ! pos) \<Longrightarrow> pos < skip_number s pos"
  using skip_number_ge [of "Suc pos" s] by (subst skip_number.simps) (simp add: get_at_def)

lemma parse_number_advances:
  "parse_number s pos = Ok (n, pos') \<Longrightarrow> pos < length s \<Longrightarrow> is_number_char (s ! pos) \<Longrightarrow> pos < pos'"
  using skip_number_gt [of pos s]
  by (cases "str_slice s pos (skip_number s pos)"; cases "json_number_parse (slice s pos (skip_number s pos))")
     (auto simp: parse_number_def Let_def parse_fail_def str_slice_def split: if_splits)

lemma parse_literal_advances: "parse_literal s pos c = Ok (n, pos') \<Longrightarrow> pos < pos'"
  by (auto simp: parse_literal_def Let_def parse_fail_def split: if_splits)

lemma parser_accept_same:
  "parser_accept p node start = Ok p' \<Longrightarrow>
     ps_source p' = ps_source p \<and> ps_at p' = ps_at p \<and> ps_limits p' = ps_limits p"
  by (auto simp: parser_accept_def Let_def split: list.splits frame.splits option.splits if_splits)

lemma parse_value_advances:
  assumes "parse_value p = Ok p'"
  shows "ps_source p' = ps_source p \<and> ps_limits p' = ps_limits p
    \<and> ps_at p < length (ps_source p) \<and> ps_at p < ps_at p'"
proof -
  let ?s = "ps_source p" and ?i = "ps_at p"
  obtain c where c: "?i < length ?s" "?s ! ?i = c" "get_at ?s ?i = Some c"
    using assms by (cases "get_at ?s ?i") (auto simp: parse_value_def Let_def parse_fail_def)
  have num: "is_number_char c" if "c = CHR ''-'' \<or> is_ascii_digit c"
    using that by (auto simp: is_number_char_def)
  show ?thesis
    using assms c num parse_number_advances [of ?s ?i]
    by (auto simp: parse_value_def Let_def parse_open_def parse_fail_def
        dest!: parser_accept_same dest: parse_string_advances parse_literal_advances
        split: if_splits)
qed

lemma parser_close_advances:
  "parser_close p = Ok p' \<Longrightarrow> ps_source p' = ps_source p \<and> ps_limits p' = ps_limits p \<and> ps_at p' = ps_at p + 1"
  by (auto simp: parser_close_def dest!: parser_accept_same split: list.splits frame.splits)

lemma parse_member_key_advances:
  "parse_member_key p start members position fs = Ok p' \<Longrightarrow>
     ps_source p' = ps_source p \<and> ps_limits p' = ps_limits p
     \<and> ps_at p < length (ps_source p) \<and> ps_at p < ps_at p'"
  by (auto simp: parse_member_key_def Let_def parse_fail_def split: if_splits
      dest!: parse_string_advances)
     (metis less_Suc_eq_le less_le_trans less_imp_le_nat skip_ws_ge)

lemma continue_or_fail_Continue [simp]: "continue_or_fail r = Continue p \<longleftrightarrow> r = Ok p"
  by (cases r) auto

lemma continue_or_fail_Return: "continue_or_fail r = Return q \<Longrightarrow> \<exists>e. q = Err e"
  by (cases r) auto

lemma parse_step_advances:
  assumes "parse_step p = Continue p'"
  shows "ps_source p' = ps_source p \<and> ps_limits p' = ps_limits p \<and> remaining p' < remaining p"
proof -
  let ?q = "p\<lparr>ps_at := skip_ws (ps_source p) (ps_at p)\<rparr>"
  have ge: "ps_at p \<le> ps_at ?q" using skip_ws_ge by simp
  have "ps_source p' = ps_source ?q \<and> ps_limits p' = ps_limits ?q
      \<and> ps_at ?q < length (ps_source ?q) \<and> ps_at ?q < ps_at p'"
    using assms unfolding parse_step_def Let_def
    by (auto split: list.splits frame.splits option.splits if_splits
        dest!: parse_value_advances parser_close_advances parse_member_key_advances)
  with ge show ?thesis by (auto simp: remaining_def)
qed

function parse_loop :: "parser \<Rightarrow> (document, decode_fault) result" where
  "parse_loop p = (case parse_step p of Continue p' \<Rightarrow> parse_loop p' | Return r \<Rightarrow> r)"
  by pat_completeness auto
termination
  by (relation "measure remaining") (use parse_step_advances in auto)

declare parse_loop.simps [simp del]

definition document_decode :: "string \<Rightarrow> limits \<Rightarrow> (document, decode_fault) result" where
  "document_decode bytes lims =
     (if length bytes > lim_bytes lims then Err (Refused (ResourceLimit JsonBytes (lim_bytes lims)))
      else if \<not> utf8_valid bytes then Err (Refused (InvalidUtf8 (utf8_valid_up_to bytes)))
      else parse_loop \<lparr>ps_source = bytes, ps_at = 0, ps_entries = [], ps_frames = [], ps_root = None,
             ps_limits = lims\<rparr>)"

section \<open>No panic, and the shape of the arena\<close>

abbreviation no_panic :: "decode_fault \<Rightarrow> bool" where
  "no_panic e \<equiv> e \<noteq> Panic"

lemma ensures_parse_fail [simp]: "ensures no_panic P (parse_fail pos e)"
  by (simp add: parse_fail_def)

text \<open>The rest of the source from an offset is well-formed: the offset is a character boundary.\<close>

definition suffix_ok :: "string \<Rightarrow> nat \<Rightarrow> bool" where
  "suffix_ok s i \<longleftrightarrow> i \<le> length s \<and> utf8_valid (drop i s)"

lemma suffix_ok_boundary: "suffix_ok s i \<Longrightarrow> is_char_boundary s i"
  by (simp add: suffix_ok_def char_boundary_suffix)

lemma suffix_ok_Suc: "suffix_ok s i \<Longrightarrow> i < length s \<Longrightarrow> byte (s ! i) < 128 \<Longrightarrow> suffix_ok s (Suc i)"
  using utf8_valid_ascii_Cons [of "s ! i" "drop (Suc i) s"]
  by (simp add: suffix_ok_def Cons_nth_drop_Suc)

lemma suffix_ok_get_at:
  "suffix_ok s i \<Longrightarrow> get_at s i = Some c \<Longrightarrow> byte c < 128 \<Longrightarrow> suffix_ok s (Suc i)"
  by (auto intro: suffix_ok_Suc)

lemma suffix_ok_scalar:
  assumes "suffix_ok s i" "i < length s"
  shows "\<exists>k. utf8_head (drop i s) = Some k \<and> suffix_ok s (i + k)"
proof -
  obtain k where k: "utf8_head (drop i s) = Some k" "utf8_valid (drop k (drop i s))"
    using utf8_valid_head [of "drop i s"] assms by (auto simp: suffix_ok_def)
  with utf8_head_bounds [OF k(1)] assms(2) show ?thesis
    by (auto simp: suffix_ok_def add.commute)
qed

lemma is_ws_ascii: "is_ws c \<Longrightarrow> byte c < 128"
  by (auto simp: is_ws_def byte_def)

lemma is_number_char_ascii: "is_number_char c \<Longrightarrow> byte c < 128"
  by (auto simp: is_number_char_def is_ascii_digit_def byte_def)

lemma suffix_ok_skip_ws: "suffix_ok s pos \<Longrightarrow> suffix_ok s (skip_ws s pos)"
proof (induction s pos rule: skip_ws.induct)
  case (1 s pos)
  then show ?case
    by (subst skip_ws.simps) (auto split: option.splits simp: suffix_ok_Suc is_ws_ascii)
qed

lemma suffix_ok_skip_number: "suffix_ok s pos \<Longrightarrow> suffix_ok s (skip_number s pos)"
proof (induction s pos rule: skip_number.induct)
  case (1 s pos)
  then show ?case
    by (subst skip_number.simps) (auto split: option.splits simp: suffix_ok_Suc is_number_char_ascii)
qed

lemma hex_digit_Some: "hex_digit c = Some d \<Longrightarrow> byte c < 128 \<and> d < 16"
  by (auto simp: hex_digit_def Let_def split: if_splits)

lemma hex_unit_loop_safe:
  "suffix_ok s pos \<Longrightarrow> ensures no_panic (\<lambda>(w, pos'). suffix_ok s pos' \<and> w < (v + 1) * 16 ^ n) (hex_unit_loop n s pos v)"
proof (induction n arbitrary: pos v)
  case 0
  then show ?case by simp
next
  case (Suc n)
  show ?case
  proof (cases "get_at s pos")
    case (Some c)
    then show ?thesis
    proof (cases "hex_digit c")
      case (Some d)
      have "suffix_ok s (Suc pos)"
        using Suc.prems \<open>get_at s pos = Some c\<close> hex_digit_Some [OF Some] by (auto intro: suffix_ok_Suc)
      then have IH: "ensures no_panic (\<lambda>(w, pos'). suffix_ok s pos' \<and> w < (v * 16 + d + 1) * 16 ^ n)
          (hex_unit_loop n s (pos + 1) (v * 16 + d))"
        using Suc.IH by simp
      have "v * 16 + d + 1 \<le> (v + 1) * 16" using hex_digit_Some [OF Some] by simp
      then have le: "(v * 16 + d + 1) * 16 ^ n \<le> (v + 1) * 16 ^ Suc n"
        by (metis mult.assoc mult_le_mono1 power_Suc)
      have "ensures no_panic (\<lambda>(w, pos'). suffix_ok s pos' \<and> w < (v + 1) * 16 ^ Suc n)
          (hex_unit_loop n s (pos + 1) (v * 16 + d))"
        by (rule ensures_weaken [OF IH]) (use less_le_trans [OF _ le] in blast)
      then show ?thesis using \<open>get_at s pos = Some c\<close> Some by auto
    qed simp
  qed simp
qed

lemma hex_unit_safe:
  "suffix_ok s pos \<Longrightarrow> ensures no_panic (\<lambda>(w, pos'). suffix_ok s pos' \<and> w < 65536) (hex_unit s pos)"
  using hex_unit_loop_safe [of s pos 0 4] by (simp add: hex_unit_def)

lemma starts_with_nth:
  assumes "starts_with (drop i s) p" "k < length p"
  shows "i + k < length s \<and> s ! (i + k) = p ! k"
proof -
  have len: "length p \<le> length (drop i s)" using assms(1) by (metis starts_with_def length_take min.absorb_iff2 min.commute)
  have "drop i s ! k = p ! k" using assms by (metis starts_with_def nth_take)
  with len assms(2) show ?thesis by auto
qed

lemma suffix_ok_ascii_run:
  assumes "suffix_ok s i" "\<And>k. k < n \<Longrightarrow> i + k < length s \<and> byte (s ! (i + k)) < 128"
  shows "suffix_ok s (i + n)"
  using assms(2)
proof (induction n)
  case (Suc n)
  then have "suffix_ok s (i + n)" by simp
  with Suc.prems [of n] show ?case by (simp add: suffix_ok_Suc)
qed (use assms(1) in simp)

lemma suffix_ok_starts_with:
  assumes "suffix_ok s i" "starts_with (drop i s) p" "\<forall>c \<in> set p. byte c < 128"
  shows "suffix_ok s (i + length p)"
  using assms(1)
proof (rule suffix_ok_ascii_run)
  fix k assume "k < length p"
  with assms(2,3) show "i + k < length s \<and> byte (s ! (i + k)) < 128"
    using starts_with_nth [of i s p k] by simp
qed

lemma str_from_ok: "suffix_ok s i \<Longrightarrow> str_from s i = Ok (drop i s)"
  by (simp add: str_from_def suffix_ok_boundary)

lemma unicode_scalar_safe:
  assumes "suffix_ok s pos" "first < 65536"
  shows "ensures no_panic (\<lambda>(w, pos'). suffix_ok s pos' \<and> is_scalar w) (unicode_scalar s first pos)"
proof (cases "55296 \<le> first \<and> first \<le> 56319 \<and> starts_with (drop pos s) [CHR 0x5C, CHR ''u'']")
  case True
  have "suffix_ok s (pos + length [CHR 0x5C, CHR ''u''])"
    using assms(1) True by (intro suffix_ok_starts_with) (simp_all add: byte_def)
  then have "ensures no_panic (\<lambda>(w, pos'). suffix_ok s pos' \<and> w < 65536) (hex_unit s (pos + 2))"
    by (intro hex_unit_safe) simp
  then show ?thesis using True assms(1)
    by (auto simp: unicode_scalar_def str_from_ok is_scalar_def elim!: ensures_bind)
next
  case False
  then show ?thesis using assms by (auto simp: unicode_scalar_def str_from_ok is_scalar_def)
qed

lemma unicode_escape_safe:
  "suffix_ok s pos \<Longrightarrow>
     ensures no_panic (\<lambda>(w, pos'). suffix_ok s pos' \<and> is_scalar w) (unicode_escape s pos)"
  unfolding unicode_escape_def
  by (erule ensures_bind [OF hex_unit_safe]) (auto intro: unicode_scalar_safe)

lemma simple_escape_scalar: "simple_escape c = Some n \<Longrightarrow> is_scalar n \<and> byte c < 128"
  by (auto simp: simple_escape_def is_scalar_def byte_def split: if_splits)

lemma string_char_safe:
  assumes "suffix_ok s pos"
  shows "ensures no_panic (\<lambda>(bs, pos'). suffix_ok s pos' \<and> utf8_valid bs) (string_char s pos)"
proof (cases "get_at s pos")
  case None
  then show ?thesis by (simp add: string_char_def)
next
  case (Some c)
  show ?thesis
  proof (cases "c = CHR 0x5C")
    case True
    then have ok1: "suffix_ok s (Suc pos)"
      using assms Some by (auto intro: suffix_ok_Suc simp: byte_def)
    show ?thesis
    proof (cases "get_at s (Suc pos)")
      case None
      then show ?thesis using Some True by (simp add: string_char_def)
    next
      case d: (Some d)
      show ?thesis
      proof (cases "d = CHR ''u''")
        case u: True
        have "suffix_ok s (pos + 2)"
          using ok1 d u suffix_ok_get_at [of s "Suc pos" d] by (simp add: byte_def)
        then have "ensures no_panic (\<lambda>(w, pos'). suffix_ok s pos' \<and> is_scalar w) (unicode_escape s (pos + 2))"
          by (rule unicode_escape_safe)
        then show ?thesis using Some True d u
          by (auto simp: string_char_def utf8_encode_valid elim!: ensures_bind)
      next
        case False
        have "suffix_ok s (Suc (Suc pos))" if "simple_escape d = Some n" for n
          using ok1 d suffix_ok_get_at [of s "Suc pos" d] simple_escape_scalar [OF that] by simp
        with Some True d False show ?thesis
          by (auto simp: string_char_def utf8_encode_valid simple_escape_scalar split: option.split)
      qed
    qed
  next
    case False
    obtain k where k: "utf8_head (drop pos s) = Some k" "suffix_ok s (pos + k)"
      using suffix_ok_scalar [OF assms] Some by auto
    with Some False assms show ?thesis
      by (simp add: string_char_def str_from_ok utf8_valid_scalar_head)
  qed
qed

lemma string_loop_safe:
  "suffix_ok s pos \<Longrightarrow> utf8_valid decoded \<Longrightarrow>
     ensures no_panic (\<lambda>(text, pos'). suffix_ok s pos' \<and> utf8_valid text) (string_loop s pos decoded)"
proof (induction s pos decoded rule: string_loop.induct)
  case (1 s pos decoded)
  show ?case
  proof (cases "get_at s pos = Some CHR 0x22")
    case True
    then have "suffix_ok s (Suc pos)" using 1(2) by (auto intro: suffix_ok_Suc simp: byte_def)
    with True 1(3) show ?thesis by (subst string_loop.simps) simp
  next
    case False
    have safe: "ensures no_panic (\<lambda>(bs, pos'). suffix_ok s pos' \<and> utf8_valid bs) (string_char s pos)"
      by (rule string_char_safe [OF 1(2)])
    show ?thesis
    proof (cases "string_char s pos")
      case (Ok r)
      then obtain bs q where q: "string_char s pos = Ok (bs, q)" by (cases r) auto
      with safe have "suffix_ok s q" "utf8_valid (decoded @ bs)"
        using 1(3) by (auto intro: utf8_valid_append)
      from 1(1) [OF False q refl this] False q show ?thesis by (subst string_loop.simps) auto
    next
      case (Err e)
      with safe False show ?thesis by (subst string_loop.simps) auto
    qed
  qed
qed

lemma parse_string_safe:
  assumes "suffix_ok s pos" "get_at s pos = Some CHR 0x22"
  shows "ensures no_panic (\<lambda>(text, pos'). suffix_ok s pos' \<and> utf8_valid text) (parse_string s pos)"
  using assms suffix_ok_get_at [of s pos "CHR 0x22"]
  by (auto simp: parse_string_def byte_def intro!: string_loop_safe)

end
