(* ===== verification/Json_Arena.thy ===== *)
theory Json_Arena
  imports Json "HOL-Library.Multiset"
begin

text \<open>
  The parser's invariant and its consequences: decoding never panics, and the arena of a decoded
  document is a tree (every entry but the root is referenced exactly once, by an entry behind it),
  within the node limit, with sorted duplicate-free members and spans inside the source.
\<close>

section \<open>The invariant\<close>

fun node_refs :: "node \<Rightarrow> nat list" where
  "node_refs (NArray ids) = ids"
| "node_refs (NObject members) = map snd members"
| "node_refs _ = []"

fun frame_refs :: "frame \<Rightarrow> nat list" where
  "frame_refs (ArrayFrame _ ids _) = ids"
| "frame_refs (ObjectFrame _ members _ _) = map snd members"

fun node_data_ok :: "string \<Rightarrow> nat \<Rightarrow> nat \<Rightarrow> node \<Rightarrow> bool" where
  "node_data_ok src a b (NNumber n) = (json_number_parse (slice src a b) = Ok n)"
| "node_data_ok src a b (NString text) = (utf8_valid text \<and> suffix_ok src a \<and> get_at src a = Some CHR 0x22 \<and> parse_string src a = Ok (text, b))"
| "node_data_ok src a b (NObject members) = btree_ok members"
| "node_data_ok src a b _ = True"

definition entry_ok :: "string \<Rightarrow> nat \<Rightarrow> entry \<Rightarrow> bool" where
  "entry_ok src i en \<longleftrightarrow>
     (\<forall>j \<in> set (node_refs (en_node en)). j < i)
     \<and> node_data_ok src (fst (en_span en)) (snd (en_span en)) (en_node en)
     \<and> fst (en_span en) < snd (en_span en) \<and> snd (en_span en) \<le> length src"

definition entries_ok :: "string \<Rightarrow> entry list \<Rightarrow> bool" where
  "entries_ok src es \<longleftrightarrow> (\<forall>i < length es. entry_ok src i (es ! i))"

definition entries_refs :: "entry list \<Rightarrow> nat multiset" where
  "entries_refs es = mset (concat (map (\<lambda>en. node_refs (en_node en)) es))"

definition frames_refs :: "frame list \<Rightarrow> nat multiset" where
  "frames_refs fs = mset (concat (map frame_refs fs))"

definition root_refs :: "nat option \<Rightarrow> nat multiset" where
  "root_refs r = (case r of None \<Rightarrow> {#} | Some i \<Rightarrow> {#i#})"

fun frame_waiting :: "frame \<Rightarrow> bool" where
  "frame_waiting (ArrayFrame _ _ position) = (position \<noteq> After)"
| "frame_waiting (ObjectFrame _ members position key) =
     (position \<noteq> After \<and> (\<exists>k. key = Some k \<and> btree_get members k = None))"

fun frame_ok :: "nat \<Rightarrow> frame \<Rightarrow> bool" where
  "frame_ok pos (ArrayFrame start _ _) = (start < pos)"
| "frame_ok pos (ObjectFrame start members position key) =
     (start < pos \<and> btree_ok members)"

fun frame_top_ok :: "frame \<Rightarrow> bool" where
  "frame_top_ok (ArrayFrame _ _ _) = True"
| "frame_top_ok (ObjectFrame s members position key) =
     (key \<noteq> None \<longrightarrow> frame_waiting (ObjectFrame s members position key))"

definition parser_base :: "nat list \<Rightarrow> parser \<Rightarrow> bool" where
  "parser_base pending p \<longleftrightarrow>
     suffix_ok (ps_source p) (ps_at p)
     \<and> entries_ok (ps_source p) (ps_entries p)
     \<and> entries_refs (ps_entries p) + frames_refs (ps_frames p) + root_refs (ps_root p) + mset pending
         = mset [0..<length (ps_entries p)]
     \<and> length (ps_entries p) \<le> lim_nodes (ps_limits p)
     \<and> length (ps_frames p) \<le> lim_depth (ps_limits p)
     \<and> list_all (frame_ok (ps_at p)) (ps_frames p)"

definition parser_ok :: "parser \<Rightarrow> bool" where
  "parser_ok p \<longleftrightarrow> parser_base [] p
     \<and> (case ps_frames p of [] \<Rightarrow> True
        | f # fs \<Rightarrow> frame_top_ok f \<and> list_all frame_waiting fs \<and> ps_root p = None)"

definition document_ok :: "limits \<Rightarrow> document \<Rightarrow> bool" where
  "document_ok lims d \<longleftrightarrow>
     entries_ok (doc_source d) (doc_entries d)
     \<and> add_mset (doc_root d) (entries_refs (doc_entries d)) = mset [0..<length (doc_entries d)]
     \<and> length (doc_entries d) \<le> lim_nodes lims"

section \<open>Preservation\<close>

lemma mset_snd_btree_insert:
  "btree_get m k = None \<Longrightarrow> mset (map snd (btree_insert k v m)) = add_mset v (mset (map snd m))"
  by (induction m) (auto split: if_splits)

lemma frame_ok_mono: "list_all (frame_ok i) fs \<Longrightarrow> i \<le> j \<Longrightarrow> list_all (frame_ok j) fs"
proof -
  have "frame_ok i f \<Longrightarrow> i \<le> j \<Longrightarrow> frame_ok j f" for f by (cases f) auto
  then show "list_all (frame_ok i) fs \<Longrightarrow> i \<le> j \<Longrightarrow> list_all (frame_ok j) fs"
    by (auto simp: list_all_iff)
qed

lemma entries_ok_snoc:
  "entries_ok src es \<Longrightarrow> entry_ok src (length es) en \<Longrightarrow> entries_ok src (es @ [en])"
  by (auto simp: entries_ok_def nth_append less_Suc_eq)

lemma entries_refs_snoc [simp]: "entries_refs (es @ [en]) = entries_refs es + mset (node_refs (en_node en))"
  by (simp add: entries_refs_def)

lemma frames_refs_simps [simp]:
  "frames_refs [] = {#}" "frames_refs (f # fs) = mset (frame_refs f) + frames_refs fs"
  by (simp_all add: frames_refs_def)

lemma root_refs_simps [simp]: "root_refs None = {#}" "root_refs (Some i) = {#i#}"
  by (simp_all add: root_refs_def)

lemma parser_base_pending_less: "parser_base pending p \<Longrightarrow> j \<in> set pending \<Longrightarrow> j < length (ps_entries p)"
proof -
  assume "parser_base pending p" and j: "j \<in> set pending"
  then have "entries_refs (ps_entries p) + frames_refs (ps_frames p) + root_refs (ps_root p) + mset pending
      = mset [0..<length (ps_entries p)]" by (simp add: parser_base_def)
  moreover have "j \<in># mset pending" using j by simp
  ultimately have "j \<in># mset [0..<length (ps_entries p)]" by (metis union_iff)
  then show ?thesis by simp
qed

lemma parser_accept_safe:
  assumes base: "parser_base (node_refs node) p" and root: "ps_root p = None"
    and waiting: "list_all frame_waiting (ps_frames p)" and start: "start < ps_at p"
    and data: "node_data_ok (ps_source p) start (ps_at p) node"
  shows "ensures no_panic parser_ok (parser_accept p node start)"
proof (cases "length (ps_entries p) = lim_nodes (ps_limits p)")
  case True
  then show ?thesis by (simp add: parser_accept_def)
next
  case False
  let ?n = "length (ps_entries p)" and ?en = "\<lparr>en_node = node, en_span = (start, ps_at p)\<rparr>"
  have at_le: "ps_at p \<le> length (ps_source p)" using base by (simp add: parser_base_def suffix_ok_def)
  have en: "entry_ok (ps_source p) ?n ?en"
    using parser_base_pending_less [OF base] start at_le data by (auto simp: entry_ok_def)
  have entries: "entries_ok (ps_source p) (ps_entries p @ [?en])"
    using base en by (intro entries_ok_snoc) (simp_all add: parser_base_def)
  have refs: "entries_refs (ps_entries p) + frames_refs (ps_frames p) + mset (node_refs node) = mset [0..<?n]"
    using base root by (simp add: parser_base_def)
  have count: "Suc ?n \<le> lim_nodes (ps_limits p)" using base False by (simp add: parser_base_def)
  show ?thesis
  proof (cases "ps_frames p")
    case Nil
    then show ?thesis using False root base entries refs count
      by (simp add: parser_accept_def Let_def parser_ok_def parser_base_def ac_simps)
  next
    case (Cons f fs)
    show ?thesis
    proof (cases f)
      case (ArrayFrame st ids position)
      then show ?thesis using False root base entries refs count waiting Cons
        by (simp add: parser_accept_def Let_def parser_ok_def parser_base_def ac_simps)
    next
      case (ObjectFrame st members position key)
      then obtain k where k: "key = Some k" "btree_get members k = None"
        using waiting Cons by auto
      have "btree_ok members" using base Cons ObjectFrame by (simp add: parser_base_def)
      then show ?thesis
        using False root base entries refs count waiting Cons ObjectFrame k
          mset_snd_btree_insert [OF k(2), of ?n]
        by (simp add: parser_accept_def Let_def parser_ok_def parser_base_def btree_ok_insert ac_simps)
    qed
  qed
qed

lemma parser_base_at:
  "parser_base pending p \<Longrightarrow> suffix_ok (ps_source p) pos \<Longrightarrow> ps_at p \<le> pos \<Longrightarrow>
     parser_base pending (p\<lparr>ps_at := pos\<rparr>)"
  by (auto simp: parser_base_def elim: frame_ok_mono)

lemma parser_close_safe:
  assumes "parser_ok p" "get_at (ps_source p) (ps_at p) = Some c" "byte c < 128" "ps_frames p \<noteq> []"
  shows "ensures no_panic parser_ok (parser_close p)"
proof -
  obtain f fs where fs: "ps_frames p = f # fs" using assms(4) by (cases "ps_frames p") auto
  let ?q = "p\<lparr>ps_at := ps_at p + 1, ps_frames := fs\<rparr>"
  have next_ok: "suffix_ok (ps_source p) (Suc (ps_at p))"
    using assms(1-3) by (auto simp: parser_ok_def parser_base_def intro: suffix_ok_Suc)
  have base: "parser_base (frame_refs f) ?q"
    using assms(1) fs next_ok
    by (auto simp: parser_ok_def parser_base_def ac_simps elim: frame_ok_mono)
  have rest: "ps_root ?q = None" "list_all frame_waiting (ps_frames ?q)"
    using assms(1) fs by (auto simp: parser_ok_def)
  show ?thesis
  proof (cases f)
    case (ArrayFrame start ids position)
    then have "start < ps_at ?q" using assms(1) fs by (simp add: parser_ok_def parser_base_def)
    then have "ensures no_panic parser_ok (parser_accept ?q (NArray ids) start)"
      using base rest ArrayFrame by (intro parser_accept_safe) simp_all
    then show ?thesis by (simp add: parser_close_def fs ArrayFrame)
  next
    case (ObjectFrame start members position key)
    then have "start < ps_at ?q" "btree_ok members"
      using assms(1) fs by (simp_all add: parser_ok_def parser_base_def)
    then have "ensures no_panic parser_ok (parser_accept ?q (NObject members) start)"
      using base rest ObjectFrame by (intro parser_accept_safe) simp_all
    then show ?thesis by (simp add: parser_close_def fs ObjectFrame)
  qed
qed

lemma parse_number_safe:
  assumes "suffix_ok s start" "start < length s" "is_number_char (s ! start)"
  shows "ensures no_panic (\<lambda>(node, pos). suffix_ok s pos \<and> start < pos \<and> node_refs node = []
           \<and> node_data_ok s start pos node) (parse_number s start)"
proof -
  let ?pos = "skip_number s start"
  have ok: "suffix_ok s ?pos" by (rule suffix_ok_skip_number [OF assms(1)])
  have gt: "start < ?pos" by (rule skip_number_gt [OF assms(2,3)])
  have "str_slice s start ?pos = Ok (slice s start ?pos)"
    using ok gt assms(1) by (simp add: str_slice_def suffix_ok_boundary)
  then show ?thesis using ok gt
    by (cases "json_number_parse (slice s start ?pos)") (simp_all add: parse_number_def Let_def)
qed

lemma parse_literal_safe:
  assumes "suffix_ok s pos"
  shows "ensures no_panic (\<lambda>(node, pos'). suffix_ok s pos' \<and> pos < pos' \<and> node_refs node = []
           \<and> node_data_ok s pos pos' node) (parse_literal s pos c)"
proof -
  have "suffix_ok s (pos + length lit)" if "starts_with (drop pos s) lit" "\<forall>c \<in> set lit. byte c < 128" for lit
    using suffix_ok_starts_with [OF assms that] .
  from this [of "''null''"] this [of "''true''"] this [of "''false''"] show ?thesis
    using assms by (auto simp: parse_literal_def Let_def str_from_ok byte_def)
qed

lemma parse_open_safe:
  assumes base: "parser_base [] p" and root: "ps_root p = None"
    and waiting: "list_all frame_waiting (ps_frames p)"
    and c: "get_at (ps_source p) (ps_at p) = Some c" "byte c < 128"
  shows "ensures no_panic parser_ok (parse_open p c)"
proof (cases "length (ps_frames p) = lim_depth (ps_limits p)")
  case True
  then show ?thesis by (simp add: parse_open_def)
next
  case False
  have "suffix_ok (ps_source p) (Suc (ps_at p))"
    using base c by (auto simp: parser_base_def intro: suffix_ok_Suc)
  with False base root waiting show ?thesis
    by (auto simp: parse_open_def parser_ok_def parser_base_def btree.ok_empty elim: frame_ok_mono)
qed

lemma parse_value_safe:
  assumes base: "parser_base [] p" and root: "ps_root p = None"
    and waiting: "list_all frame_waiting (ps_frames p)"
  shows "ensures no_panic parser_ok (parse_value p)"
proof (cases "get_at (ps_source p) (ps_at p)")
  case None
  then show ?thesis by (simp add: parse_value_def)
next
  case (Some c)
  let ?s = "ps_source p" and ?i = "ps_at p"
  have i: "suffix_ok ?s ?i" "?i < length ?s" "?s ! ?i = c" using base Some by (auto simp: parser_base_def)
  have accept: "ensures no_panic parser_ok (parser_accept (p\<lparr>ps_at := pos\<rparr>) node ?i)"
    if "suffix_ok ?s pos" "?i < pos" "node_refs node = []" "node_data_ok ?s ?i pos node" for node pos
    using parser_base_at [OF base that(1)] that root waiting by (intro parser_accept_safe) auto
  have opens: "ensures no_panic parser_ok (parse_open p c)" if "c = CHR ''['' \<or> c = CHR ''{''"
    using that Some by (intro parse_open_safe [OF base root waiting]) (auto simp: byte_def)
  have string: "ensures no_panic parser_ok
      (bindR (parse_string ?s ?i) (\<lambda>(text, pos). parser_accept (p\<lparr>ps_at := pos\<rparr>) (NString text) ?i))"
    if "c = CHR 0x22"
    using parse_string_safe [OF i(1)] that Some
    by (intro ensures_bind [of _ "\<lambda>(text, pos). suffix_ok ?s pos \<and> utf8_valid text"])
       (auto simp: i(1) intro!: accept dest: parse_string_advances)
  have literal: "ensures no_panic parser_ok
      (bindR (parse_literal ?s ?i c) (\<lambda>(node, pos). parser_accept (p\<lparr>ps_at := pos\<rparr>) node ?i))"
    by (rule ensures_bind [OF parse_literal_safe [OF i(1)]]) (auto intro!: accept)
  have number: "ensures no_panic parser_ok
      (bindR (parse_number ?s ?i) (\<lambda>(node, pos). parser_accept (p\<lparr>ps_at := pos\<rparr>) node ?i))"
    if "c = CHR ''-'' \<or> is_ascii_digit c"
    by (rule ensures_bind [OF parse_number_safe [OF i(1,2)]])
       (use that i(3) in \<open>auto simp: is_number_char_def intro!: accept\<close>)
  show ?thesis
    using Some opens string literal number unfolding parse_value_def Let_def
    by (simp del: get_at_Some_iff)
qed

lemma parse_member_key_safe:
  assumes ok: "parser_ok p" and frames: "ps_frames p = ObjectFrame start members position None # fs"
    and position: "position \<noteq> After"
  shows "ensures no_panic parser_ok (parse_member_key p start members position fs)"
proof (cases "get_at (ps_source p) (ps_at p) = Some CHR 0x22")
  case False
  then show ?thesis unfolding parse_member_key_def Let_def by (subst if_P) simp_all
next
  case True
  let ?s = "ps_source p" and ?i = "ps_at p"
  have i: "suffix_ok ?s ?i" using ok by (simp add: parser_ok_def parser_base_def)
  have final: "parser_ok (p\<lparr>ps_at := pos' + 1, ps_frames := ObjectFrame start members position (Some key) # fs\<rparr>)"
    if "btree_get members key = None" "suffix_ok ?s (pos' + 1)" "?i < pos' + 1" for key pos'
    using ok frames position that
    by (auto simp: parser_ok_def parser_base_def elim: frame_ok_mono)
  have behind: "ensures no_panic parser_ok
      (if btree_get members key \<noteq> None then Err (Refused (DuplicateKey ?i key))
       else if get_at ?s (skip_ws ?s pos) \<noteq> Some CHR '':'' then parse_fail (skip_ws ?s pos) ColonAfterMember
       else Ok (p\<lparr>ps_at := skip_ws ?s pos + 1,
                  ps_frames := ObjectFrame start members position (Some key) # fs\<rparr>))"
    if pos: "suffix_ok ?s pos" "?i < pos" for key pos
  proof (cases "btree_get members key = None \<and> get_at ?s (skip_ws ?s pos) = Some CHR '':''")
    case True
    have "suffix_ok ?s (skip_ws ?s pos)" by (rule suffix_ok_skip_ws [OF pos(1)])
    then have "suffix_ok ?s (skip_ws ?s pos + 1)"
      using True suffix_ok_get_at [of ?s _ "CHR '':''"] by (simp add: byte_def del: get_at_Some_iff)
    moreover have "?i < skip_ws ?s pos + 1" using pos(2) skip_ws_ge [of pos ?s] by simp
    ultimately have "parser_ok (p\<lparr>ps_at := skip_ws ?s pos + 1,
        ps_frames := ObjectFrame start members position (Some key) # fs\<rparr>)"
      using True by (intro final) simp_all
    with True show ?thesis by (simp del: get_at_Some_iff)
  next
    case False
    then show ?thesis by (auto simp del: get_at_Some_iff)
  qed
  have "ensures no_panic parser_ok (bindR (parse_string ?s ?i) (\<lambda>(key, pos).
      if btree_get members key \<noteq> None then Err (Refused (DuplicateKey ?i key))
      else if get_at ?s (skip_ws ?s pos) \<noteq> Some CHR '':'' then parse_fail (skip_ws ?s pos) ColonAfterMember
      else Ok (p\<lparr>ps_at := skip_ws ?s pos + 1,
                 ps_frames := ObjectFrame start members position (Some key) # fs\<rparr>)))"
    using behind parse_string_advances
    by (intro ensures_bind [OF parse_string_safe [OF i True]]) (auto simp del: get_at_Some_iff)
  then show ?thesis
    using True unfolding parse_member_key_def Let_def by (simp del: get_at_Some_iff)
qed

fun control_ok :: "limits \<Rightarrow> parse_control \<Rightarrow> bool" where
  "control_ok lims (Continue p) = parser_ok p"
| "control_ok lims (Return r) = ensures no_panic (document_ok lims) r"

lemma control_ok_continue_or_fail: "ensures no_panic parser_ok r \<Longrightarrow> control_ok lims (continue_or_fail r)"
  by (cases r) auto

lemma parser_ok_skip_ws:
  "parser_ok p \<Longrightarrow> parser_ok (p\<lparr>ps_at := skip_ws (ps_source p) (ps_at p)\<rparr>)"
  by (auto simp: parser_ok_def skip_ws_ge split: list.splits
      intro!: parser_base_at suffix_ok_skip_ws) (simp_all add: parser_base_def)

lemma parser_ok_comma:
  assumes "parser_ok p" "get_at (ps_source p) (ps_at p) = Some CHR '',''"
    and "ps_frames p = f # fs" "frame_refs f' = frame_refs f" "frame_top_ok f'"
    and "frame_ok (ps_at p) f \<Longrightarrow> frame_ok (ps_at p) f'"
  shows "parser_ok (p\<lparr>ps_frames := f' # fs, ps_at := ps_at p + 1\<rparr>)"
proof -
  have "suffix_ok (ps_source p) (Suc (ps_at p))"
    using assms(1,2) by (auto simp: parser_ok_def parser_base_def byte_def intro: suffix_ok_Suc)
  moreover have "list_all (frame_ok (ps_at p)) (f # fs)"
    using assms(1,3) by (simp add: parser_ok_def parser_base_def)
  then have "list_all (frame_ok (ps_at p)) (f' # fs)" using assms(6) by simp
  then have "list_all (frame_ok (Suc (ps_at p))) (f' # fs)" by (rule frame_ok_mono) simp
  ultimately show ?thesis
    using assms(1,3-5) by (auto simp: parser_ok_def parser_base_def)
qed

lemma parse_step_safe:
  assumes "parser_ok p0"
  shows "control_ok (ps_limits p0) (parse_step p0)"
proof -
  define p where "p = p0\<lparr>ps_at := skip_ws (ps_source p0) (ps_at p0)\<rparr>"
  have ok: "parser_ok p" using assms by (simp add: p_def parser_ok_skip_ws)
  have base: "parser_base [] p" using ok by (simp add: parser_ok_def)
  have lims: "ps_limits p0 = ps_limits p" by (simp add: p_def)
  have scalar: "control_ok lims (continue_or_fail (parse_value p))"
    if "ps_root p = None" "list_all frame_waiting (ps_frames p)" for lims
    by (rule control_ok_continue_or_fail [OF parse_value_safe [OF base that]])
  have closing: "control_ok lims (continue_or_fail (parser_close p))"
    if "get_at (ps_source p) (ps_at p) = Some c" "byte c < 128" "ps_frames p \<noteq> []" for c lims
    by (rule control_ok_continue_or_fail [OF parser_close_safe [OF ok that]])
  show ?thesis
  proof (cases "ps_frames p")
    case Nil
    have "document_ok (ps_limits p)
        \<lparr>doc_source = ps_source p, doc_entries = ps_entries p, doc_root = r\<rparr>" if "ps_root p = Some r" for r
      using base that Nil by (simp add: document_ok_def parser_base_def ac_simps)
    with Nil scalar show ?thesis
      unfolding parse_step_def Let_def p_def [symmetric] lims by (auto split: option.split)
  next
    case (Cons f fs)
    then have rest: "ps_root p = None" "list_all frame_waiting fs" "frame_top_ok f"
      using ok by (auto simp: parser_ok_def)
    show ?thesis
    proof (cases f)
      case (ArrayFrame start ids position)
      have "parser_ok (p\<lparr>ps_frames := ArrayFrame start ids Next # fs, ps_at := ps_at p + 1\<rparr>)"
        if "get_at (ps_source p) (ps_at p) = Some CHR '',''"
        using Cons ArrayFrame by (intro parser_ok_comma [OF ok that]) auto
      with scalar closing [of "CHR '']''"] rest Cons ArrayFrame show ?thesis
        unfolding parse_step_def Let_def p_def [symmetric] lims
        by (simp add: byte_def del: get_at_Some_iff)
    next
      case (ObjectFrame start members position key)
      have "parser_ok (p\<lparr>ps_frames := ObjectFrame start members Next key # fs, ps_at := ps_at p + 1\<rparr>)"
        if "get_at (ps_source p) (ps_at p) = Some CHR '',''" "position = After"
        using Cons ObjectFrame rest that(2) by (intro parser_ok_comma [OF ok that(1)]) auto
      moreover have "control_ok lims (continue_or_fail (parse_member_key p start members position fs))"
        if "position \<noteq> After" "key = None" for lims
        using Cons ObjectFrame that by (intro control_ok_continue_or_fail parse_member_key_safe [OF ok]) auto
      ultimately show ?thesis
        using scalar closing [of "CHR ''}''"] rest Cons ObjectFrame
        unfolding parse_step_def Let_def p_def [symmetric] lims
        by (auto simp: byte_def simp del: get_at_Some_iff)
    qed
  qed
qed

lemma parse_loop_safe: "parser_ok p \<Longrightarrow> ensures no_panic (document_ok (ps_limits p)) (parse_loop p)"
proof (induction p rule: parse_loop.induct)
  case (1 p)
  have step: "control_ok (ps_limits p) (parse_step p)" by (rule parse_step_safe [OF 1(2)])
  show ?case
  proof (cases "parse_step p")
    case (Continue q)
    with step parse_step_advances [OF Continue] 1(1) [OF Continue] show ?thesis
      by (subst parse_loop.simps) simp
  next
    case (Return r)
    with step show ?thesis by (subst parse_loop.simps) simp
  qed
qed

lemma document_decode_safe: "ensures no_panic (document_ok lims) (document_decode bytes lims)"
proof -
  let ?p = "\<lparr>ps_source = bytes, ps_at = 0, ps_entries = [], ps_frames = [], ps_root = None, ps_limits = lims\<rparr>"
  have "parser_ok ?p" if "utf8_valid bytes"
    using that by (simp add: parser_ok_def parser_base_def suffix_ok_def entries_ok_def entries_refs_def)
  from parse_loop_safe [OF this] show ?thesis by (simp add: document_decode_def)
qed

end
