(* ===== verification/Json_Value.thy ===== *)
theory Json_Value
  imports Json_Arena
begin

text \<open>
  Values of a document: the tree an arena entry stands for, the accessors of \<^verbatim>\<open>json::Value\<close>, and the
  worklist algorithms behind \<^verbatim>\<open>PartialEq\<close> and \<^verbatim>\<open>Hash\<close>. A \<^verbatim>\<open>Value\<close> is a document and an entry; the
  components that read values are modelled over its tree, and the accessors of the arena are shown
  to be those of the tree.
\<close>

section \<open>Trees\<close>

datatype jvalue =
    JNull
  | JBool bool
  | JNumber json_number
  | JString string
  | JArray "jvalue list"
  | JObject "(string \<times> jvalue) list"

text \<open>The tree of an entry. Children stand before their parent, so the guard never fails on a decoded
  document.\<close>

function entry_tree :: "entry list \<Rightarrow> nat \<Rightarrow> jvalue" where
  "entry_tree es i =
     (if i < length es then
        (case en_node (es ! i) of
           NNull \<Rightarrow> JNull
         | NBool b \<Rightarrow> JBool b
         | NNumber n \<Rightarrow> JNumber n
         | NString t \<Rightarrow> JString t
         | NArray ids \<Rightarrow> JArray (map (\<lambda>j. if j < i then entry_tree es j else JNull) ids)
         | NObject members \<Rightarrow>
             JObject (map (\<lambda>(k, j). (k, if j < i then entry_tree es j else JNull)) members))
      else JNull)"
  by pat_completeness auto
termination
  by (relation "measure (\<lambda>(es, i). i)") auto

declare entry_tree.simps [simp del]

definition document_tree :: "document \<Rightarrow> jvalue" where
  "document_tree d = entry_tree (doc_entries d) (doc_root d)"

definition value_node :: "document \<Rightarrow> nat \<Rightarrow> node" where
  "value_node d i = en_node (doc_entries d ! i)"

definition value_elements :: "document \<Rightarrow> nat \<Rightarrow> nat list option" where
  "value_elements d i = (case value_node d i of NArray ids \<Rightarrow> Some ids | _ \<Rightarrow> None)"

definition value_members :: "document \<Rightarrow> nat \<Rightarrow> (string \<times> nat) list option" where
  "value_members d i = (case value_node d i of NObject members \<Rightarrow> Some members | _ \<Rightarrow> None)"

definition value_get :: "document \<Rightarrow> nat \<Rightarrow> string \<Rightarrow> nat option" where
  "value_get d i key = (case value_node d i of NObject members \<Rightarrow> btree_get members key | _ \<Rightarrow> None)"

definition byte_range :: "document \<Rightarrow> nat \<Rightarrow> nat \<times> nat" where
  "byte_range d i = en_span (doc_entries d ! i)"

definition value_raw :: "document \<Rightarrow> nat \<Rightarrow> string" where
  "value_raw d i = slice (doc_source d) (fst (byte_range d i)) (snd (byte_range d i))"

section \<open>Accessors of trees\<close>

datatype kind = KNull | KBoolean | KNumber | KString | KArray | KObject

fun jkind :: "jvalue \<Rightarrow> kind" where
  "jkind JNull = KNull"
| "jkind (JBool _) = KBoolean"
| "jkind (JNumber _) = KNumber"
| "jkind (JString _) = KString"
| "jkind (JArray _) = KArray"
| "jkind (JObject _) = KObject"

definition is_null :: "jvalue \<Rightarrow> bool" where "is_null v = (jkind v = KNull)"

definition is_array :: "jvalue \<Rightarrow> bool" where "is_array v = (jkind v = KArray)"

definition is_string :: "jvalue \<Rightarrow> bool" where "is_string v = (jkind v = KString)"

definition is_boolean :: "jvalue \<Rightarrow> bool" where "is_boolean v = (jkind v = KBoolean)"

definition as_object :: "jvalue \<Rightarrow> jvalue option" where
  "as_object v = (if jkind v = KObject then Some v else None)"

fun as_bool :: "jvalue \<Rightarrow> bool option" where
  "as_bool (JBool b) = Some b"
| "as_bool _ = None"

fun elements :: "jvalue \<Rightarrow> jvalue list option" where
  "elements (JArray vs) = Some vs"
| "elements _ = None"

fun members :: "jvalue \<Rightarrow> (string \<times> jvalue) list option" where
  "members (JObject ms) = Some ms"
| "members _ = None"

fun jget :: "jvalue \<Rightarrow> string \<Rightarrow> jvalue option" where
  "jget (JObject ms) key = btree_get ms key"
| "jget _ key = None"

fun as_str :: "jvalue \<Rightarrow> string option" where
  "as_str (JString t) = Some t"
| "as_str _ = None"

fun as_number :: "jvalue \<Rightarrow> json_number option" where
  "as_number (JNumber n) = Some n"
| "as_number _ = None"

lemma is_null_iff [simp]: "is_null v \<longleftrightarrow> v = JNull"
  by (cases v) (simp_all add: is_null_def)

lemma as_object_Some_iff [simp]: "as_object v = Some w \<longleftrightarrow> w = v \<and> (\<exists>ms. v = JObject ms)"
  by (cases v) (auto simp: as_object_def)

lemma elements_Some_iff [simp]: "elements v = Some vs \<longleftrightarrow> v = JArray vs"
  by (cases v) auto

lemma members_Some_iff [simp]: "members v = Some ms \<longleftrightarrow> v = JObject ms"
  by (cases v) auto

lemma as_str_Some_iff [simp]: "as_str v = Some t \<longleftrightarrow> v = JString t"
  by (cases v) auto

lemma as_number_Some_iff [simp]: "as_number v = Some n \<longleftrightarrow> v = JNumber n"
  by (cases v) auto

lemma as_bool_Some_iff [simp]: "as_bool v = Some b \<longleftrightarrow> v = JBool b"
  by (cases v) auto

section \<open>Equality and hashing by worklists\<close>

fun jsize :: "jvalue \<Rightarrow> nat" where
  "jsize (JArray vs) = Suc (sum_list (map jsize vs))"
| "jsize (JObject ms) = Suc (sum_list (map (\<lambda>(k, v). jsize v) ms))"
| "jsize _ = 1"

lemma jsize_pos [simp]: "0 < jsize v"
  by (cases v) auto

lemma zip_pairs_size:
  "sum_list (map (\<lambda>(a, b). jsize a) (rev (zip xs ys))) \<le> sum_list (map jsize xs)"
proof -
  have "sum_list (map (\<lambda>(a, b). jsize a) (zip xs ys)) \<le> sum_list (map jsize xs)"
    by (induction xs ys rule: list_induct2') auto
  then show ?thesis by (simp add: rev_map [symmetric])
qed

lemma member_sizes: "sum_list (map (\<lambda>(k, v). jsize v) ms) = sum_list (map jsize (map snd ms))"
  by (induction ms) auto

lemma jsize_member: "v \<in> set vs \<Longrightarrow> jsize v < Suc (sum_list (map jsize vs))"
  using member_le_sum_list [of "jsize v" "map jsize vs"] by simp

lemma jsize_object_member:
  "(k, v) \<in> set ms \<Longrightarrow> jsize v < Suc (sum_list (map (\<lambda>(k, v). jsize v) ms))"
  using jsize_member [of v "map snd ms"] by (force simp: member_sizes)

text \<open>The pairs still to compare; the top of the stack is the head of the list.\<close>

function value_eq_loop :: "(jvalue \<times> jvalue) list \<Rightarrow> bool" where
  "value_eq_loop [] = True"
| "value_eq_loop ((left, right) # pending) =
     (case (left, right) of
        (JNull, JNull) \<Rightarrow> value_eq_loop pending
      | (JBool a, JBool b) \<Rightarrow> if a = b then value_eq_loop pending else False
      | (JNumber a, JNumber b) \<Rightarrow> if json_number_eq a b then value_eq_loop pending else False
      | (JString a, JString b) \<Rightarrow> if a = b then value_eq_loop pending else False
      | (JArray a, JArray b) \<Rightarrow>
          if length a = length b then value_eq_loop (rev (zip a b) @ pending) else False
      | (JObject a, JObject b) \<Rightarrow>
          if length a = length b \<and> map fst a = map fst b
          then value_eq_loop (rev (zip (map snd a) (map snd b)) @ pending) else False
      | _ \<Rightarrow> False)"
  by pat_completeness auto
termination
  by (relation "measure (\<lambda>pending. sum_list (map (\<lambda>(a, b). jsize a) pending))")
     (auto simp: less_Suc_eq_le member_sizes zip_pairs_size simp del: map_map)

definition value_eq :: "jvalue \<Rightarrow> jvalue \<Rightarrow> bool" where
  "value_eq a b = value_eq_loop [(a, b)]"

text \<open>What a hasher is fed: \<^verbatim>\<open>u8\<close> tags, booleans, decimal values, strings and lengths.\<close>

datatype hash_part = HTag nat | HBool bool | HDecimal decimal | HString string | HLength nat

datatype part = PValue jvalue | PKey string

fun part_size :: "part \<Rightarrow> nat" where
  "part_size (PValue v) = 2 * jsize v - 1"
| "part_size (PKey _) = 1"

text \<open>The parts of an object in the order they are hashed: each key before its value.\<close>

definition member_parts :: "(string \<times> jvalue) list \<Rightarrow> part list" where
  "member_parts ms = concat (map (\<lambda>(k, v). [PKey k, PValue v]) ms)"

lemma member_parts_size:
  "sum_list (map part_size (member_parts ms)) = 2 * sum_list (map (\<lambda>(k, v). jsize v) ms)"
proof (induction ms)
  case (Cons m ms)
  then show ?case using jsize_pos [of "snd m"] by (cases m) (auto simp: member_parts_def)
qed (simp add: member_parts_def)

lemma element_parts_size:
  "sum_list (map part_size (map PValue vs)) \<le> 2 * sum_list (map jsize vs)"
  by (induction vs) auto

function hash_loop :: "part list \<Rightarrow> hash_part list" where
  "hash_loop [] = []"
| "hash_loop (PKey key # pending) = HString key # hash_loop pending"
| "hash_loop (PValue v # pending) =
     (case v of
        JNull \<Rightarrow> HTag 0 # hash_loop pending
      | JBool b \<Rightarrow> HTag 1 # HBool b # hash_loop pending
      | JNumber n \<Rightarrow> HTag 2 # HDecimal (jn_value n) # hash_loop pending
      | JString t \<Rightarrow> HTag 3 # HString t # hash_loop pending
      | JArray vs \<Rightarrow> HTag 4 # HLength (length vs) # hash_loop (map PValue vs @ pending)
      | JObject ms \<Rightarrow> HTag 5 # HLength (length ms) # hash_loop (member_parts ms @ pending))"
  by pat_completeness auto
termination
  by (relation "measure (\<lambda>pending. sum_list (map part_size pending))")
     (use element_parts_size in \<open>auto simp: member_parts_size less_Suc_eq_le simp del: map_map\<close>)

definition value_hash :: "jvalue \<Rightarrow> hash_part list" where
  "value_hash v = hash_loop [PValue v]"

section \<open>Structural equality\<close>

text \<open>The reference: same shape, same keys, same strings, numbers of equal value.\<close>

function jeq :: "jvalue \<Rightarrow> jvalue \<Rightarrow> bool" where
  "jeq JNull b = (b = JNull)"
| "jeq (JBool a) b = (b = JBool a)"
| "jeq (JNumber a) b = (\<exists>n. b = JNumber n \<and> json_number_eq a n)"
| "jeq (JString a) b = (b = JString a)"
| "jeq (JArray a) b = (\<exists>vs. b = JArray vs \<and> list_all2 jeq a vs)"
| "jeq (JObject a) b = (\<exists>ms. b = JObject ms \<and> list_all2 (\<lambda>(k, v) (k', v'). k = k' \<and> jeq v v') a ms)"
  by pat_completeness auto
termination
  by (relation "measure (\<lambda>(a, b). jsize a)") (auto intro: jsize_member jsize_object_member)

lemma zip_eq_loop_append:
  "value_eq_loop (xs @ ys) = (value_eq_loop xs \<and> value_eq_loop ys)"
proof (induction xs rule: value_eq_loop.induct)
  case (2 left right pending)
  then show ?case by (cases left; cases right) auto
qed simp

lemma value_eq_loop_all: "value_eq_loop ps = (\<forall>(a, b) \<in> set ps. value_eq a b)"
proof (induction ps)
  case (Cons p ps)
  then show ?case using zip_eq_loop_append [of "[p]" ps]
    by (cases p) (simp add: value_eq_def del: value_eq_loop.simps(2))
qed simp

lemma value_eq_JArray: "value_eq (JArray a) (JArray b) = list_all2 value_eq a b"
proof -
  have "value_eq (JArray a) (JArray b) \<longleftrightarrow> length a = length b \<and> value_eq_loop (rev (zip a b))"
    by (simp add: value_eq_def)
  then show ?thesis unfolding value_eq_loop_all list_all2_iff by simp
qed

lemma value_eq_JObject:
  "value_eq (JObject a) (JObject b) = list_all2 (\<lambda>(k, v) (k', v'). k = k' \<and> value_eq v v') a b"
proof -
  have "value_eq (JObject a) (JObject b) \<longleftrightarrow> length a = length b \<and> map fst a = map fst b
      \<and> value_eq_loop (rev (zip (map snd a) (map snd b)))"
    by (auto simp: value_eq_def)
  also have "\<dots> \<longleftrightarrow>
      length a = length b \<and> map fst a = map fst b \<and> (\<forall>(x, y) \<in> set (zip (map snd a) (map snd b)). value_eq x y)"
    unfolding value_eq_loop_all by simp
  also have "\<dots> \<longleftrightarrow> list_all2 (\<lambda>(k, v) (k', v'). k = k' \<and> value_eq v v') a b"
    by (induction a b rule: list_induct2') auto
  finally show ?thesis .
qed

lemmas value_eq_simps = value_eq_JArray value_eq_JObject

lemma list_all2_cong_left:
  "(\<And>x y. x \<in> set xs \<Longrightarrow> P x y = Q x y) \<Longrightarrow> list_all2 P xs ys = list_all2 Q xs ys"
  by (induction xs ys rule: list_induct2') auto

lemma value_eq_jeq: "value_eq a b = jeq a b"
proof (induction "jsize a" arbitrary: a b rule: less_induct)
  case less
  show ?case
  proof (cases a)
    case (JArray vs)
    have "list_all2 value_eq vs ws = list_all2 jeq vs ws" for ws
      by (rule list_all2_cong_left) (use less JArray jsize_member in simp)
    with JArray show ?thesis by (cases b) (auto simp: value_eq_simps, simp_all add: value_eq_def)
  next
    case (JObject ms)
    have "list_all2 (\<lambda>(k, v) (k', v'). k = k' \<and> value_eq v v') ms ws =
        list_all2 (\<lambda>(k, v) (k', v'). k = k' \<and> jeq v v') ms ws" for ws
    proof (rule list_all2_cong_left)
      fix x y assume "x \<in> set ms"
      then have "jsize (snd x) < jsize a" using JObject jsize_member [of "snd x" "map snd ms"]
        by (simp add: member_sizes)
      then show "(case x of (k, v) \<Rightarrow> \<lambda>(k', v'). k = k' \<and> value_eq v v') y =
          (case x of (k, v) \<Rightarrow> \<lambda>(k', v'). k = k' \<and> jeq v v') y"
        using less by (cases x) auto
    qed
    with JObject show ?thesis by (cases b) (auto simp: value_eq_simps, simp_all add: value_eq_def)
  qed (cases b; auto simp: value_eq_def)+
qed

lemma hash_loop_append: "hash_loop (xs @ ys) = hash_loop xs @ hash_loop ys"
proof (induction xs rule: hash_loop.induct)
  case (3 v pending)
  then show ?case by (cases v) auto
qed simp_all

lemma hash_loop_values: "hash_loop (map PValue vs) = concat (map value_hash vs)"
proof (induction vs)
  case (Cons v vs)
  then show ?case using hash_loop_append [of "[PValue v]" "map PValue vs"]
    by (simp add: value_hash_def del: hash_loop.simps(3))
qed simp

lemma hash_loop_members:
  "hash_loop (member_parts ms) = concat (map (\<lambda>(k, v). HString k # value_hash v) ms)"
proof (induction ms)
  case (Cons m ms)
  then show ?case using hash_loop_append [of "[PValue (snd m)]" "member_parts ms"]
    by (cases m) (simp add: member_parts_def value_hash_def del: hash_loop.simps(3))
qed (simp add: member_parts_def)

lemma value_hash_simps:
  "value_hash (JArray vs) = HTag 4 # HLength (length vs) # concat (map value_hash vs)"
  "value_hash (JObject ms) =
     HTag 5 # HLength (length ms) # concat (map (\<lambda>(k, v). HString k # value_hash v) ms)"
  unfolding hash_loop_values [symmetric] hash_loop_members [symmetric]
  by (simp_all add: value_hash_def)

lemma list_all2_concat_map:
  "list_all2 P xs ys \<Longrightarrow> (\<And>x y. x \<in> set xs \<Longrightarrow> P x y \<Longrightarrow> f x = f y) \<Longrightarrow> concat (map f xs) = concat (map f ys)"
  by (induction xs ys rule: list_all2_induct) auto

lemma jeq_hash: "jeq a b \<Longrightarrow> value_hash a = value_hash b"
proof (induction "jsize a" arbitrary: a b rule: less_induct)
  case less
  show ?case
  proof (cases a)
    case (JArray vs)
    with less.prems obtain ws where b: "b = JArray ws" "list_all2 jeq vs ws" by auto
    have "concat (map value_hash vs) = concat (map value_hash ws)"
      by (rule list_all2_concat_map [OF b(2)]) (use less.hyps JArray jsize_member in simp)
    with JArray b show ?thesis
      by (simp add: value_hash_simps list_all2_lengthD)
  next
    case (JObject ms)
    with less.prems obtain ws where b: "b = JObject ws"
        "list_all2 (\<lambda>(k, v) (k', v'). k = k' \<and> jeq v v') ms ws" by auto
    have "concat (map (\<lambda>(k, v). HString k # value_hash v) ms) =
        concat (map (\<lambda>(k, v). HString k # value_hash v) ws)"
    proof (rule list_all2_concat_map [OF b(2)])
      fix x y assume x: "x \<in> set ms" and eq: "(case x of (k, v) \<Rightarrow> \<lambda>(k', v'). k = k' \<and> jeq v v') y"
      have "jsize (snd x) < jsize a" using x JObject jsize_member [of "snd x" "map snd ms"]
        by (simp add: member_sizes)
      with eq less.hyps [of "snd x" "snd y"]
      show "(case x of (k, v) \<Rightarrow> HString k # value_hash v) = (case y of (k, v) \<Rightarrow> HString k # value_hash v)"
        by (cases x; cases y) auto
    qed
    with JObject b show ?thesis
      by (simp add: value_hash_simps list_all2_lengthD)
  qed (use less.prems in \<open>auto simp: value_hash_def json_number_eq_def\<close>)
qed

section \<open>The tree and the arena\<close>

lemma btree_get_map: "btree_get (map (\<lambda>(k, j). (k, f j)) m) key = map_option f (btree_get m key)"
  by (induction m) auto

lemma entry_tree_ok:
  assumes "entries_ok src es" "i < length es"
  shows "entry_tree es i =
    (case en_node (es ! i) of
       NNull \<Rightarrow> JNull
     | NBool b \<Rightarrow> JBool b
     | NNumber n \<Rightarrow> JNumber n
     | NString t \<Rightarrow> JString t
     | NArray ids \<Rightarrow> JArray (map (entry_tree es) ids)
     | NObject ms \<Rightarrow> JObject (map (\<lambda>(k, j). (k, entry_tree es j)) ms))"
proof -
  have less: "\<forall>j \<in> set (node_refs (en_node (es ! i))). j < i"
    using assms by (simp add: entries_ok_def entry_ok_def)
  show ?thesis
    by (subst entry_tree.simps) (use assms(2) less in \<open>force split: node.split\<close>)
qed

lemma value_get_tree:
  assumes "entries_ok src (doc_entries d)" "i < length (doc_entries d)"
  shows "jget (entry_tree (doc_entries d) i) key = map_option (entry_tree (doc_entries d)) (value_get d i key)"
  by (cases "en_node (doc_entries d ! i)")
     (simp_all add: entry_tree_ok [OF assms] value_get_def value_node_def btree_get_map)

lemma value_elements_tree:
  assumes "entries_ok src (doc_entries d)" "i < length (doc_entries d)"
  shows "elements (entry_tree (doc_entries d) i) =
    map_option (map (entry_tree (doc_entries d))) (value_elements d i)"
  by (cases "en_node (doc_entries d ! i)")
     (simp_all add: entry_tree_ok [OF assms] value_elements_def value_node_def)

lemma value_members_tree:
  assumes "entries_ok src (doc_entries d)" "i < length (doc_entries d)"
  shows "members (entry_tree (doc_entries d) i) =
    map_option (map (\<lambda>(k, j). (k, entry_tree (doc_entries d) j))) (value_members d i)"
  by (cases "en_node (doc_entries d ! i)")
     (simp_all add: entry_tree_ok [OF assms] value_members_def value_node_def)

lemma value_raw_number:
  assumes "entries_ok (doc_source d) (doc_entries d)" "i < length (doc_entries d)"
    and "as_number (entry_tree (doc_entries d) i) = Some n"
  shows "value_raw d i = jn_token n"
proof -
  have node: "en_node (doc_entries d ! i) = NNumber n"
    using assms(3) by (simp add: entry_tree_ok [OF assms(1,2)] split: node.splits)
  have "entry_ok (doc_source d) i (doc_entries d ! i)" using assms(1,2) by (simp add: entries_ok_def)
  with node have "json_number_parse (value_raw d i) = Ok n"
    by (simp add: entry_ok_def value_raw_def byte_range_def)
  then show ?thesis by (simp add: json_number_parse_exact_token)
qed

lemma parse_loop_source: "parse_loop p = Ok d \<Longrightarrow> doc_source d = ps_source p"
proof (induction p rule: parse_loop.induct)
  case (1 p)
  show ?case
  proof (cases "parse_step p")
    case (Continue q)
    with 1 parse_step_advances [OF Continue] show ?thesis
      by (simp add: parse_loop.simps [of p])
  next
    case (Return r)
    with 1(2) have "parse_step p = Return (Ok d)" by (simp add: parse_loop.simps [of p])
    then show ?thesis
      by (auto simp: parse_step_def Let_def parse_fail_def split: list.splits frame.splits option.splits if_splits
          dest!: continue_or_fail_Return)
  qed
qed

lemma document_decode_source: "document_decode bytes lims = Ok d \<Longrightarrow> doc_source d = bytes"
  by (auto simp: document_decode_def split: if_splits dest: parse_loop_source)

lemma document_root_last:
  assumes "document_ok lims d"
  shows "doc_entries d \<noteq> [] \<and> doc_root d = length (doc_entries d) - 1"
proof -
  let ?n = "length (doc_entries d)"
  have refs: "add_mset (doc_root d) (entries_refs (doc_entries d)) = mset [0..<?n]"
    and ok: "entries_ok (doc_source d) (doc_entries d)" using assms by (simp_all add: document_ok_def)
  have "doc_root d \<in># mset [0..<?n]" using refs by (metis union_single_eq_member)
  then have n: "0 < ?n" by auto
  have "?n - 1 \<notin># entries_refs (doc_entries d)"
  proof
    assume "?n - 1 \<in># entries_refs (doc_entries d)"
    then obtain en where "en \<in> set (doc_entries d)" "?n - 1 \<in> set (node_refs (en_node en))"
      by (auto simp: entries_refs_def)
    then obtain i where "i < ?n" "?n - 1 < i"
      using ok by (metis entries_ok_def entry_ok_def in_set_conv_nth)
    then show False by simp
  qed
  moreover have "?n - 1 \<in># add_mset (doc_root d) (entries_refs (doc_entries d))"
    unfolding refs using n by simp
  ultimately have "?n - 1 = doc_root d" by simp
  with n show ?thesis by auto
qed

text \<open>Well-formed trees, those a decoded document stands for: numbers carry the token they were parsed
  from, strings are UTF-8, members are in key order.\<close>

function tree_ok :: "jvalue \<Rightarrow> bool" where
  "tree_ok JNull = True"
| "tree_ok (JBool b) = True"
| "tree_ok (JNumber n) = (json_number_parse (jn_token n) = Ok n)"
| "tree_ok (JString text) = utf8_valid text"
| "tree_ok (JArray vs) = list_all tree_ok vs"
| "tree_ok (JObject ms) = (btree_ok ms \<and> list_all (\<lambda>m. tree_ok (snd m)) ms)"
  by pat_completeness auto
termination
  by (relation "measure jsize") (auto dest: jsize_member jsize_object_member)

lemma entry_tree_well_formed:
  assumes "entries_ok src es"
  shows "i < length es \<Longrightarrow> tree_ok (entry_tree es i)"
proof (induction i rule: less_induct)
  case (less i)
  have entry: "entry_ok src i (es ! i)" using assms less.prems by (simp add: entries_ok_def)
  have child: "tree_ok (entry_tree es j)" if "j \<in> set (node_refs (en_node (es ! i)))" for j
    using less that entry by (auto simp: entry_ok_def)
  show ?case
  proof (cases "en_node (es ! i)")
    case (NNumber n)
    with entry obtain token where "json_number_parse token = Ok n" by (auto simp: entry_ok_def)
    then have "json_number_parse (jn_token n) = Ok n"
      using json_number_parse_exact_token by metis
    with NNumber show ?thesis by (simp add: entry_tree_ok [OF assms less.prems])
  next
    case (NObject ms)
    with entry child show ?thesis
      by (auto simp: entry_tree_ok [OF assms less.prems] entry_ok_def btree_ok_def list_all_iff comp_def case_prod_unfold)
  qed (use entry child in \<open>auto simp: entry_tree_ok [OF assms less.prems] entry_ok_def list_all_iff\<close>)
qed

lemma document_tree_ok:
  assumes "document_decode bytes lims = Ok d"
  shows "tree_ok (document_tree d)"
proof -
  have ok: "document_ok lims d" using document_decode_safe [of lims bytes] assms by simp
  then have "doc_root d < length (doc_entries d)"
    using document_root_last [OF ok] by simp
  with ok show ?thesis
    by (auto simp: document_tree_def document_ok_def intro: entry_tree_well_formed)
qed

lemma tree_ok_parts:
  "tree_ok v \<Longrightarrow> jget v key = Some c \<Longrightarrow> tree_ok c"
  "tree_ok v \<Longrightarrow> members v = Some ms \<Longrightarrow> (key, c) \<in> set ms \<Longrightarrow> tree_ok c"
  "tree_ok v \<Longrightarrow> elements v = Some vs \<Longrightarrow> c \<in> set vs \<Longrightarrow> tree_ok c"
  "tree_ok v \<Longrightarrow> as_number v = Some n \<Longrightarrow> json_number_parse (jn_token n) = Ok n"
  by (cases v; force simp: list_all_iff btree_get_map_of dest: map_of_SomeD)+

section \<open>Properties of decoding\<close>

text \<open>A small document, with members out of key order, for the concrete instances below.\<close>

definition sample_limits :: limits where
  "sample_limits = \<lparr>lim_bytes = 64, lim_nodes = 16, lim_depth = 8\<rparr>"

definition sample_document :: document where
  "sample_document = (case document_decode ''{\"b\":[1],\"a\":2}'' sample_limits of Ok d \<Rightarrow> d)"

lemma sample_document_decodes: "document_decode ''{\"b\":[1],\"a\":2}'' sample_limits = Ok sample_document"
  by code_simp

lemma sample_document_facts:
  "length (doc_entries sample_document) = 4"
  "value_get sample_document 3 ''a'' = Some 2"
  by code_simp+

text \<open>C12: Decoding never panics, on any bytes and limits: no \<^verbatim>\<open>expect\<close>, \<^verbatim>\<open>assert\<close>, \<^verbatim>\<open>unreachable\<close> or slice
  of the parser fails; every failure is a refusal with its cause.\<close>

theorem document_decode_no_panic: "document_decode bytes lims \<noteq> Err Panic"
  using document_decode_safe [of lims bytes] by (cases "document_decode bytes lims") auto



text \<open>C14: On a decoded document the accessors of a value (member lookup, elements, members in key order,
  raw text of a number) are those of the tree the entry stands for.\<close>

theorem decoded_value_refines_tree:
  assumes "document_decode bytes lims = Ok d" and "i < length (doc_entries d)"
  shows "jget (entry_tree (doc_entries d) i) key = map_option (entry_tree (doc_entries d)) (value_get d i key)
    \<and> elements (entry_tree (doc_entries d) i) =
        map_option (map (entry_tree (doc_entries d))) (value_elements d i)
    \<and> members (entry_tree (doc_entries d) i) =
        map_option (map (\<lambda>(k, j). (k, entry_tree (doc_entries d) j))) (value_members d i)
    \<and> (as_number (entry_tree (doc_entries d) i) = Some n \<longrightarrow> value_raw d i = jn_token n)"
proof -
  have "entries_ok (doc_source d) (doc_entries d)"
    using document_decode_safe [of lims bytes] assms(1) by (simp add: document_ok_def)
  then show ?thesis
    using assms(2) value_get_tree value_elements_tree value_members_tree value_raw_number by blast
qed

theorem decoded_value_refines_tree_witness:
  "jget (entry_tree (doc_entries sample_document) 3) ''a'' =
     Some (entry_tree (doc_entries sample_document) 2)"
  using decoded_value_refines_tree [OF sample_document_decodes, of 3 "''a''"]
  by (simp add: sample_document_facts)

text \<open>C15: The worklist comparison of values is structural equality with numbers compared by value, and
  equal values feed a hasher the same sequence, as the set behind \<^verbatim>\<open>uniqueItems\<close> requires.\<close>

theorem value_eq_structural:
  "value_eq a b = jeq a b \<and> (value_eq a b \<longrightarrow> value_hash a = value_hash b)"
  using value_eq_jeq jeq_hash by blast

definition sample_number :: "string \<Rightarrow> jvalue" where
  "sample_number token = (case json_number_parse token of Ok n \<Rightarrow> JArray [JNumber n])"

theorem value_eq_structural_witness:
  "value_eq (sample_number ''10'') (sample_number ''1e1'')
   \<and> value_hash (sample_number ''10'') = value_hash (sample_number ''1e1'')"
proof -
  have "value_eq (sample_number ''10'') (sample_number ''1e1'')" by code_simp
  then show ?thesis using value_eq_structural by blast
qed

end
