(* ===== verification/Schema.thy ===== *)
theory Schema
  imports Json_Value
begin

text \<open>
  \<^verbatim>\<open>protocol/engine/src/schema.rs\<close>: the interpreter of compiled JSON Schema assertions. The code is an
  explicit machine (a stack of tasks, a stack of results, an arena of instance paths) that counts its
  operations; it is modelled step for step, with every \<^verbatim>\<open>expect\<close> and index as a \<open>VPanic\<close> outcome. The
  reference it is compared with is the big-step relation \<open>node_verdict\<close>, which says what each schema
  keyword means and which failure is reported. The node table the build generates is the argument
  \<open>nodes\<close>. Stacks are lists with the top first.
\<close>

section \<open>The definitions a build compiles\<close>

datatype literal = LNull | LBool bool | LNumber string | LString string

datatype additional = Allow | AdditionalSchema nat

datatype pattern = LowerHex64 | ContainsNonblankScalar

datatype rule =
    RFalse
  | RRef nat
  | RType u8
  | RConst literal
  | REnum "literal list"
  | RMinimum string
  | RMaximum string
  | RMinLength nat
  | RMaxLength nat
  | RPattern pattern
  | RObject "(string \<times> nat) list" "string list" additional
  | RArray "nat option" "nat option" "nat option" bool
  | RAllOf "nat list"
  | RAnyOf "nat list"
  | ROneOf "nat list"
  | RConditional nat nat "nat option"

record schema_node =
  sn_path :: string
  sn_rules :: "rule list"

record mismatch =
  mm_instance_path :: string
  mm_schema_path :: string

datatype definition_cause = NodeUnavailable nat | BadNumericLiteral nat

datatype validation_error =
    Rejected mismatch
  | SchemaOperations nat
  | InvalidSchema definition_cause

text \<open>\<open>VPanic\<close> is a failed \<^verbatim>\<open>expect\<close> or index, \<open>VDiverges\<close> a path walk that never reaches the root.\<close>

datatype validation_fault = Invalid validation_error | VPanic | VDiverges

record failure =
  f_path :: nat
  f_schema :: string
  f_keyword :: string

datatype combination = CAll | CAny | COne

datatype task =
    TNode nat jvalue nat
  | TRule rule jvalue nat string
  | TCollect combination nat failure
  | TConditional nat "nat option" jvalue nat
  | TFailed failure

type_synonym path_arena = "(nat \<times> string) list"

record machine =
  m_tasks :: "task list"
  m_results :: "(unit, failure) result list"
  m_paths :: path_arena

section \<open>Assertions on one value\<close>

definition definition_number :: "string \<Rightarrow> (json_number, validation_fault) result" where
  "definition_number token =
     map_err (\<lambda>byte. Invalid (InvalidSchema (BadNumericLiteral byte))) (json_number_parse token)"

fun literal_matches :: "literal \<Rightarrow> jvalue \<Rightarrow> (bool, validation_fault) result" where
  "literal_matches LNull JNull = Ok True"
| "literal_matches (LBool a) (JBool b) = Ok (a = b)"
| "literal_matches (LString a) (JString b) = Ok (a = b)"
| "literal_matches (LNumber a) (JNumber b) =
     bindR (definition_number a) (\<lambda>n. Ok (json_number_eq n b))"
| "literal_matches _ _ = Ok False"

definition is_blank_scalar :: "nat \<Rightarrow> bool" where
  "is_blank_scalar c \<longleftrightarrow>
     9 \<le> c \<and> c \<le> 13 \<or> c = 32 \<or> c = 160 \<or> c = 5760 \<or> 8192 \<le> c \<and> c \<le> 8202 \<or> c = 8232 \<or> c = 8233
     \<or> c = 8239 \<or> c = 8287 \<or> c = 12288 \<or> c = 65279"

fun pattern_matches :: "pattern \<Rightarrow> string \<Rightarrow> bool" where
  "pattern_matches LowerHex64 text \<longleftrightarrow>
     length text = 64
     \<and> list_all (\<lambda>c. 97 \<le> byte c \<and> byte c \<le> 102 \<or> 48 \<le> byte c \<and> byte c \<le> 57) text"
| "pattern_matches ContainsNonblankScalar text \<longleftrightarrow> list_ex (\<lambda>c. \<not> is_blank_scalar c) (chars text)"

fun rule_keyword :: "rule \<Rightarrow> string" where
  "rule_keyword RFalse = ''''"
| "rule_keyword (RObject _ _ _) = ''''"
| "rule_keyword (RRef _) = ''$ref''"
| "rule_keyword (RType _) = ''type''"
| "rule_keyword (RConst _) = ''const''"
| "rule_keyword (REnum _) = ''enum''"
| "rule_keyword (RMinimum _) = ''minimum''"
| "rule_keyword (RMaximum _) = ''maximum''"
| "rule_keyword (RMinLength _) = ''minLength''"
| "rule_keyword (RMaxLength _) = ''maxLength''"
| "rule_keyword (RPattern _) = ''pattern''"
| "rule_keyword (RArray _ _ _ _) = ''items''"
| "rule_keyword (RAllOf _) = ''allOf''"
| "rule_keyword (RAnyOf _) = ''anyOf''"
| "rule_keyword (ROneOf _) = ''oneOf''"
| "rule_keyword (RConditional _ _ _) = ''if''"

text \<open>\<^verbatim>\<open>str::replace\<close> of one character by a string.\<close>

definition replace_char :: "char \<Rightarrow> string \<Rightarrow> string \<Rightarrow> string" where
  "replace_char c by_text text = concat (map (\<lambda>x. if x = c then by_text else [x]) text)"

definition escape_pointer :: "string \<Rightarrow> string" where
  "escape_pointer text = replace_char CHR ''/'' ''~1'' (replace_char CHR ''~'' ''~0'' text)"

fun type_kind :: "jvalue \<Rightarrow> u8" where
  "type_kind JNull = 1"
| "type_kind (JBool _) = 2"
| "type_kind (JNumber n) = (if json_number_is_integer n then 12 else 4)"
| "type_kind (JString _) = 16"
| "type_kind (JArray _) = 32"
| "type_kind (JObject _) = 64"

definition compare_bound :: "(ordering \<Rightarrow> bool) \<Rightarrow> string \<Rightarrow> jvalue \<Rightarrow> (bool, validation_fault) result" where
  "compare_bound ok token v =
     (case v of
        JNumber n \<Rightarrow> bindR (definition_number token) (\<lambda>b. Ok (ok (json_number_cmp n b)))
      | _ \<Rightarrow> Ok True)"

definition text_check :: "(string \<Rightarrow> bool) \<Rightarrow> jvalue \<Rightarrow> bool" where
  "text_check ok v = (case as_str v of None \<Rightarrow> True | Some text \<Rightarrow> ok text)"

text \<open>The rules that push no task: the value decides them at once. Rules that do are \<open>Ok True\<close> here,
  the value of the branches that fall through in the code.\<close>

fun simple_check :: "rule \<Rightarrow> jvalue \<Rightarrow> (bool, validation_fault) result" where
  "simple_check RFalse v = Ok False"
| "simple_check (RType bits) v = Ok (and (type_kind v) bits \<noteq> 0)"
| "simple_check (RConst literal) v = literal_matches literal v"
| "simple_check (REnum literals) v =
     foldR (\<lambda>matched literal. bindR (literal_matches literal v) (\<lambda>b. Ok (matched \<or> b))) False literals"
| "simple_check (RMinimum token) v = compare_bound (\<lambda>ord. ord \<noteq> Less) token v"
| "simple_check (RMaximum token) v = compare_bound (\<lambda>ord. ord \<noteq> Greater) token v"
| "simple_check (RMinLength bound) v = Ok (text_check (\<lambda>text. bound \<le> char_count text) v)"
| "simple_check (RMaxLength bound) v = Ok (text_check (\<lambda>text. char_count text \<le> bound) v)"
| "simple_check (RPattern pattern) v = Ok (text_check (pattern_matches pattern) v)"
| "simple_check _ v = Ok True"

text \<open>\<^verbatim>\<open>elements.iter().any(|nid| !seen.insert(value))\<close>: the set decides membership by value equality.\<close>

fun has_duplicate :: "jvalue list \<Rightarrow> jvalue list \<Rightarrow> bool" where
  "has_duplicate seen [] = False"
| "has_duplicate seen (v # vs) = (list_ex (\<lambda>w. value_eq w v) seen \<or> has_duplicate (v # seen) vs)"

definition select_property :: "(string \<times> nat) list \<Rightarrow> additional \<Rightarrow> string \<Rightarrow> nat option" where
  "select_property properties additional key =
     (case find (\<lambda>(name, _). name = key) properties of
        Some (_, nid) \<Rightarrow> Some nid
      | None \<Rightarrow> (case additional of Allow \<Rightarrow> None | AdditionalSchema nid \<Rightarrow> Some nid))"

definition misses_required :: "string list \<Rightarrow> (string \<times> jvalue) list \<Rightarrow> bool" where
  "misses_required required mems = list_ex (\<lambda>name. btree_get mems name = None) required"

section \<open>The machine\<close>

definition push_result :: "(unit, failure) result \<Rightarrow> machine \<Rightarrow> machine" where
  "push_result r m = m\<lparr>m_results := r # m_results m\<rparr>"

definition push_tasks :: "task list \<Rightarrow> machine \<Rightarrow> machine" where
  "push_tasks ts m = m\<lparr>m_tasks := ts @ m_tasks m\<rparr>"

fun first_error :: "('a, 'e) result list \<Rightarrow> 'e option" where
  "first_error [] = None"
| "first_error (Ok _ # rs) = first_error rs"
| "first_error (Err e # rs) = Some e"

definition collect :: "combination \<Rightarrow> (unit, 'f) result list \<Rightarrow> 'f \<Rightarrow> (unit, 'f) result" where
  "collect combination rs f =
     (let matched = length (filter is_ok rs);
          accepted = (case combination of
             CAll \<Rightarrow> matched = length rs | CAny \<Rightarrow> 0 < matched | COne \<Rightarrow> matched = 1)
      in if accepted then Ok ()
         else Err (case combination of
             CAll \<Rightarrow> (case first_error rs of Some e \<Rightarrow> e | None \<Rightarrow> f)
           | _ \<Rightarrow> f))"

fun object_checks :: "(string \<times> nat) list \<Rightarrow> additional \<Rightarrow> nat \<Rightarrow> (string \<times> jvalue) list \<Rightarrow> path_arena
    \<Rightarrow> task list \<times> path_arena" where
  "object_checks properties additional path [] paths = ([], paths)"
| "object_checks properties additional path ((key, child) # mems) paths =
     (case select_property properties additional key of
        None \<Rightarrow> object_checks properties additional path mems paths
      | Some selected \<Rightarrow>
          (let (checks, paths') =
             object_checks properties additional path mems (paths @ [(path, escape_pointer key)])
           in (TNode selected child (length paths) # checks, paths')))"

text \<open>The loop over the elements runs backwards, so the first element ends on top of the stack.\<close>

definition item_tasks :: "nat \<Rightarrow> nat \<Rightarrow> jvalue list \<Rightarrow> path_arena \<Rightarrow> task list \<times> path_arena" where
  "item_tasks selected path vs paths =
     foldl (\<lambda>(ts, ps) (index, child).
              (TNode selected child (length ps) # ts, ps @ [(path, nat_to_string index)]))
       ([], paths) (rev (enumerate 0 vs))"

definition array_step :: "nat option \<Rightarrow> nat option \<Rightarrow> nat option \<Rightarrow> bool \<Rightarrow> jvalue list \<Rightarrow> nat \<Rightarrow> (string \<Rightarrow> failure)
    \<Rightarrow> machine \<Rightarrow> machine" where
  "array_step items minimum maximum unique vs path fails m =
     (if (case minimum of Some n \<Rightarrow> length vs < n | None \<Rightarrow> False) then push_result (Err (fails ''minItems'')) m
      else if (case maximum of Some n \<Rightarrow> n < length vs | None \<Rightarrow> False)
      then push_result (Err (fails ''maxItems'')) m
      else if unique \<and> has_duplicate [] vs then push_result (Err (fails ''uniqueItems'')) m
      else (case items of
        None \<Rightarrow> push_result (Ok ()) m
      | Some selected \<Rightarrow>
          (let (ts, paths) = item_tasks selected path vs (m_paths m)
           in push_tasks (ts @ [TCollect CAll (length vs) (fails ''items'')]) m\<lparr>m_paths := paths\<rparr>)))"

definition object_step :: "(string \<times> nat) list \<Rightarrow> string list \<Rightarrow> additional \<Rightarrow> (string \<times> jvalue) list \<Rightarrow> nat
    \<Rightarrow> (string \<Rightarrow> failure) \<Rightarrow> machine \<Rightarrow> machine" where
  "object_step properties required additional mems path fails m =
     (let missing = (if misses_required required mems then [TFailed (fails ''required'')] else []);
          (children, paths) = object_checks properties additional path mems (m_paths m);
          checks = missing @ children
      in push_tasks (checks @ [TCollect CAll (length checks) (fails '''')]) m\<lparr>m_paths := paths\<rparr>)"

definition rule_step :: "rule \<Rightarrow> jvalue \<Rightarrow> nat \<Rightarrow> string \<Rightarrow> machine \<Rightarrow> (machine, validation_fault) result" where
  "rule_step rule v path schema m =
     (let fails = (\<lambda>keyword. \<lparr>f_path = path, f_schema = schema, f_keyword = keyword\<rparr>);
          branches = (\<lambda>combination children.
            Ok (push_tasks (map (\<lambda>nid. TNode nid v path) children
                  @ [TCollect combination (length children) (fails (rule_keyword rule))]) m));
          simple = bindR (simple_check rule v) (\<lambda>accepted.
            Ok (push_result (if accepted then Ok () else Err (fails (rule_keyword rule))) m))
      in case rule of
           RRef nid \<Rightarrow> Ok (push_tasks [TNode nid v path] m)
         | RAllOf children \<Rightarrow> branches CAll children
         | RAnyOf children \<Rightarrow> branches CAny children
         | ROneOf children \<Rightarrow> branches COne children
         | RConditional condition consequence alternative \<Rightarrow>
             Ok (push_tasks [TNode condition v path, TConditional consequence alternative v path] m)
         | RObject properties required additional \<Rightarrow>
             (case v of
                JObject mems \<Rightarrow> Ok (object_step properties required additional mems path fails m)
              | _ \<Rightarrow> simple)
         | RArray items minimum maximum unique \<Rightarrow>
             (case v of
                JArray vs \<Rightarrow> Ok (array_step items minimum maximum unique vs path fails m)
              | _ \<Rightarrow> simple)
         | _ \<Rightarrow> simple)"

definition conditional_step :: "nat \<Rightarrow> nat option \<Rightarrow> jvalue \<Rightarrow> nat \<Rightarrow> machine \<Rightarrow> (machine, validation_fault) result" where
  "conditional_step consequence alternative v path m =
     (case m_results m of
        [] \<Rightarrow> Err VPanic
      | r # rs \<Rightarrow>
          (let m' = m\<lparr>m_results := rs\<rparr> in
           if is_ok r then Ok (push_tasks [TNode consequence v path] m')
           else (case alternative of
             Some other \<Rightarrow> Ok (push_tasks [TNode other v path] m')
           | None \<Rightarrow> Ok (push_result (Ok ()) m'))))"

definition collect_step :: "combination \<Rightarrow> nat \<Rightarrow> failure \<Rightarrow> machine \<Rightarrow> (machine, validation_fault) result" where
  "collect_step combination cnt f m =
     (if length (m_results m) < cnt then Err VPanic
      else Ok (push_result (collect combination (rev (take cnt (m_results m))) f)
                 (m\<lparr>m_results := drop cnt (m_results m)\<rparr>)))"

text \<open>One iteration of the loop, on the task that was popped.\<close>

fun task_step :: "schema_node list \<Rightarrow> task \<Rightarrow> machine \<Rightarrow> (machine, validation_fault) result" where
  "task_step nodes (TNode nid v path) m =
     (case get_at nodes nid of
        None \<Rightarrow> Err (Invalid (InvalidSchema (NodeUnavailable nid)))
      | Some node \<Rightarrow>
          Ok (push_tasks (map (\<lambda>rule. TRule rule v path (sn_path node)) (sn_rules node)
                @ [TCollect CAll (length (sn_rules node))
                     \<lparr>f_path = path, f_schema = sn_path node, f_keyword = ''''\<rparr>]) m))"
| "task_step nodes (TFailed f) m = Ok (push_result (Err f) m)"
| "task_step nodes (TConditional consequence alternative v path) m =
     conditional_step consequence alternative v path m"
| "task_step nodes (TCollect combination cnt f) m = collect_step combination cnt f m"
| "task_step nodes (TRule rule v path schema) m = rule_step rule v path schema m"

text \<open>The loop, by the operations that remain of the limit.\<close>

fun task_loop :: "schema_node list \<Rightarrow> nat \<Rightarrow> nat \<Rightarrow> machine \<Rightarrow> (machine, validation_fault) result" where
  "task_loop nodes limit left m =
     (case m_tasks m of
        [] \<Rightarrow> Ok m
      | t # ts \<Rightarrow>
          (case left of
             0 \<Rightarrow> Err (Invalid (SchemaOperations limit))
           | Suc n \<Rightarrow> bindR (task_step nodes t (m\<lparr>m_tasks := ts\<rparr>)) (task_loop nodes limit n)))"

declare task_loop.simps [simp del]

text \<open>The walk from a path to the root; each parent stands before its child, so the arena's length
  bounds it.\<close>

fun path_walk :: "nat \<Rightarrow> path_arena \<Rightarrow> nat \<Rightarrow> string list \<Rightarrow> (string list, validation_fault) result" where
  "path_walk fuel paths pos segments =
     (if pos = 0 then Ok segments
      else case fuel of
        0 \<Rightarrow> Err VDiverges
      | Suc n \<Rightarrow>
          (case get_at paths pos of
             None \<Rightarrow> Err VPanic
           | Some (parent, segment) \<Rightarrow> path_walk n paths parent (segments @ [segment])))"

declare path_walk.simps [simp del]

definition schema_path :: "string \<Rightarrow> string \<Rightarrow> string" where
  "schema_path schema keyword = (if keyword = [] then schema else schema @ ''/'' @ keyword)"

definition instance_path :: "string list \<Rightarrow> string" where
  "instance_path segments = concat (map (\<lambda>segment. ''/'' @ segment) segments)"

definition report :: "machine \<Rightarrow> (unit, validation_fault) result" where
  "report m =
     (case m_results m of
        [] \<Rightarrow> Err VPanic
      | Ok _ # _ \<Rightarrow> Ok ()
      | Err f # _ \<Rightarrow>
          bindR (path_walk (length (m_paths m)) (m_paths m) (f_path f) []) (\<lambda>segments.
            Err (Invalid (Rejected
              \<lparr>mm_instance_path = instance_path (rev segments),
               mm_schema_path = schema_path (f_schema f) (f_keyword f)\<rparr>))))"

definition schema_validate :: "schema_node list \<Rightarrow> nat \<Rightarrow> jvalue \<Rightarrow> nat \<Rightarrow> (unit, validation_fault) result" where
  "schema_validate nodes start v operations =
     bindR (task_loop nodes operations operations
              \<lparr>m_tasks = [TNode start v 0], m_results = [], m_paths = [(0, '''')]\<rparr>) report"

end
