(* ===== verification/Schema_Semantics.thy ===== *)
theory Schema_Semantics
  imports Schema
begin

text \<open>
  What a compiled schema means, and that the machine of \<open>Schema\<close> computes it. \<open>node_verdict\<close> relates a
  node, a value and the instance path of that value to the verdict: accepted, or the failure that is
  reported (instance path, schema path, keyword). The machine reaches that verdict after a number of
  operations that depends only on the schema and the value, and below that number it reports that
  validation is unavailable, never a verdict.
\<close>

section \<open>Verdicts\<close>

type_synonym verdict = "(unit, string list \<times> string \<times> string) result"

fun rule_branches :: "rule \<Rightarrow> (combination \<times> nat list) option" where
  "rule_branches (RAllOf children) = Some (CAll, children)"
| "rule_branches (RAnyOf children) = Some (CAny, children)"
| "rule_branches (ROneOf children) = Some (COne, children)"
| "rule_branches _ = None"

text \<open>The rules that are decided at once on this value.\<close>

fun is_simple :: "rule \<Rightarrow> jvalue \<Rightarrow> bool" where
  "is_simple (RRef _) v = False"
| "is_simple (RAllOf _) v = False"
| "is_simple (RAnyOf _) v = False"
| "is_simple (ROneOf _) v = False"
| "is_simple (RConditional _ _ _) v = False"
| "is_simple (RObject _ _ _) v = (\<not> (\<exists>mems. v = JObject mems))"
| "is_simple (RArray _ _ _ _) v = (\<not> (\<exists>vs. v = JArray vs))"
| "is_simple _ v = True"

definition array_fault :: "nat option \<Rightarrow> nat option \<Rightarrow> bool \<Rightarrow> jvalue list \<Rightarrow> string option" where
  "array_fault minimum maximum unique vs =
     (if (case minimum of Some n \<Rightarrow> length vs < n | None \<Rightarrow> False) then Some ''minItems''
      else if (case maximum of Some n \<Rightarrow> n < length vs | None \<Rightarrow> False) then Some ''maxItems''
      else if unique \<and> has_duplicate [] vs then Some ''uniqueItems''
      else None)"

text \<open>The members an object rule descends into, each with its schema.\<close>

definition selected_members :: "(string \<times> nat) list \<Rightarrow> additional \<Rightarrow> (string \<times> jvalue) list
    \<Rightarrow> (string \<times> nat \<times> jvalue) list" where
  "selected_members properties additional mems =
     concat (map (\<lambda>(key, child). case select_property properties additional key of
                    None \<Rightarrow> [] | Some nid \<Rightarrow> [(key, nid, child)]) mems)"

inductive node_verdict :: "schema_node list \<Rightarrow> nat \<Rightarrow> jvalue \<Rightarrow> string list \<Rightarrow> verdict \<Rightarrow> bool"
  and rule_verdict :: "schema_node list \<Rightarrow> string \<Rightarrow> rule \<Rightarrow> jvalue \<Rightarrow> string list \<Rightarrow> verdict \<Rightarrow> bool"
  for nodes :: "schema_node list" where
  node: "nid < length nodes \<Longrightarrow> node = nodes ! nid
    \<Longrightarrow> list_all2 (\<lambda>rule x. rule_verdict nodes (sn_path node) rule v p x) (sn_rules node) xs
    \<Longrightarrow> node_verdict nodes nid v p (collect CAll xs (p, sn_path node, ''''))"
| simple: "is_simple rule v \<Longrightarrow> simple_check rule v = Ok accepted
    \<Longrightarrow> rule_verdict nodes s rule v p (if accepted then Ok () else Err (p, s, rule_keyword rule))"
| ref: "node_verdict nodes nid v p x \<Longrightarrow> rule_verdict nodes s (RRef nid) v p x"
| branches: "rule_branches rule = Some (combination, children)
    \<Longrightarrow> list_all2 (\<lambda>nid x. node_verdict nodes nid v p x) children xs
    \<Longrightarrow> rule_verdict nodes s rule v p (collect combination xs (p, s, rule_keyword rule))"
| consequence: "node_verdict nodes condition v p c \<Longrightarrow> is_ok c \<Longrightarrow> node_verdict nodes consequence v p x
    \<Longrightarrow> rule_verdict nodes s (RConditional condition consequence alternative) v p x"
| alternative: "node_verdict nodes condition v p c \<Longrightarrow> \<not> is_ok c \<Longrightarrow> node_verdict nodes other v p x
    \<Longrightarrow> rule_verdict nodes s (RConditional condition consequence (Some other)) v p x"
| no_alternative: "node_verdict nodes condition v p c \<Longrightarrow> \<not> is_ok c
    \<Longrightarrow> rule_verdict nodes s (RConditional condition consequence None) v p (Ok ())"
| object: "list_all2 (\<lambda>m x. node_verdict nodes (fst (snd m)) (snd (snd m)) (p @ [escape_pointer (fst m)]) x)
      (selected_members properties additional mems) xs
    \<Longrightarrow> rule_verdict nodes s (RObject properties required additional) (JObject mems) p
          (collect CAll ((if misses_required required mems then [Err (p, s, ''required'')] else []) @ xs)
             (p, s, ''''))"
| array_fault: "array_fault minimum maximum unique vs = Some keyword
    \<Longrightarrow> rule_verdict nodes s (RArray items minimum maximum unique) (JArray vs) p (Err (p, s, keyword))"
| array_free: "array_fault minimum maximum unique vs = None
    \<Longrightarrow> rule_verdict nodes s (RArray None minimum maximum unique) (JArray vs) p (Ok ())"
| array_items: "array_fault minimum maximum unique vs = None
    \<Longrightarrow> list_all2 (\<lambda>e x. node_verdict nodes nid (snd e) (p @ [nat_to_string (fst e)]) x)
          (enumerate 0 vs) xs
    \<Longrightarrow> rule_verdict nodes s (RArray (Some nid) minimum maximum unique) (JArray vs) p
          (collect CAll xs (p, s, ''items''))"

text \<open>What the caller of the validator is told.\<close>

fun outcome :: "verdict \<Rightarrow> (unit, validation_fault) result" where
  "outcome (Ok _) = Ok ()"
| "outcome (Err (p, s, keyword)) =
     Err (Invalid (Rejected
       \<lparr>mm_instance_path = instance_path p, mm_schema_path = schema_path s keyword\<rparr>))"

section \<open>Runs of the machine\<close>

abbreviation mk :: "task list \<Rightarrow> (unit, failure) result list \<Rightarrow> path_arena \<Rightarrow> machine" where
  "mk ts rs ps \<equiv> \<lparr>m_tasks = ts, m_results = rs, m_paths = ps\<rparr>"

fun execs :: "schema_node list \<Rightarrow> nat \<Rightarrow> machine \<Rightarrow> machine \<Rightarrow> bool" where
  "execs nodes 0 m m' = (m = m')"
| "execs nodes (Suc n) m m' =
     (\<exists>t ts m1. m_tasks m = t # ts \<and> task_step nodes t (m\<lparr>m_tasks := ts\<rparr>) = Ok m1 \<and> execs nodes n m1 m')"

lemma execs_trans: "execs nodes n m m1 \<Longrightarrow> execs nodes k m1 m' \<Longrightarrow> execs nodes (n + k) m m'"
  by (induction n arbitrary: m) auto

lemma execs_step:
  "task_step nodes t (mk ts rs ps) = Ok m1 \<Longrightarrow> execs nodes n m1 m' \<Longrightarrow> execs nodes (Suc n) (mk (t # ts) rs ps) m'"
  by auto

lemma task_loop_execs: "execs nodes n m m' \<Longrightarrow> task_loop nodes limit (n + k) m = task_loop nodes limit k m'"
  by (induction n arbitrary: m) (auto simp: task_loop.simps [of nodes limit "Suc _"])

lemma task_loop_short:
  "execs nodes n m m' \<Longrightarrow> k < n \<Longrightarrow> task_loop nodes limit k m = Err (Invalid (SchemaOperations limit))"
proof (induction n arbitrary: m k)
  case (Suc n)
  from Suc.prems obtain t ts m1 where "m_tasks m = t # ts" "task_step nodes t (m\<lparr>m_tasks := ts\<rparr>) = Ok m1"
    "execs nodes n m1 m'" by auto
  then show ?case
    using Suc.IH [of m1] Suc.prems(2) by (cases k) (auto simp: task_loop.simps)
qed simp

section \<open>Paths\<close>

inductive path_at :: "path_arena \<Rightarrow> nat \<Rightarrow> string list \<Rightarrow> bool" for ps where
  root: "0 < length ps \<Longrightarrow> path_at ps 0 []"
| child: "path_at ps j p \<Longrightarrow> i < length ps \<Longrightarrow> ps ! i = (j, segment) \<Longrightarrow> j < i \<Longrightarrow> path_at ps i (p @ [segment])"

lemma path_at_append: "path_at ps i p \<Longrightarrow> path_at (ps @ ex) i p"
  by (induction rule: path_at.induct) (auto intro: path_at.intros simp: nth_append)

lemma path_walk_at: "path_at ps i p \<Longrightarrow> i \<le> fuel \<Longrightarrow> path_walk fuel ps i segments = Ok (segments @ rev p)"
proof (induction arbitrary: fuel segments rule: path_at.induct)
  case root
  then show ?case by (simp add: path_walk.simps)
next
  case (child j p i segment)
  then obtain n where "fuel = Suc n" "j \<le> n" by (cases fuel) auto
  with child show ?case by (simp add: path_walk.simps [of "Suc n"])
qed

lemma path_at_bound: "path_at ps i p \<Longrightarrow> i < length ps"
  by (erule path_at.cases) auto

fun verdict_rel :: "path_arena \<Rightarrow> (unit, failure) result \<Rightarrow> verdict \<Rightarrow> bool" where
  "verdict_rel ps (Ok _) (Ok _) = True"
| "verdict_rel ps (Err f) (Err (p, s, keyword)) = (path_at ps (f_path f) p \<and> f_schema f = s \<and> f_keyword f = keyword)"
| "verdict_rel ps _ _ = False"

lemma verdict_rel_append: "verdict_rel ps r x \<Longrightarrow> verdict_rel (ps @ ex) r x"
  by (induction ps r x rule: verdict_rel.induct) (auto intro: path_at_append)

lemma verdict_rel_is_ok: "verdict_rel ps r x \<Longrightarrow> is_ok r = is_ok x"
  by (induction ps r x rule: verdict_rel.induct) auto

lemma verdict_rel_OkD: "verdict_rel ps r (Ok u) \<Longrightarrow> r = Ok ()"
  by (cases r) auto

lemma verdicts_matched: "list_all2 (verdict_rel ps) rs xs \<Longrightarrow> length (filter is_ok rs) = length (filter is_ok xs)"
  by (induction rule: list_all2_induct) (auto dest: verdict_rel_is_ok)

lemma verdicts_first_error:
  "list_all2 (verdict_rel ps) rs xs \<Longrightarrow>
     (first_error rs = None \<and> first_error xs = None)
     \<or> (\<exists>f g. first_error rs = Some f \<and> first_error xs = Some g \<and> verdict_rel ps (Err f) (Err g))"
proof (induction rule: list_all2_induct)
  case (Cons r rs x xs)
  then show ?case by (cases r; cases x) auto
qed simp

lemma verdict_rel_collect:
  assumes "list_all2 (verdict_rel ps) rs xs" and "verdict_rel ps (Err f) (Err g)"
  shows "verdict_rel ps (collect combination rs f) (collect combination xs g)"
  using verdicts_matched [OF assms(1)] list_all2_lengthD [OF assms(1)] verdicts_first_error [OF assms(1)] assms(2)
  by (auto simp: collect_def Let_def split: combination.splits option.splits)

lemma verdicts_append: "list_all2 (verdict_rel ps) rs xs \<Longrightarrow> list_all2 (verdict_rel (ps @ ex)) rs xs"
  by (erule list_all2_mono) (rule verdict_rel_append)

section \<open>The machine reaches the verdict\<close>

text \<open>A task ends with its verdict on top of the results, wherever it stands and whatever has been
  added to the arena meanwhile.\<close>

definition ends :: "schema_node list \<Rightarrow> path_arena \<Rightarrow> task \<Rightarrow> verdict \<Rightarrow> bool" where
  "ends nodes ps t x \<longleftrightarrow>
     (\<forall>ex ts rs. \<exists>n ex' r. execs nodes n (mk (t # ts) rs (ps @ ex)) (mk ts (r # rs) (ps @ ex @ ex'))
        \<and> verdict_rel (ps @ ex @ ex') r x)"

lemma ends_append: "ends nodes ps t x \<Longrightarrow> ends nodes (ps @ ex) t x"
  unfolding ends_def by (metis append.assoc)

lemma ends_list:
  assumes "list_all2 (ends nodes ps) tasks xs"
  shows "\<exists>n ex' rs'. execs nodes n (mk (tasks @ ts) rs (ps @ ex)) (mk ts (rev rs' @ rs) (ps @ ex @ ex'))
    \<and> list_all2 (verdict_rel (ps @ ex @ ex')) rs' xs"
  using assms
proof (induction tasks xs arbitrary: ex rs rule: list_all2_induct)
  case Nil
  have "execs nodes 0 (mk ([] @ ts) rs (ps @ ex)) (mk ts (rev [] @ rs) (ps @ ex @ []))" by simp
  then show ?case by blast
next
  case (Cons t tasks x xs)
  obtain n ex1 r where 1: "execs nodes n (mk (t # tasks @ ts) rs (ps @ ex)) (mk (tasks @ ts) (r # rs) (ps @ ex @ ex1))"
    "verdict_rel (ps @ ex @ ex1) r x"
    using Cons.hyps(1) unfolding ends_def by blast
  obtain k ex2 rs' where 2: "execs nodes k (mk (tasks @ ts) (r # rs) (ps @ ex @ ex1)) (mk ts (rev rs' @ r # rs) (ps @ (ex @ ex1) @ ex2))"
    "list_all2 (verdict_rel (ps @ (ex @ ex1) @ ex2)) rs' xs"
    using Cons.IH [of "r # rs" "ex @ ex1"] by auto
  have "execs nodes (n + k) (mk ((t # tasks) @ ts) rs (ps @ ex)) (mk ts (rev (r # rs') @ rs) (ps @ ex @ (ex1 @ ex2)))"
    using execs_trans [OF 1(1) 2(1)] by simp
  moreover have "list_all2 (verdict_rel (ps @ ex @ (ex1 @ ex2))) (r # rs') (x # xs)"
    using 2(2) verdict_rel_append [OF 1(2), of ex2] by simp
  ultimately show ?case by blast
qed

text \<open>Tasks that end, followed by the collection of their results.\<close>

lemma ends_collect:
  assumes "list_all2 (ends nodes ps) tasks xs" and "path_at ps path p"
    and "f = \<lparr>f_path = path, f_schema = s, f_keyword = keyword\<rparr>"
  shows "\<exists>n ex' r. execs nodes n (mk (tasks @ TCollect combination (length tasks) f # ts) rs (ps @ ex))
      (mk ts (r # rs) (ps @ ex @ ex'))
    \<and> verdict_rel (ps @ ex @ ex') r (collect combination xs (p, s, keyword))"
proof -
  obtain n ex' rs' where run: "execs nodes n (mk (tasks @ TCollect combination (length tasks) f # ts) rs (ps @ ex))
      (mk (TCollect combination (length tasks) f # ts) (rev rs' @ rs) (ps @ ex @ ex'))"
    and rel: "list_all2 (verdict_rel (ps @ ex @ ex')) rs' xs"
    using ends_list [OF assms(1)] by blast
  have len: "length rs' = length tasks"
    using rel assms(1) by (metis list_all2_lengthD)
  have "execs nodes 1 (mk (TCollect combination (length tasks) f # ts) (rev rs' @ rs) (ps @ ex @ ex'))
      (mk ts (collect combination rs' f # rs) (ps @ ex @ ex'))"
    by (simp add: collect_step_def push_result_def len [symmetric])
  with run have "execs nodes (n + 1) (mk (tasks @ TCollect combination (length tasks) f # ts) rs (ps @ ex))
      (mk ts (collect combination rs' f # rs) (ps @ ex @ ex'))"
    using execs_trans by blast
  moreover have "verdict_rel (ps @ ex @ ex') (collect combination rs' f) (collect combination xs (p, s, keyword))"
    using assms(2,3) rel by (intro verdict_rel_collect) (auto intro: path_at_append)
  ultimately show ?thesis by blast
qed

text \<open>A task that is replaced by other tasks and the collection of their results.\<close>

lemma ends_replaced:
  assumes step: "\<And>ex ts rs. task_step nodes t (mk ts rs (ps @ ex)) =
      Ok (mk (tasks ex @ TCollect combination (length (tasks ex)) \<lparr>f_path = path, f_schema = s, f_keyword = keyword\<rparr> # ts)
            rs (ps @ ex @ new ex))"
    and children: "\<And>ex. list_all2 (ends nodes (ps @ ex @ new ex)) (tasks ex) xs"
    and path: "path_at ps path p"
  shows "ends nodes ps t (collect combination xs (p, s, keyword))"
  unfolding ends_def
proof (intro allI)
  fix ex ts rs
  let ?f = "\<lparr>f_path = path, f_schema = s, f_keyword = keyword\<rparr>"
  have "path_at (ps @ ex @ new ex) path p" using path by (rule path_at_append)
  from ends_collect [OF children this refl [of ?f], where ex = "[]" and combination = combination and ts = ts and rs = rs]
  obtain n ex' r where run: "execs nodes n (mk (tasks ex @ TCollect combination (length (tasks ex)) ?f # ts) rs (ps @ ex @ new ex))
      (mk ts (r # rs) (ps @ ex @ new ex @ ex'))"
    and rel: "verdict_rel (ps @ ex @ new ex @ ex') r (collect combination xs (p, s, keyword))"
    by auto
  from execs_step [OF step run] rel
  show "\<exists>n ex' r. execs nodes n (mk (t # ts) rs (ps @ ex)) (mk ts (r # rs) (ps @ ex @ ex'))
      \<and> verdict_rel (ps @ ex @ ex') r (collect combination xs (p, s, keyword))"
    by blast
qed

lemma ends_at_once:
  assumes "\<And>ex ts rs. task_step nodes t (mk ts rs (ps @ ex)) = Ok (mk ts (r # rs) (ps @ ex))"
    and "verdict_rel ps r x"
  shows "ends nodes ps t x"
  unfolding ends_def
proof (intro allI)
  fix ex ts rs
  have "execs nodes 1 (mk (t # ts) rs (ps @ ex)) (mk ts (r # rs) (ps @ ex @ []))" using assms(1) by simp
  moreover have "verdict_rel (ps @ ex @ []) r x" using assms(2) by (simp add: verdict_rel_append)
  ultimately show "\<exists>n ex' r. execs nodes n (mk (t # ts) rs (ps @ ex)) (mk ts (r # rs) (ps @ ex @ ex'))
      \<and> verdict_rel (ps @ ex @ ex') r x" by blast
qed

text \<open>A node verdict the machine reaches from any task for it.\<close>

definition node_ends :: "schema_node list \<Rightarrow> nat \<Rightarrow> jvalue \<Rightarrow> string list \<Rightarrow> verdict \<Rightarrow> bool" where
  "node_ends nodes nid v p x \<longleftrightarrow> (\<forall>ps i. path_at ps i p \<longrightarrow> ends nodes ps (TNode nid v i) x)"

lemma path_at_new:
  "path_at ps path p \<Longrightarrow> path_at (ps @ (path, segment) # ex) (length ps) (p @ [segment])"
  by (rule path_at.child [where j = path]) (auto intro: path_at_append dest: path_at_bound)

lemma object_checks_ends:
  assumes "list_all2 (\<lambda>m x. node_ends nodes (fst (snd m)) (snd (snd m)) (p @ [escape_pointer (fst m)]) x)
      (selected_members properties additional mems) xs"
    and "path_at ps path p"
  shows "\<exists>new. snd (object_checks properties additional path mems ps) = ps @ new
    \<and> list_all2 (ends nodes (ps @ new)) (fst (object_checks properties additional path mems ps)) xs"
  using assms
proof (induction mems arbitrary: ps xs)
  case Nil
  then show ?case by (simp add: selected_members_def)
next
  case (Cons m mems)
  obtain key child where m: "m = (key, child)" by (cases m)
  show ?case
  proof (cases "select_property properties additional key")
    case None
    with Cons m show ?thesis by (simp add: selected_members_def)
  next
    case (Some nid)
    let ?ps = "ps @ [(path, escape_pointer key)]"
    from Cons.prems(1) m Some obtain x ys where xs: "xs = x # ys"
      and x: "node_ends nodes nid child (p @ [escape_pointer key]) x"
      and ys: "list_all2 (\<lambda>m x. node_ends nodes (fst (snd m)) (snd (snd m)) (p @ [escape_pointer (fst m)]) x)
        (selected_members properties additional mems) ys"
      by (auto simp: selected_members_def list_all2_Cons1)
    from Cons.IH [OF ys, of ?ps] Cons.prems(2) obtain new
      where "snd (object_checks properties additional path mems ?ps) = ?ps @ new"
        "list_all2 (ends nodes (?ps @ new)) (fst (object_checks properties additional path mems ?ps)) ys"
      by (auto intro: path_at_append)
    moreover have "ends nodes (ps @ (path, escape_pointer key) # new) (TNode nid child (length ps)) x"
      using x path_at_new [OF Cons.prems(2)] by (simp add: node_ends_def)
    ultimately show ?thesis
      using Some m xs by (auto simp: split_beta Let_def)
  qed
qed

lemma item_fold_ends:
  assumes "foldl (\<lambda>(ts, ps) (index, child). (TNode nid child (length ps) # ts, ps @ [(path, nat_to_string index)]))
      (ts0, ps) es = (ts, ps')"
    and "list_all2 (ends nodes ps) ts0 xs0" and "path_at ps path p"
    and "list_all2 (\<lambda>e x. node_ends nodes nid (snd e) (p @ [nat_to_string (fst e)]) x) es xs"
  shows "\<exists>new. ps' = ps @ new \<and> list_all2 (ends nodes ps') ts (rev xs @ xs0)"
  using assms
proof (induction es arbitrary: ts0 ps xs0 xs)
  case Nil
  then show ?case by auto
next
  case (Cons e es)
  obtain index child where e: "e = (index, child)" by (cases e)
  let ?ps = "ps @ [(path, nat_to_string index)]"
  from Cons.prems(4) e obtain x ys where xs: "xs = x # ys"
    and x: "node_ends nodes nid child (p @ [nat_to_string index]) x"
    and ys: "list_all2 (\<lambda>e x. node_ends nodes nid (snd e) (p @ [nat_to_string (fst e)]) x) es ys"
    by (auto simp: list_all2_Cons1)
  have "list_all2 (ends nodes ?ps) (TNode nid child (length ps) # ts0) (x # xs0)"
    using x path_at_new [OF Cons.prems(3), of _ "[]"] Cons.prems(2)
    by (auto simp: node_ends_def intro: list_all2_mono ends_append)
  from Cons.IH [OF _ this _ ys, of ] Cons.prems(1,3) e xs show ?case
    by (auto intro: path_at_append)
qed

lemma item_tasks_ends:
  assumes "list_all2 (\<lambda>e x. node_ends nodes nid (snd e) (p @ [nat_to_string (fst e)]) x) (enumerate 0 vs) xs"
    and "path_at ps path p"
  shows "\<exists>new. snd (item_tasks nid path vs ps) = ps @ new
    \<and> list_all2 (ends nodes (ps @ new)) (fst (item_tasks nid path vs ps)) xs"
proof -
  obtain ts ps' where r: "item_tasks nid path vs ps = (ts, ps')" by (cases "item_tasks nid path vs ps")
  have "list_all2 (\<lambda>e x. node_ends nodes nid (snd e) (p @ [nat_to_string (fst e)]) x) (rev (enumerate 0 vs)) (rev xs)"
    using assms(1) by simp
  from item_fold_ends [OF r [unfolded item_tasks_def] _ assms(2) this] r show ?thesis by auto
qed

lemma rule_step_simple:
  "is_simple rule v \<Longrightarrow> simple_check rule v = Ok accepted \<Longrightarrow>
     rule_step rule v path schema m =
       Ok (push_result (if accepted then Ok ()
         else Err \<lparr>f_path = path, f_schema = schema, f_keyword = rule_keyword rule\<rparr>) m)"
  by (cases rule; cases v) (simp_all add: rule_step_def Let_def)

lemma rule_step_branches:
  "rule_branches rule = Some (combination, children) \<Longrightarrow>
     rule_step rule v path schema m =
       Ok (push_tasks (map (\<lambda>nid. TNode nid v path) children
         @ [TCollect combination (length children)
              \<lparr>f_path = path, f_schema = schema, f_keyword = rule_keyword rule\<rparr>]) m)"
  by (cases rule) (simp_all add: rule_step_def Let_def)

lemma array_step_fault:
  "array_fault minimum maximum unique vs = Some keyword \<Longrightarrow>
     array_step items minimum maximum unique vs path fails m = push_result (Err (fails keyword)) m"
  by (simp add: array_fault_def array_step_def split: if_splits)

lemma array_step_no_fault:
  "array_fault minimum maximum unique vs = None \<Longrightarrow>
     array_step items minimum maximum unique vs path fails m =
       (case items of
          None \<Rightarrow> push_result (Ok ()) m
        | Some selected \<Rightarrow>
            (let (ts, paths) = item_tasks selected path vs (m_paths m)
             in push_tasks (ts @ [TCollect CAll (length vs) (fails ''items'')]) m\<lparr>m_paths := paths\<rparr>))"
  by (auto simp: array_fault_def array_step_def split: if_splits)

text \<open>A conditional: the condition's verdict is popped and selects the next task.\<close>

lemma ends_conditional:
  assumes "ends nodes ps (TNode condition v i) c"
    and next_step: "\<And>ex r ts rs. verdict_rel (ps @ ex) r c \<Longrightarrow>
      conditional_step consequence alternative v i (mk ts (r # rs) (ps @ ex)) = Ok (mk (after @ ts) (got @ rs) (ps @ ex))"
    and rest: "after = [t] \<and> got = [] \<and> ends nodes ps t x \<or> after = [] \<and> got = [Ok ()] \<and> x = Ok ()"
  shows "ends nodes ps (TRule (RConditional condition consequence alternative) v i s) x"
  unfolding ends_def
proof (intro allI)
  fix ex ts rs
  let ?c = "TConditional consequence alternative v i"
  obtain n ex1 r where run: "execs nodes n (mk (TNode condition v i # ?c # ts) rs (ps @ ex)) (mk (?c # ts) (r # rs) (ps @ ex @ ex1))"
    and rel: "verdict_rel (ps @ ex @ ex1) r c"
    using assms(1) unfolding ends_def by blast
  have first: "task_step nodes (TRule (RConditional condition consequence alternative) v i s) (mk ts rs (ps @ ex))
      = Ok (mk (TNode condition v i # ?c # ts) rs (ps @ ex))"
    by (simp add: rule_step_def push_tasks_def Let_def)
  have "execs nodes 1 (mk (?c # ts) (r # rs) (ps @ ex @ ex1)) (mk (after @ ts) (got @ rs) (ps @ ex @ ex1))"
    using next_step [of "ex @ ex1"] rel by simp
  from execs_step [OF first execs_trans [OF run this]]
  have start: "execs nodes (Suc (n + 1)) (mk (TRule (RConditional condition consequence alternative) v i s # ts) rs (ps @ ex))
      (mk (after @ ts) (got @ rs) (ps @ ex @ ex1))" .
  from rest show "\<exists>n ex' r. execs nodes n (mk (TRule (RConditional condition consequence alternative) v i s # ts) rs (ps @ ex))
        (mk ts (r # rs) (ps @ ex @ ex')) \<and> verdict_rel (ps @ ex @ ex') r x"
  proof
    assume "after = [] \<and> got = [Ok ()] \<and> x = Ok ()"
    then have "execs nodes (Suc (n + 1)) (mk (TRule (RConditional condition consequence alternative) v i s # ts) rs (ps @ ex))
        (mk ts (Ok () # rs) (ps @ ex @ ex1)) \<and> verdict_rel (ps @ ex @ ex1) (Ok ()) x"
      using start by (simp del: execs.simps)
    then show ?thesis by blast
  next
    assume after: "after = [t] \<and> got = [] \<and> ends nodes ps t x"
    then obtain k ex2 r' where "execs nodes k (mk (t # ts) rs (ps @ (ex @ ex1))) (mk ts (r' # rs) (ps @ (ex @ ex1) @ ex2))"
      "verdict_rel (ps @ (ex @ ex1) @ ex2) r' x"
      unfolding ends_def by blast
    moreover from this start after
    have "execs nodes (Suc (n + 1) + k) (mk (TRule (RConditional condition consequence alternative) v i s # ts) rs (ps @ ex))
      (mk ts (r' # rs) (ps @ (ex @ ex1) @ ex2))"
      by (intro execs_trans [OF start]) simp
    ultimately show ?thesis by (metis append.assoc)
  qed
qed

lemma rules_end:
  "list_all2 (\<lambda>rule x. \<forall>ps i. path_at ps i p \<longrightarrow> ends nodes ps (TRule rule v i s) x) rules xs \<Longrightarrow> path_at ps i p
   \<Longrightarrow> list_all2 (ends nodes ps) (map (\<lambda>rule. TRule rule v i s) rules) xs"
  by (simp add: list.rel_map) (erule list_all2_mono, blast)

lemma nodes_end:
  "list_all2 (\<lambda>nid x. node_ends nodes nid v p x) children xs \<Longrightarrow> path_at ps i p
   \<Longrightarrow> list_all2 (ends nodes ps) (map (\<lambda>nid. TNode nid v i) children) xs"
  by (simp add: list.rel_map) (erule list_all2_mono, simp add: node_ends_def)

lemma verdict_reached:
  shows "node_verdict nodes nid v p x \<Longrightarrow> node_ends nodes nid v p x"
    and "rule_verdict nodes s rule v p x \<Longrightarrow> \<forall>ps i. path_at ps i p \<longrightarrow> ends nodes ps (TRule rule v i s) x"
proof (induction rule: node_verdict_rule_verdict.inducts)
  case (node nid node v p xs)
  show ?case unfolding node_ends_def
  proof (intro allI impI)
    fix ps i assume path: "path_at ps i p"
    let ?tasks = "map (\<lambda>rule. TRule rule v i (sn_path node)) (sn_rules node)"
    have rules: "list_all2 (\<lambda>rule x. \<forall>ps i. path_at ps i p \<longrightarrow> ends nodes ps (TRule rule v i (sn_path node)) x) (sn_rules node) xs"
      using node(3) by (rule list_all2_mono) blast
    show "ends nodes ps (TNode nid v i) (collect CAll xs (p, sn_path node, ''''))"
      by (rule ends_replaced [where tasks = "\<lambda>_. ?tasks" and new = "\<lambda>_. []", OF _ _ path])
         (use node(1,2) rules_end [OF rules path_at_append [OF path]] in \<open>auto simp: push_tasks_def\<close>)
  qed
next
  case (simple rule v accepted s p)
  show ?case
    by (intro allI impI ends_at_once) (use simple in \<open>auto simp: rule_step_simple push_result_def\<close>)
next
  case (ref nid v p x s)
  show ?case unfolding ends_def
  proof (intro allI impI)
    fix ps i ex ts rs assume "path_at ps i p"
    then obtain n ex' r where "execs nodes n (mk (TNode nid v i # ts) rs (ps @ ex)) (mk ts (r # rs) (ps @ ex @ ex'))"
      "verdict_rel (ps @ ex @ ex') r x"
      using ref(2) unfolding node_ends_def ends_def by blast
    moreover have "task_step nodes (TRule (RRef nid) v i s) (mk ts rs (ps @ ex)) = Ok (mk (TNode nid v i # ts) rs (ps @ ex))"
      by (simp add: rule_step_def push_tasks_def Let_def)
    ultimately show "\<exists>n ex' r. execs nodes n (mk (TRule (RRef nid) v i s # ts) rs (ps @ ex)) (mk ts (r # rs) (ps @ ex @ ex'))
        \<and> verdict_rel (ps @ ex @ ex') r x"
      using execs_step by blast
  qed
next
  case (branches rule combination children v p xs s)
  show ?case
  proof (intro allI impI)
    fix ps i assume path: "path_at ps i p"
    have nodes: "list_all2 (\<lambda>nid x. node_ends nodes nid v p x) children xs"
      using branches(2) by (rule list_all2_mono) blast
    show "ends nodes ps (TRule rule v i s) (collect combination xs (p, s, rule_keyword rule))"
      by (rule ends_replaced [where tasks = "\<lambda>_. map (\<lambda>nid. TNode nid v i) children" and new = "\<lambda>_. []", OF _ _ path])
         (use nodes_end [OF nodes path_at_append [OF path]] in \<open>auto simp: rule_step_branches [OF branches(1)] push_tasks_def\<close>)
  qed
next
  case (consequence condition v p c consequence x s alternative)
  show ?case
  proof (intro allI impI)
    fix ps i assume "path_at ps i p"
    with consequence show "ends nodes ps (TRule (RConditional condition consequence alternative) v i s) x"
      by (intro ends_conditional [where c = c and after = "[TNode consequence v i]" and got = "[]" and t = "TNode consequence v i"])
         (auto simp: node_ends_def conditional_step_def push_tasks_def Let_def dest: verdict_rel_is_ok)
  qed
next
  case (alternative condition v p c other x s consequence)
  show ?case
  proof (intro allI impI)
    fix ps i assume "path_at ps i p"
    with alternative show "ends nodes ps (TRule (RConditional condition consequence (Some other)) v i s) x"
      by (intro ends_conditional [where c = c and after = "[TNode other v i]" and got = "[]" and t = "TNode other v i"])
         (auto simp: node_ends_def conditional_step_def push_tasks_def Let_def dest: verdict_rel_is_ok)
  qed
next
  case (no_alternative condition v p c s consequence)
  show ?case
  proof (intro allI impI)
    fix ps i assume "path_at ps i p"
    with no_alternative show "ends nodes ps (TRule (RConditional condition consequence None) v i s) (Ok ())"
      by (intro ends_conditional [where c = c and after = "[]" and got = "[Ok ()]"])
         (auto simp: node_ends_def conditional_step_def push_result_def Let_def dest: verdict_rel_is_ok)
  qed
next
  case (array_fault minimum maximum unique vs keyword s items p)
  show ?case
    by (intro allI impI ends_at_once)
       (use array_fault in \<open>auto simp: rule_step_def array_step_fault push_result_def Let_def\<close>)
next
  case (array_free minimum maximum unique vs s p)
  show ?case
    by (intro allI impI ends_at_once)
       (use array_free in \<open>auto simp: rule_step_def array_step_no_fault push_result_def Let_def\<close>)
next
  case (object p properties additional mems xs s required)
  show ?case
  proof (intro allI impI)
    fix ps i assume path: "path_at ps i p"
    let ?missing = "if misses_required required mems then [TFailed \<lparr>f_path = i, f_schema = s, f_keyword = ''required''\<rparr>] else []"
    let ?checks = "\<lambda>ps. object_checks properties additional i mems ps"
    have members: "list_all2 (\<lambda>m x. node_ends nodes (fst (snd m)) (snd (snd m)) (p @ [escape_pointer (fst m)]) x)
        (selected_members properties additional mems) xs"
      using object by (rule list_all2_mono) blast
    define new where "new = (\<lambda>ex. drop (length (ps @ ex)) (snd (?checks (ps @ ex))))"
    have children: "snd (?checks (ps @ ex)) = ps @ ex @ new ex
        \<and> list_all2 (ends nodes (ps @ ex @ new ex)) (fst (?checks (ps @ ex))) xs" for ex
      using object_checks_ends [OF members path_at_append [OF path], of ex] by (auto simp: new_def)
    have missing: "list_all2 (ends nodes ps') ?missing
        (if misses_required required mems then [Err (p, s, ''required'')] else [])" if "path_at ps' i p" for ps'
      using that by (auto intro!: ends_at_once simp: push_result_def)
    show "ends nodes ps (TRule (RObject properties required additional) (JObject mems) i s)
        (collect CAll ((if misses_required required mems then [Err (p, s, ''required'')] else []) @ xs) (p, s, ''''))"
    proof (rule ends_replaced [where tasks = "\<lambda>ex. ?missing @ fst (?checks (ps @ ex))" and new = new, OF _ _ path])
      show "list_all2 (ends nodes (ps @ ex @ new ex)) (?missing @ fst (?checks (ps @ ex)))
          ((if misses_required required mems then [Err (p, s, ''required'')] else []) @ xs)" for ex
        using missing [OF path_at_append [OF path]] children by (intro list_all2_appendI) auto
    qed (use children in \<open>auto simp: rule_step_def object_step_def push_tasks_def Let_def split_beta\<close>)
  qed
next
  case (array_items minimum maximum unique vs nid p xs s)
  show ?case
  proof (intro allI impI)
    fix ps i assume path: "path_at ps i p"
    have items: "list_all2 (\<lambda>e x. node_ends nodes nid (snd e) (p @ [nat_to_string (fst e)]) x) (enumerate 0 vs) xs"
      using array_items(2) by (rule list_all2_mono) blast
    let ?items = "\<lambda>ps. item_tasks nid i vs ps"
    define new where "new = (\<lambda>ex. drop (length (ps @ ex)) (snd (?items (ps @ ex))))"
    have children: "snd (?items (ps @ ex)) = ps @ ex @ new ex
        \<and> list_all2 (ends nodes (ps @ ex @ new ex)) (fst (?items (ps @ ex))) xs" for ex
      using item_tasks_ends [OF items path_at_append [OF path], of ex] by (auto simp: new_def)
    have len: "length (fst (?items (ps @ ex))) = length vs" for ex
      using list_all2_lengthD [OF conjunct2 [OF children [of ex]]] list_all2_lengthD [OF items] by simp
    have step: "task_step nodes (TRule (RArray (Some nid) minimum maximum unique) (JArray vs) i s) (mk ts rs (ps @ ex)) =
        Ok (mk (fst (?items (ps @ ex)) @ TCollect CAll (length (fst (?items (ps @ ex))))
              \<lparr>f_path = i, f_schema = s, f_keyword = ''items''\<rparr> # ts) rs (ps @ ex @ new ex))" for ex ts rs
      using array_items(1) children [of ex]
      by (simp add: rule_step_def array_step_no_fault push_tasks_def Let_def split_beta len)
    show "ends nodes ps (TRule (RArray (Some nid) minimum maximum unique) (JArray vs) i s)
        (collect CAll xs (p, s, ''items''))"
      by (rule ends_replaced [where tasks = "\<lambda>ex. fst (?items (ps @ ex))" and new = new, OF step _ path])
         (use children in blast)
  qed
qed

section \<open>Validation computes the verdict\<close>

lemma report_verdict: "verdict_rel ps r x \<Longrightarrow> report (mk [] (r # rs) ps) = outcome x"
proof (induction ps r x rule: verdict_rel.induct)
  case (2 ps f p s keyword)
  then show ?case
    using path_walk_at [of ps "f_path f" p "length ps" "[]"] path_at_bound [of ps "f_path f" p]
    by (simp add: report_def)
qed (simp_all add: report_def)

lemma schema_validate_verdict:
  assumes "node_verdict nodes start v [] x"
  shows "\<exists>n. \<forall>operations. schema_validate nodes start v operations =
    (if operations < n then Err (Invalid (SchemaOperations operations)) else outcome x)"
proof -
  have "path_at [(0, '''')] 0 []" by (rule path_at.root) simp
  with verdict_reached(1) [OF assms] have "ends nodes [(0, '''')] (TNode start v 0) x"
    by (simp add: node_ends_def)
  from this [unfolded ends_def, rule_format, of "[]" "[]" "[]"]
  obtain n ex r where run: "execs nodes n (mk [TNode start v 0] [] [(0, '''')]) (mk [] [r] ((0, '''') # ex))"
    and rel: "verdict_rel ((0, '''') # ex) r x"
    by auto
  have "schema_validate nodes start v operations =
    (if operations < n then Err (Invalid (SchemaOperations operations)) else outcome x)" for operations
  proof (cases "operations < n")
    case True
    then show ?thesis using task_loop_short [OF run True] by (simp add: schema_validate_def)
  next
    case False
    then have "task_loop nodes operations operations (mk [TNode start v 0] [] [(0, '''')]) = Ok (mk [] [r] ((0, '''') # ex))"
      using task_loop_execs [OF run, of operations "operations - n"] by (simp add: task_loop.simps)
    with False show ?thesis by (simp add: schema_validate_def report_verdict [OF rel])
  qed
  then show ?thesis by blast
qed

section \<open>Schemas without a cycle on one value have a verdict\<close>

text \<open>The nodes a rule applies to the same value, those it applies to parts of it, and the numeric
  literals it parses.\<close>

fun rule_same :: "rule \<Rightarrow> nat list" where
  "rule_same (RRef nid) = [nid]"
| "rule_same (RAllOf children) = children"
| "rule_same (RAnyOf children) = children"
| "rule_same (ROneOf children) = children"
| "rule_same (RConditional condition consequence alternative) =
     [condition, consequence] @ (case alternative of None \<Rightarrow> [] | Some other \<Rightarrow> [other])"
| "rule_same _ = []"

fun rule_down :: "rule \<Rightarrow> nat list" where
  "rule_down (RObject properties required additional) =
     map snd properties @ (case additional of Allow \<Rightarrow> [] | AdditionalSchema nid \<Rightarrow> [nid])"
| "rule_down (RArray items _ _ _) = (case items of None \<Rightarrow> [] | Some nid \<Rightarrow> [nid])"
| "rule_down _ = []"

fun literal_tokens :: "literal \<Rightarrow> string list" where
  "literal_tokens (LNumber token) = [token]"
| "literal_tokens _ = []"

fun rule_tokens :: "rule \<Rightarrow> string list" where
  "rule_tokens (RMinimum token) = [token]"
| "rule_tokens (RMaximum token) = [token]"
| "rule_tokens (RConst literal) = literal_tokens literal"
| "rule_tokens (REnum literals) = concat (map literal_tokens literals)"
| "rule_tokens _ = []"

definition rule_closed :: "nat \<Rightarrow> rule \<Rightarrow> bool" where
  "rule_closed n rule \<longleftrightarrow>
     list_all (\<lambda>nid. nid < n) (rule_same rule) \<and> list_all (\<lambda>nid. nid < n) (rule_down rule)
     \<and> list_all (\<lambda>token. is_ok (json_number_parse token)) (rule_tokens rule)"

definition schema_closed :: "schema_node list \<Rightarrow> bool" where
  "schema_closed nodes \<longleftrightarrow> list_all (\<lambda>node. list_all (rule_closed (length nodes)) (sn_rules node)) nodes"

definition same_edges :: "schema_node list \<Rightarrow> (nat \<times> nat) set" where
  "same_edges nodes = {(i, j). i < length nodes \<and> (\<exists>rule \<in> set (sn_rules (nodes ! i)). j \<in> set (rule_same rule))}"

lemma list_all2_choice: "(\<And>a. a \<in> set as \<Longrightarrow> \<exists>x. P a x) \<Longrightarrow> \<exists>xs. list_all2 P as xs"
proof (induction as)
  case (Cons a as)
  then obtain x xs where "P a x" "list_all2 P as xs" by (metis list.set_intros)
  then have "list_all2 P (a # as) (x # xs)" by simp
  then show ?case by blast
qed (auto intro: exI [of _ "[]"])

lemma literal_matches_total:
  "list_all (\<lambda>token. is_ok (json_number_parse token)) (literal_tokens literal) \<Longrightarrow> \<exists>b. literal_matches literal v = Ok b"
  by (induction literal v rule: literal_matches.induct) (auto simp: definition_number_def is_ok_iff)

lemma foldR_total: "(\<And>s a. a \<in> set as \<Longrightarrow> \<exists>t. f s a = Ok t) \<Longrightarrow> \<exists>t. foldR f s as = Ok t"
  by (induction as arbitrary: s) (simp, metis foldR.simps(2) bindR.simps(1) list.set_intros)

lemma simple_check_total:
  assumes "rule_closed n rule"
  shows "\<exists>accepted. simple_check rule v = Ok accepted"
  using assms
proof (cases rule)
  case (REnum literals)
  have "\<exists>t. foldR (\<lambda>matched literal. bindR (literal_matches literal v) (\<lambda>b. Ok (matched \<or> b))) False literals = Ok t"
  proof (rule foldR_total)
    fix matched literal assume "literal \<in> set literals"
    then have "list_all (\<lambda>token. is_ok (json_number_parse token)) (literal_tokens literal)"
      using assms REnum by (auto simp: rule_closed_def list_all_iff)
    then show "\<exists>t. bindR (literal_matches literal v) (\<lambda>b. Ok (matched \<or> b)) = Ok t"
      using literal_matches_total by fastforce
  qed
  with REnum show ?thesis by simp
qed (auto simp: rule_closed_def compare_bound_def definition_number_def is_ok_iff literal_matches_total split: jvalue.splits)

text \<open>Every rule has a verdict when the nodes it applies have one: those on the same value, and those on
  smaller values.\<close>

lemma select_property_down:
  "select_property properties additional key = Some nid \<Longrightarrow> nid \<in> set (rule_down (RObject properties required additional))"
  by (auto simp: select_property_def find_Some_iff split: option.splits additional.splits)
     (metis nth_mem image_eqI snd_conv)

lemma rule_verdict_exists:
  assumes closed: "rule_closed (length nodes) rule"
    and same: "\<And>nid p. nid \<in> set (rule_same rule) \<Longrightarrow> \<exists>x. node_verdict nodes nid v p x"
    and down: "\<And>nid w p. nid < length nodes \<Longrightarrow> jsize w < jsize v \<Longrightarrow> \<exists>x. node_verdict nodes nid w p x"
  shows "\<exists>x. rule_verdict nodes s rule v p x"
proof -
  have below: "nid < length nodes" if "nid \<in> set (rule_down rule)" for nid
    using closed that by (simp add: rule_closed_def list_all_iff)
  consider (simple) "is_simple rule v" | (branches) c children where "rule_branches rule = Some (c, children)"
    | (ref) nid where "rule = RRef nid"
    | (conditional) a b alt where "rule = RConditional a b alt"
    | (object) ps req add mems where "rule = RObject ps req add" "v = JObject mems"
    | (array) items lo hi uniq vs where "rule = RArray items lo hi uniq" "v = JArray vs"
    by (cases rule) (auto split: if_splits)
  then show ?thesis
  proof cases
    case simple
    then show ?thesis using simple_check_total [OF closed] node_verdict_rule_verdict.simple by blast
  next
    case branches
    then have "set children = set (rule_same rule)" by (cases rule) auto
    then have "\<exists>xs. list_all2 (\<lambda>nid x. node_verdict nodes nid v p x) children xs"
      using same by (intro list_all2_choice) blast
    then show ?thesis using branches node_verdict_rule_verdict.branches by blast
  next
    case ref
    then show ?thesis using same node_verdict_rule_verdict.ref by fastforce
  next
    case conditional
    then obtain c x where c: "node_verdict nodes a v p c" and x: "node_verdict nodes b v p x"
      using same [of a p] same [of b p] by auto
    show ?thesis
    proof (cases "is_ok c")
      case True
      then show ?thesis using node_verdict_rule_verdict.consequence [OF c True x] conditional by blast
    next
      case False
      show ?thesis
      proof (cases alt)
        case None
        then show ?thesis using node_verdict_rule_verdict.no_alternative [OF c False] conditional by blast
      next
        case (Some other)
        then obtain y where "node_verdict nodes other v p y"
          using same [of other p] conditional by auto
        from node_verdict_rule_verdict.alternative [OF c False this] show ?thesis using conditional Some by blast
      qed
    qed
  next
    case object
    have "\<exists>xs. list_all2 (\<lambda>m x. node_verdict nodes (fst (snd m)) (snd (snd m)) (p @ [escape_pointer (fst m)]) x)
        (selected_members ps add mems) xs"
    proof (rule list_all2_choice)
      fix m assume "m \<in> set (selected_members ps add mems)"
      then obtain key child where m: "(key, child) \<in> set mems" "m = (key, fst (snd m), child)"
        "select_property ps add key = Some (fst (snd m))"
        by (auto simp: selected_members_def split: option.splits)
      then have "fst (snd m) < length nodes" "jsize child < jsize v"
        using below object select_property_down jsize_object_member by fastforce+
      with m show "\<exists>x. node_verdict nodes (fst (snd m)) (snd (snd m)) (p @ [escape_pointer (fst m)]) x"
        using down by (metis snd_conv)
    qed
    then show ?thesis using object node_verdict_rule_verdict.object by blast
  next
    case array
    show ?thesis
    proof (cases "array_fault lo hi uniq vs")
      case (Some keyword)
      then show ?thesis using array node_verdict_rule_verdict.array_fault by blast
    next
      case None
      show ?thesis
      proof (cases items)
        case None
        then show ?thesis using array \<open>array_fault lo hi uniq vs = None\<close> node_verdict_rule_verdict.array_free by blast
      next
        case (Some nid)
        have "\<exists>xs. list_all2 (\<lambda>e x. node_verdict nodes nid (snd e) (p @ [nat_to_string (fst e)]) x) (enumerate 0 vs) xs"
        proof (rule list_all2_choice)
          fix e assume "e \<in> set (enumerate 0 vs)"
          then have "snd e \<in> set vs" by (auto simp: in_set_conv_nth [of e] nth_enumerate_eq)
          then have "nid < length nodes" "jsize (snd e) < jsize v"
            using below [of nid] array Some jsize_member [of "snd e" vs] by auto
          then show "\<exists>x. node_verdict nodes nid (snd e) (p @ [nat_to_string (fst e)]) x" by (rule down)
        qed
        then show ?thesis using array Some \<open>array_fault lo hi uniq vs = None\<close> node_verdict_rule_verdict.array_items by blast
      qed
    qed
  qed
qed

lemma same_edges_closed: "schema_closed nodes \<Longrightarrow> (i, j) \<in> same_edges nodes \<Longrightarrow> j < length nodes"
  by (auto simp: schema_closed_def same_edges_def rule_closed_def list_all_iff) (meson nth_mem)

lemma same_edges_wf: "schema_closed nodes \<Longrightarrow> acyclic (same_edges nodes) \<Longrightarrow> wf ((same_edges nodes)\<inverse>)"
proof -
  assume closed: "schema_closed nodes" and "acyclic (same_edges nodes)"
  have "same_edges nodes \<subseteq> {..<length nodes} \<times> {..<length nodes}"
    using same_edges_closed [OF closed] by (auto simp: same_edges_def)
  then have "finite (same_edges nodes)" by (rule finite_subset) simp
  with \<open>acyclic (same_edges nodes)\<close> show ?thesis by (intro finite_acyclic_wf_converse)
qed

lemma node_verdict_exists:
  assumes closed: "schema_closed nodes" and acyclic: "acyclic (same_edges nodes)" and "nid < length nodes"
  shows "\<exists>x. node_verdict nodes nid v p x"
proof -
  let ?R = "inv_image (less_than <*lex*> (same_edges nodes)\<inverse>) (\<lambda>(v, nid). (jsize v, nid))"
  have "wf ?R" using same_edges_wf [OF closed acyclic] by (intro wf_inv_image wf_lex_prod) auto
  then have "snd q < length nodes \<longrightarrow> (\<forall>p. \<exists>x. node_verdict nodes (snd q) (fst q) p x)" for q
  proof (induction q rule: wf_induct_rule)
    case (less q)
    obtain v nid where q: "q = (v, nid)" by (cases q)
    show ?case
    proof (intro impI allI)
      fix p assume "snd q < length nodes"
      then have nid: "nid < length nodes" by (simp add: q)
      have "\<exists>x. rule_verdict nodes (sn_path (nodes ! nid)) rule v p x" if rule: "rule \<in> set (sn_rules (nodes ! nid))" for rule
      proof (rule rule_verdict_exists)
        show "rule_closed (length nodes) rule"
          using closed rule nid by (auto simp: schema_closed_def list_all_iff)
        show "\<exists>x. node_verdict nodes nid' v p x" if "nid' \<in> set (rule_same rule)" for nid' p
        proof -
          have e: "(nid, nid') \<in> same_edges nodes" using that rule nid by (auto simp: same_edges_def)
          then show ?thesis using less.IH [of "(v, nid')"] same_edges_closed [OF closed e] by (simp add: q)
        qed
        show "\<exists>x. node_verdict nodes nid' w p x" if "nid' < length nodes" "jsize w < jsize v" for nid' w p
          using less.IH [of "(w, nid')"] that by (simp add: q)
      qed
      then have "\<exists>xs. list_all2 (\<lambda>rule x. rule_verdict nodes (sn_path (nodes ! nid)) rule v p x) (sn_rules (nodes ! nid)) xs"
        by (rule list_all2_choice)
      then show "\<exists>x. node_verdict nodes (snd q) (fst q) p x"
        using node_verdict_rule_verdict.node [OF nid refl] by (auto simp: q)
    qed
  qed
  from this [of "(v, nid)"] assms(3) show ?thesis by simp
qed

end
