(* ===== verification/Schema_Compiler.thy ===== *)
theory Schema_Compiler
  imports Schema_Semantics
begin

text \<open>
  \<^verbatim>\<open>protocol/engine/schema_compiler.rs\<close>: the build step that turns the owned schema document into the
  node table of \<open>Schema\<close>. The code writes the table as Rust source text; the model builds the rules that
  text denotes, and a rule slot reserved for an unresolved reference (an empty text) is \<open>None\<close>. The
  texts of the refusals are enumerated by \<open>compile_cause\<close>, each paired with the schema path the code
  reports.
\<close>

section \<open>State\<close>

datatype table_cause =
    WrongDialect | MissingIdentity | WrongNamespace | WrongRevision | MissingDefinitions | UnsupportedIdentifier
  | ReservedIdentifier string | MissingEventAlternatives | MissingSystemAlternatives | MissingPartialAlternatives
  | MissingVariants | MissingDiscriminator | DuplicateDiscriminator | UnsupportedDiscriminator
  | MissingTerminalTable | NotOneTerminalTable | NotTerminalAlternatives | TerminalRowShape | TerminalRowRequired
  | TerminalRowFields | NotOneConst string | EmptyTerminalName | TerminalFlagNotBoolean | TerminalCodeRange
  | DuplicateTerminalName | NotOneSuccess | NoErrorOutcome

datatype compile_cause =
    ExpectedString | ExpectedStrings | DuplicateString | DuplicateSchemaPath | NotASchema
  | UnsupportedKeyword | UnsupportedDialect | NestedIdentity | NestedDefinitions | DefinitionsNotObject
  | ReferenceSiblings | NotLocalReference | UnsupportedPointer | InvalidPointerEscape | NoncanonicalPointer
  | EmptyTypeUnion | UnsupportedType | EnumNotArray | EnumEmpty | EnumDuplicate | BoundNotNumber
  | CountNotNumeric | CountOutOfRange unsigned_conversion_error | UnsupportedPattern | PropertiesNotObject
  | UniqueItemsNotBoolean | CombinatorNotArray | CombinatorEmpty | ConditionalIncomplete
  | CompositeLiteral | UnresolvedReference string | SchemaRecursion | IncompleteTable | IndexPanic
  | GeneratedTable table_cause

datatype compile_error = CompileError string compile_cause

record compiled_node =
  cn_path :: string
  cn_rules :: "rule option list"
  cn_same_instance :: "nat list"

record compiler =
  co_nodes :: "compiled_node list"
  co_paths :: "(string, nat) btree"
  co_references :: "(nat \<times> nat \<times> string) list"
  co_keywords :: "(string, nat) btree"
  co_object_schemas :: nat
  co_false_schemas :: nat
  co_true_schemas :: nat

section \<open>Readers of schema values\<close>

definition compile_child_path :: "string \<Rightarrow> string \<Rightarrow> string" where
  "compile_child_path path name = path @ ''/'' @ escape_pointer name"

definition schema_string :: "jvalue \<Rightarrow> string \<Rightarrow> (string, compile_error) result" where
  "schema_string v path = ok_or (as_str v) (CompileError path ExpectedString)"

definition schema_strings :: "jvalue \<Rightarrow> string \<Rightarrow> (string list, compile_error) result" where
  "schema_strings v path =
     bindR (ok_or (elements v) (CompileError path ExpectedStrings)) (\<lambda>vs.
       foldR (\<lambda>acc v. bindR (schema_string v path) (\<lambda>text.
                if text \<in> set acc then Err (CompileError path DuplicateString) else Ok (acc @ [text])))
         [] vs)"

definition schema_count :: "jvalue \<Rightarrow> string \<Rightarrow> (nat, compile_error) result" where
  "schema_count v path =
     bindR (ok_or (as_number v) (CompileError path CountNotNumeric)) (\<lambda>n.
       map_ok unat (map_err (\<lambda>cause. CompileError path (CountOutOfRange cause)) (as_unsigned n (- 1))))"

fun schema_literal :: "jvalue \<Rightarrow> string \<Rightarrow> (literal, compile_error) result" where
  "schema_literal JNull path = Ok LNull"
| "schema_literal (JBool b) path = Ok (LBool b)"
| "schema_literal (JNumber n) path = Ok (LNumber (jn_token n))"
| "schema_literal (JString text) path = Ok (LString text)"
| "schema_literal _ path = Err (CompileError path CompositeLiteral)"

definition known_keywords :: "string list" where
  "known_keywords =
     [''$schema'', ''$id'', ''definitions'', ''$ref'', ''type'', ''properties'', ''required'',
      ''additionalProperties'', ''const'', ''enum'', ''minimum'', ''maximum'', ''minLength'', ''maxLength'',
      ''pattern'', ''items'', ''minItems'', ''maxItems'', ''uniqueItems'', ''oneOf'', ''anyOf'', ''allOf'',
      ''if'', ''then'', ''else'']"

definition count_keyword :: "string \<Rightarrow> (string, nat) btree \<Rightarrow> (string, nat) btree" where
  "count_keyword keyword m =
     btree_insert keyword (Suc (case btree_get m keyword of None \<Rightarrow> 0 | Some n \<Rightarrow> n)) m"

definition check_keywords :: "string \<Rightarrow> (string \<times> jvalue) list \<Rightarrow> compiler \<Rightarrow> (compiler, compile_error) result" where
  "check_keywords path mems st =
     foldR (\<lambda>st (keyword, _).
        if keyword \<notin> set known_keywords
        then Err (CompileError (compile_child_path path keyword) UnsupportedKeyword)
        else Ok (st\<lparr>co_keywords := count_keyword keyword (co_keywords st)\<rparr>)) st mems"

definition draft07 :: string where
  "draft07 = ''http://json-schema.org/draft-07/schema#''"

definition check_identity :: "string \<Rightarrow> jvalue \<Rightarrow> (unit, compile_error) result" where
  "check_identity path v =
     bindR (case jget v ''$schema'' of
              None \<Rightarrow> Ok ()
            | Some dialect \<Rightarrow> bindR (schema_string dialect path) (\<lambda>text.
                guardR (text = draft07) (CompileError path UnsupportedDialect))) (\<lambda>_.
       guardR (\<not> (jget v ''$id'' \<noteq> None \<and> path \<noteq> [])) (CompileError path NestedIdentity))"

text \<open>The decoding of a JSON Pointer segment, \<^verbatim>\<open>~0\<close> and \<^verbatim>\<open>~1\<close>.\<close>

fun decode_pointer :: "string \<Rightarrow> string \<Rightarrow> (string, compile_error) result" where
  "decode_pointer path [] = Ok []"
| "decode_pointer path (c # cs) =
     (if c = CHR ''~'' then
        (case cs of
           d # ds \<Rightarrow>
             if d = CHR ''0'' then map_ok ((#) CHR ''~'') (decode_pointer path ds)
             else if d = CHR ''1'' then map_ok ((#) CHR ''/'') (decode_pointer path ds)
             else Err (CompileError path InvalidPointerEscape)
         | [] \<Rightarrow> Err (CompileError path InvalidPointerEscape))
      else map_ok ((#) c) (decode_pointer path cs))"

definition strip_prefix :: "string \<Rightarrow> string \<Rightarrow> string option" where
  "strip_prefix prefix text =
     (if take (length prefix) text = prefix then Some (drop (length prefix) text) else None)"

definition reference_target :: "string \<Rightarrow> (string \<times> jvalue) list \<Rightarrow> jvalue \<Rightarrow> (string, compile_error) result" where
  "reference_target path mems reference =
     (if list_ex (\<lambda>(name, _). \<not> (name = ''$ref'' \<or> name = ''$schema'')) mems
      then Err (CompileError path ReferenceSiblings)
      else bindR (schema_string reference path) (\<lambda>text.
           bindR (ok_or (strip_prefix ''#'' text) (CompileError path NotLocalReference)) (\<lambda>target.
           bindR (ok_or (strip_prefix ''/definitions/'' target) (CompileError path NotLocalReference)) (\<lambda>name.
             if name = [] \<or> CHR ''/'' \<in> set name then Err (CompileError path UnsupportedPointer)
             else bindR (decode_pointer path name) (\<lambda>decoded.
                  if escape_pointer decoded \<noteq> name then Err (CompileError path NoncanonicalPointer)
                  else Ok target)))))"

definition type_bit :: "string \<Rightarrow> u8 option" where
  "type_bit kind =
     map_of [(''null'', 1), (''boolean'', 2), (''number'', 4), (''integer'', 8), (''string'', 16),
             (''array'', 32), (''object'', 64)] kind"

definition type_rules :: "string \<Rightarrow> jvalue \<Rightarrow> (rule list, compile_error) result" where
  "type_rules path v =
     (case jget v ''type'' of
        None \<Rightarrow> Ok []
      | Some kind \<Rightarrow>
          bindR (case as_str kind of Some k \<Rightarrow> Ok [k] | None \<Rightarrow> schema_strings kind path) (\<lambda>kinds.
            if kinds = [] then Err (CompileError path EmptyTypeUnion)
            else map_ok (\<lambda>bits. [RType bits])
              (foldR (\<lambda>bits k. map_ok (or bits) (ok_or (type_bit k) (CompileError path UnsupportedType))) 0 kinds)))"

definition const_rules :: "string \<Rightarrow> jvalue \<Rightarrow> (rule list, compile_error) result" where
  "const_rules path v =
     (case jget v ''const'' of
        None \<Rightarrow> Ok []
      | Some literal \<Rightarrow> map_ok (\<lambda>l. [RConst l]) (schema_literal literal path))"

definition enum_rules :: "string \<Rightarrow> jvalue \<Rightarrow> (rule list, compile_error) result" where
  "enum_rules path v =
     (case jget v ''enum'' of
        None \<Rightarrow> Ok []
      | Some literals \<Rightarrow>
          bindR (ok_or (elements literals) (CompileError path EnumNotArray)) (\<lambda>vs.
            if vs = [] then Err (CompileError path EnumEmpty)
            else map_ok (\<lambda>ls. [REnum ls])
              (mapR (\<lambda>(index, literal).
                 if list_ex (\<lambda>w. value_eq w literal) (take index vs) then Err (CompileError path EnumDuplicate)
                 else schema_literal literal path) (enumerate 0 vs))))"

definition bound_rules :: "string \<Rightarrow> jvalue \<Rightarrow> string \<Rightarrow> (string \<Rightarrow> rule) \<Rightarrow> (rule list, compile_error) result" where
  "bound_rules path v keyword rule =
     (case jget v keyword of
        None \<Rightarrow> Ok []
      | Some bound \<Rightarrow>
          map_ok (\<lambda>n. [rule (jn_token n)]) (ok_or (as_number bound) (CompileError path BoundNotNumber)))"

definition length_rules :: "string \<Rightarrow> jvalue \<Rightarrow> string \<Rightarrow> (nat \<Rightarrow> rule) \<Rightarrow> (rule list, compile_error) result" where
  "length_rules path v keyword rule =
     (case jget v keyword of
        None \<Rightarrow> Ok []
      | Some bound \<Rightarrow> map_ok (\<lambda>n. [rule n]) (schema_count bound path))"

definition lower_hex64_text :: string where
  "lower_hex64_text = ''^[a-f0-9]{64}$''"

text \<open>The second supported pattern, with its backslashes.\<close>

definition nonblank_text :: string where
  "nonblank_text =
     (let u = [char_of (92 :: nat), CHR ''u''] in
      ''[^'' @ u @ ''0009-'' @ u @ ''000D'' @ u @ ''0020'' @ u @ ''00A0'' @ u @ ''1680'' @ u @ ''2000-'' @ u @ ''200A''
      @ u @ ''2028'' @ u @ ''2029'' @ u @ ''202F'' @ u @ ''205F'' @ u @ ''3000'' @ u @ ''FEFF]'')"

definition pattern_rules :: "string \<Rightarrow> jvalue \<Rightarrow> (rule list, compile_error) result" where
  "pattern_rules path v =
     (case jget v ''pattern'' of
        None \<Rightarrow> Ok []
      | Some pattern \<Rightarrow>
          bindR (schema_string pattern path) (\<lambda>text.
            if text = lower_hex64_text then Ok [RPattern LowerHex64]
            else if text = nonblank_text then Ok [RPattern ContainsNonblankScalar]
            else Err (CompileError (compile_child_path path ''pattern'') UnsupportedPattern)))"

text \<open>The assertions that contain no other schema, in the order of the code.\<close>

definition assertion_rules :: "string \<Rightarrow> jvalue \<Rightarrow> (rule list, compile_error) result" where
  "assertion_rules path v =
     foldR (\<lambda>acc part. map_ok (\<lambda>rules. acc @ rules) part) []
       [type_rules path v, const_rules path v, enum_rules path v,
        bound_rules path v ''minimum'' RMinimum, bound_rules path v ''maximum'' RMaximum,
        length_rules path v ''minLength'' RMinLength, length_rules path v ''maxLength'' RMaxLength,
        pattern_rules path v]"

section \<open>Compiling a schema and the schemas inside it\<close>

text \<open>The schemas a schema contains, with the paths they are compiled under.\<close>

definition definition_children :: "string \<Rightarrow> jvalue \<Rightarrow> ((string \<times> jvalue) list, compile_error) result" where
  "definition_children path v =
     (case jget v ''definitions'' of
        None \<Rightarrow> Ok []
      | Some definitions \<Rightarrow>
          if path \<noteq> [] then Err (CompileError path NestedDefinitions)
          else map_ok (map (\<lambda>(name, child). (compile_child_path (compile_child_path path ''definitions'') name, child)))
                 (ok_or (members definitions) (CompileError path DefinitionsNotObject)))"

definition property_children :: "string \<Rightarrow> jvalue \<Rightarrow> ((string \<times> jvalue) list, compile_error) result" where
  "property_children path v =
     (case jget v ''properties'' of
        None \<Rightarrow> Ok []
      | Some declared \<Rightarrow> ok_or (members declared) (CompileError path PropertiesNotObject))"

definition keyword_child :: "string \<Rightarrow> jvalue \<Rightarrow> string \<Rightarrow> (string \<times> jvalue) list" where
  "keyword_child path v keyword =
     (case jget v keyword of None \<Rightarrow> [] | Some child \<Rightarrow> [(compile_child_path path keyword, child)])"

definition branch_children :: "string \<Rightarrow> jvalue \<Rightarrow> string \<Rightarrow> ((string \<times> jvalue) list, compile_error) result" where
  "branch_children path v keyword =
     (case jget v keyword of
        None \<Rightarrow> Ok []
      | Some branches \<Rightarrow>
          map_ok (\<lambda>vs. map (\<lambda>(index, child). (path @ ''/'' @ keyword @ ''/'' @ nat_to_string index, child)) (enumerate 0 vs))
            (ok_or (elements branches) (CompileError path CombinatorNotArray)))"

lemma jget_smaller: "jget v key = Some c \<Longrightarrow> jsize c < jsize v"
proof (cases v)
  case (JObject ms)
  assume "jget v key = Some c"
  then have "(key, c) \<in> set ms" using JObject by (simp add: btree_get_map_of map_of_SomeD)
  then show ?thesis using JObject jsize_object_member by simp
qed auto

lemma members_smaller: "members v = Some ms \<Longrightarrow> (key, c) \<in> set ms \<Longrightarrow> jsize c < jsize v"
  by (cases v) (auto simp: jsize_object_member)

lemma elements_smaller: "elements v = Some vs \<Longrightarrow> c \<in> set vs \<Longrightarrow> jsize c < jsize v"
  by (cases v) (auto simp: jsize_member)

lemma enumerate_member: "(i, c) \<in> set (enumerate n vs) \<Longrightarrow> c \<in> set vs"
  by (simp add: enumerate_eq_zip) (erule set_zip_rightD)

lemma definition_children_smaller [simp]:
  "definition_children path v = Ok cs \<Longrightarrow> (p, c) \<in> set cs \<Longrightarrow> jsize c < jsize v"
  by (auto simp: definition_children_def comp_def case_prod_unfold dest!: jget_smaller jsize_object_member
      split: option.splits if_splits)

lemma property_children_smaller [simp]:
  "property_children path v = Ok cs \<Longrightarrow> (p, c) \<in> set cs \<Longrightarrow> jsize c < jsize v"
  by (auto simp: property_children_def dest!: jget_smaller jsize_object_member split: option.splits)

lemma keyword_child_smaller [simp]: "(p, c) \<in> set (keyword_child path v keyword) \<Longrightarrow> jsize c < jsize v"
  by (cases "jget v keyword") (auto simp: keyword_child_def dest: jget_smaller)

lemma branch_children_smaller [simp]:
  "branch_children path v keyword = Ok cs \<Longrightarrow> (p, c) \<in> set cs \<Longrightarrow> jsize c < jsize v"
  by (auto simp: branch_children_def dest!: jget_smaller enumerate_member jsize_member
      split: option.splits)

definition compile_children :: "(compiler \<Rightarrow> jvalue \<Rightarrow> string \<Rightarrow> (compiler \<times> nat, compile_error) result)
    \<Rightarrow> compiler \<Rightarrow> (string \<times> jvalue) list \<Rightarrow> (compiler \<times> nat list, compile_error) result" where
  "compile_children compile st cs =
     foldR (\<lambda>(st, ids) (path, child). map_ok (\<lambda>(st', nid). (st', ids @ [nid])) (compile st child path)) (st, []) cs"

lemma compile_children_cong [fundef_cong]:
  "st = st' \<Longrightarrow> cs = cs' \<Longrightarrow> (\<And>s p c. (p, c) \<in> set cs' \<Longrightarrow> f s c p = g s c p)
   \<Longrightarrow> compile_children f st cs = compile_children g st' cs'"
  unfolding compile_children_def by (rule foldR_cong) (auto split: prod.splits)

definition add_node :: "string \<Rightarrow> compiler \<Rightarrow> compiler" where
  "add_node path st =
     st\<lparr>co_paths := btree_insert path (length (co_nodes st)) (co_paths st),
        co_nodes := co_nodes st @ [\<lparr>cn_path = path, cn_rules = [], cn_same_instance = []\<rparr>]\<rparr>"

text \<open>\<^verbatim>\<open>self.nodes[id].rules.push(..)\<close> and \<^verbatim>\<open>self.nodes[id].same_instance.extend(..)\<close>, at the index the
  function added itself.\<close>

definition push_rules :: "nat \<Rightarrow> rule option list \<Rightarrow> nat list \<Rightarrow> compiler \<Rightarrow> compiler" where
  "push_rules nid rules same st =
     (let node = co_nodes st ! nid
      in st\<lparr>co_nodes := (co_nodes st)[nid :=
            node\<lparr>cn_rules := cn_rules node @ rules, cn_same_instance := cn_same_instance node @ same\<rparr>]\<rparr>)"

definition add_reference :: "nat \<Rightarrow> string \<Rightarrow> compiler \<Rightarrow> compiler" where
  "add_reference nid target st =
     push_rules nid [None] []
       (st\<lparr>co_references := co_references st @ [(nid, length (cn_rules (co_nodes st ! nid)), target)]\<rparr>)"

definition has_keyword :: "jvalue \<Rightarrow> string list \<Rightarrow> bool" where
  "has_keyword v keywords = list_ex (\<lambda>keyword. jget v keyword \<noteq> None) keywords"

definition optional_count :: "jvalue \<Rightarrow> string \<Rightarrow> string \<Rightarrow> (nat option, compile_error) result" where
  "optional_count v keyword path =
     (case jget v keyword of None \<Rightarrow> Ok None | Some bound \<Rightarrow> map_ok Some (schema_count bound path))"

definition required_names :: "string \<Rightarrow> jvalue \<Rightarrow> (string list, compile_error) result" where
  "required_names path v =
     (case jget v ''required'' of None \<Rightarrow> Ok [] | Some required \<Rightarrow> schema_strings required path)"

definition unique_items :: "string \<Rightarrow> jvalue \<Rightarrow> (bool, compile_error) result" where
  "unique_items path v =
     (case jget v ''uniqueItems'' of
        None \<Rightarrow> Ok False
      | Some flag \<Rightarrow> ok_or (as_bool flag) (CompileError path UniqueItemsNotBoolean))"

definition property_paths :: "string \<Rightarrow> (string \<times> jvalue) list \<Rightarrow> (string \<times> jvalue) list" where
  "property_paths path mems =
     map (\<lambda>(key, child). (compile_child_path (compile_child_path path ''properties'') key, child)) mems"

lemma property_paths_smaller [simp]:
  "property_children path v = Ok mems \<Longrightarrow> (p, c) \<in> set (property_paths q mems) \<Longrightarrow> jsize c < jsize v"
  by (auto simp: property_paths_def)

definition first_child :: "nat list \<Rightarrow> nat option" where
  "first_child ids = (case ids of [] \<Rightarrow> None | nid # _ \<Rightarrow> Some nid)"

definition object_rule :: "(string \<times> jvalue) list \<Rightarrow> nat list \<Rightarrow> string list \<Rightarrow> nat option \<Rightarrow> rule" where
  "object_rule mems ids required extra =
     RObject (zip (map fst mems) ids) required
       (case extra of None \<Rightarrow> Allow | Some nid \<Rightarrow> AdditionalSchema nid)"

type_synonym compile_function = "compiler \<Rightarrow> jvalue \<Rightarrow> string \<Rightarrow> (compiler \<times> nat, compile_error) result"

text \<open>The parts of \<^verbatim>\<open>Compiler::node\<close> that compile schemas inside the schema, with the recursive call as
  their first argument.\<close>

definition compile_definitions :: "compile_function \<Rightarrow> string \<Rightarrow> jvalue \<Rightarrow> compiler \<Rightarrow> (compiler, compile_error) result" where
  "compile_definitions compile path v st =
     bindR (definition_children path v) (\<lambda>definitions. map_ok fst (compile_children compile st definitions))"

definition compile_object :: "compile_function \<Rightarrow> nat \<Rightarrow> string \<Rightarrow> jvalue \<Rightarrow> compiler \<Rightarrow> (compiler, compile_error) result" where
  "compile_object compile nid path v st =
     (if \<not> has_keyword v [''properties'', ''required'', ''additionalProperties''] then Ok st
      else bindR (property_children path v) (\<lambda>declared.
           bindR (compile_children compile st (property_paths path declared)) (\<lambda>(st, ids).
           bindR (required_names path v) (\<lambda>required.
           bindR (compile_children compile st (keyword_child path v ''additionalProperties'')) (\<lambda>(st, extra).
             Ok (push_rules nid [Some (object_rule declared ids required (first_child extra))] [] st))))))"

definition compile_array :: "compile_function \<Rightarrow> nat \<Rightarrow> string \<Rightarrow> jvalue \<Rightarrow> compiler \<Rightarrow> (compiler, compile_error) result" where
  "compile_array compile nid path v st =
     (if \<not> has_keyword v [''items'', ''minItems'', ''maxItems'', ''uniqueItems''] then Ok st
      else bindR (compile_children compile st (keyword_child path v ''items'')) (\<lambda>(st, items).
           bindR (optional_count v ''minItems'' path) (\<lambda>minimum.
           bindR (optional_count v ''maxItems'' path) (\<lambda>maximum.
           bindR (unique_items path v) (\<lambda>unique.
             Ok (push_rules nid [Some (RArray (first_child items) minimum maximum unique)] [] st))))))"

definition compile_branch :: "compile_function \<Rightarrow> nat \<Rightarrow> string \<Rightarrow> jvalue \<Rightarrow> compiler \<Rightarrow> string \<times> (nat list \<Rightarrow> rule)
    \<Rightarrow> (compiler, compile_error) result" where
  "compile_branch compile nid path v st combinator =
     (case combinator of (keyword, rule) \<Rightarrow>
        if jget v keyword = None then Ok st
        else bindR (branch_children path v keyword) (\<lambda>branches.
             bindR (compile_children compile st branches) (\<lambda>(st, ids).
               if ids = [] then Err (CompileError path CombinatorEmpty)
               else Ok (push_rules nid [Some (rule ids)] ids st))))"

definition compile_branches :: "compile_function \<Rightarrow> nat \<Rightarrow> string \<Rightarrow> jvalue \<Rightarrow> compiler \<Rightarrow> (compiler, compile_error) result" where
  "compile_branches compile nid path v st =
     foldR (compile_branch compile nid path v) st [(''allOf'', RAllOf), (''anyOf'', RAnyOf), (''oneOf'', ROneOf)]"

definition compile_conditional :: "compile_function \<Rightarrow> nat \<Rightarrow> string \<Rightarrow> jvalue \<Rightarrow> compiler \<Rightarrow> (compiler, compile_error) result" where
  "compile_conditional compile nid path v st =
     (case (jget v ''if'', jget v ''then'', jget v ''else'') of
        (None, None, None) \<Rightarrow> Ok st
      | (Some _, Some _, _) \<Rightarrow>
          bindR (compile_children compile st (keyword_child path v ''if'')) (\<lambda>(st, condition).
          bindR (compile_children compile st (keyword_child path v ''then'')) (\<lambda>(st, consequence).
          bindR (compile_children compile st (keyword_child path v ''else'')) (\<lambda>(st, alternative).
            Ok (push_rules nid
                  [Some (RConditional (hd condition) (hd consequence) (first_child alternative))]
                  (condition @ consequence @ alternative) st))))
      | _ \<Rightarrow> Err (CompileError path ConditionalIncomplete))"

text \<open>They call the compiler on smaller values only.\<close>

lemma compile_children_smaller:
  "(\<And>p c. (p, c) \<in> set cs \<Longrightarrow> jsize c < jsize v) \<Longrightarrow> (\<And>s p c. jsize c < jsize v \<Longrightarrow> f s c p = g s c p)
   \<Longrightarrow> compile_children f st cs = compile_children g st cs"
  by (rule compile_children_cong) auto

lemma compile_definitions_cong [fundef_cong]:
  assumes "path = path'" "v = v'" "st = st'" and fg: "\<And>s p c. jsize c < jsize v' \<Longrightarrow> f s c p = g s c p"
  shows "compile_definitions f path v st = compile_definitions g path' v' st'"
  unfolding compile_definitions_def assms(1-3)
  by (intro bindR_cong refl arg_cong [where f = "map_ok fst"] compile_children_smaller [where v = v', OF _ fg]) simp

lemma compile_object_cong [fundef_cong]:
  assumes "nid = nid'" "path = path'" "v = v'" "st = st'" and fg: "\<And>s p c. jsize c < jsize v' \<Longrightarrow> f s c p = g s c p"
  shows "compile_object f nid path v st = compile_object g nid' path' v' st'"
  unfolding compile_object_def assms(1-4)
  by (intro if_cong bindR_cong refl compile_children_smaller [where v = v', OF _ fg]) (auto intro!: bindR_cong compile_children_smaller [where v = v', OF _ fg])

lemma compile_array_cong [fundef_cong]:
  assumes "nid = nid'" "path = path'" "v = v'" "st = st'" and fg: "\<And>s p c. jsize c < jsize v' \<Longrightarrow> f s c p = g s c p"
  shows "compile_array f nid path v st = compile_array g nid' path' v' st'"
  unfolding compile_array_def assms(1-4)
  by (intro if_cong bindR_cong refl compile_children_smaller [where v = v', OF _ fg]) auto

lemma compile_branches_cong [fundef_cong]:
  assumes "nid = nid'" "path = path'" "v = v'" "st = st'" and fg: "\<And>s p c. jsize c < jsize v' \<Longrightarrow> f s c p = g s c p"
  shows "compile_branches f nid path v st = compile_branches g nid' path' v' st'"
proof -
  have "compile_branch f nid' path' v' st combinator = compile_branch g nid' path' v' st combinator" for st combinator
    unfolding compile_branch_def
    by (cases combinator) (auto intro!: bindR_cong compile_children_smaller [where v = v', OF _ fg])
  then have "compile_branch f nid' path' v' = compile_branch g nid' path' v'" by blast
  then show ?thesis by (simp add: compile_branches_def assms(1-4))
qed

lemma compile_conditional_cong [fundef_cong]:
  assumes "nid = nid'" "path = path'" "v = v'" "st = st'" and fg: "\<And>s p c. jsize c < jsize v' \<Longrightarrow> f s c p = g s c p"
  shows "compile_conditional f nid path v st = compile_conditional g nid' path' v' st'"
proof -
  have "compile_children f s (keyword_child path' v' keyword) = compile_children g s (keyword_child path' v' keyword)" for s keyword
    by (intro compile_children_smaller [where v = v', OF _ fg]) auto
  then show ?thesis unfolding compile_conditional_def assms(1-4) by presburger
qed

function compile_node :: "compiler \<Rightarrow> jvalue \<Rightarrow> string \<Rightarrow> (compiler \<times> nat, compile_error) result" where
  "compile_node st v path =
     (if btree_get (co_paths st) path \<noteq> None then Err (CompileError path DuplicateSchemaPath)
      else let nid = length (co_nodes st); st1 = add_node path st in
        case as_bool v of
          Some boolean \<Rightarrow>
            Ok (if boolean then st1\<lparr>co_true_schemas := Suc (co_true_schemas st1)\<rparr>
                else push_rules nid [Some RFalse] [] (st1\<lparr>co_false_schemas := Suc (co_false_schemas st1)\<rparr>), nid)
        | None \<Rightarrow>
            bindR (ok_or (members v) (CompileError path NotASchema)) (\<lambda>mems.
            bindR (check_keywords path mems (st1\<lparr>co_object_schemas := Suc (co_object_schemas st1)\<rparr>)) (\<lambda>st2.
            bindR (check_identity path v) (\<lambda>_.
            bindR (compile_definitions compile_node path v st2) (\<lambda>st3.
              case jget v ''$ref'' of
                Some reference \<Rightarrow>
                  map_ok (\<lambda>target. (add_reference nid target st3, nid)) (reference_target path mems reference)
              | None \<Rightarrow>
                  bindR (assertion_rules path v) (\<lambda>rules.
                  bindR (compile_object compile_node nid path v (push_rules nid (map Some rules) [] st3)) (\<lambda>st4.
                  bindR (compile_array compile_node nid path v st4) (\<lambda>st5.
                  bindR (compile_branches compile_node nid path v st5) (\<lambda>st6.
                  bindR (compile_conditional compile_node nid path v st6) (\<lambda>st7.
                    Ok (st7, nid)))))))))))"
  by pat_completeness auto
termination
  by (relation "measure (\<lambda>(st, v, path). jsize v)") simp_all

declare compile_node.simps [simp del]

section \<open>References and cycles\<close>

text \<open>The loop over the recorded references: each slot gets the node its target was compiled to.\<close>

definition resolve_reference :: "compiler \<Rightarrow> nat \<times> nat \<times> string \<Rightarrow> (compiler, compile_error) result" where
  "resolve_reference st reference =
     (case reference of (nid, slot, target) \<Rightarrow>
        (let node = co_nodes st ! nid in
         bindR (ok_or (btree_get (co_paths st) target) (CompileError (cn_path node) (UnresolvedReference target))) (\<lambda>found.
           Ok (st\<lparr>co_nodes := (co_nodes st)[nid :=
             node\<lparr>cn_rules := (cn_rules node)[slot := Some (RRef found)],
                  cn_same_instance := cn_same_instance node @ [found]\<rparr>]\<rparr>))))"

definition resolve_references :: "compiler \<Rightarrow> (compiler, compile_error) result" where
  "resolve_references st = foldR resolve_reference st (co_references st)"

text \<open>One run of the depth-first search from a start node: a stack of nodes to enter or to leave, and
  the colours 0 (new), 1 (entered), 2 (left).\<close>

definition new_nodes :: "nat list \<Rightarrow> nat" where
  "new_nodes colors = length (filter (\<lambda>c. c \<noteq> 1 \<and> c \<noteq> 2) colors)"

lemma new_nodes_update:
  assumes "i < length colors"
  shows "new_nodes (colors[i := c]) + (if colors ! i = 1 \<or> colors ! i = 2 then 0 else 1) =
    new_nodes colors + (if c = 1 \<or> c = 2 then 0 else 1)"
proof -
  have "new_nodes colors = new_nodes (take i colors @ colors ! i # drop (Suc i) colors)"
    using assms by (simp add: id_take_nth_drop [symmetric])
  then show ?thesis using assms by (simp add: upd_conv_take_nth_drop new_nodes_def)
qed

lemma new_nodes_enter:
  "i < length colors \<Longrightarrow> colors ! i \<noteq> 1 \<Longrightarrow> colors ! i \<noteq> 2 \<Longrightarrow> new_nodes (colors[i := 1]) < new_nodes colors"
  using new_nodes_update [of i colors 1] by simp

lemma new_nodes_leave: "new_nodes (colors[i := 2]) \<le> new_nodes colors"
proof (cases "i < length colors")
  case True
  then show ?thesis using new_nodes_update [of i colors 2] by simp
qed (simp add: not_less list_update_beyond)

function cycle_loop :: "compiled_node list \<Rightarrow> nat list \<Rightarrow> (nat \<times> bool) list \<Rightarrow> (nat list, compile_error) result" where
  "cycle_loop nodes colors [] = Ok colors"
| "cycle_loop nodes colors ((node, leaving) # pending) =
     (if length colors \<le> node \<or> length nodes \<le> node then Err (CompileError [] IndexPanic)
      else if leaving then cycle_loop nodes (colors[node := 2]) pending
      else if colors ! node = 2 then cycle_loop nodes colors pending
      else if colors ! node = 1 then Err (CompileError (cn_path (nodes ! node)) SchemaRecursion)
      else cycle_loop nodes (colors[node := 1])
             (map (\<lambda>child. (child, False)) (cn_same_instance (nodes ! node)) @ (node, True) # pending))"
  by pat_completeness auto
termination
proof (relation "measures [\<lambda>(nodes, colors, pending). new_nodes colors, \<lambda>(nodes, colors, pending). length pending]")
  fix nodes :: "compiled_node list" and colors node leaving pending
  show "((nodes, colors[node := 2], pending), nodes, colors, (node, leaving) # pending)
      \<in> measures [\<lambda>(nodes, colors, pending). new_nodes colors, \<lambda>(nodes, colors, pending). length pending]"
    using new_nodes_leave [of colors node] by (auto simp: le_less)
qed (auto simp: new_nodes_enter simp del: One_nat_def)

definition check_cycles :: "compiled_node list \<Rightarrow> (unit, compile_error) result" where
  "check_cycles nodes =
     map_ok (\<lambda>_. ()) (foldR (\<lambda>colors start. cycle_loop nodes colors [(start, False)])
       (replicate (length nodes) 0) [0..<length nodes])"

text \<open>The table the build writes; a slot that was never filled is an empty text between commas, which the
  Rust compiler refuses.\<close>

definition emit_node :: "compiled_node \<Rightarrow> (schema_node, compile_error) result" where
  "emit_node node =
     map_ok (\<lambda>rules. \<lparr>sn_path = cn_path node, sn_rules = rules\<rparr>)
       (mapR (\<lambda>rule. ok_or rule (CompileError (cn_path node) IncompleteTable)) (cn_rules node))"

definition empty_compiler :: compiler where
  "empty_compiler = \<lparr>co_nodes = [], co_paths = [], co_references = [], co_keywords = [],
     co_object_schemas = 0, co_false_schemas = 0, co_true_schemas = 0\<rparr>"

definition compile_table :: "jvalue \<Rightarrow> (schema_node list, compile_error) result" where
  "compile_table v =
     bindR (compile_node empty_compiler v []) (\<lambda>(st, _).
     bindR (resolve_references st) (\<lambda>st.
     bindR (check_cycles (co_nodes st)) (\<lambda>_.
       mapR emit_node (co_nodes st))))"

section \<open>The names and tables generated beside the nodes\<close>

definition is_ascii_lowercase :: "char \<Rightarrow> bool" where
  "is_ascii_lowercase c \<longleftrightarrow> 97 \<le> byte c \<and> byte c \<le> 122"

definition is_ascii_uppercase :: "char \<Rightarrow> bool" where
  "is_ascii_uppercase c \<longleftrightarrow> 65 \<le> byte c \<and> byte c \<le> 90"

definition is_ascii_alphabetic :: "char \<Rightarrow> bool" where
  "is_ascii_alphabetic c \<longleftrightarrow> is_ascii_lowercase c \<or> is_ascii_uppercase c"

definition to_ascii_uppercase :: "char \<Rightarrow> char" where
  "to_ascii_uppercase c = (if is_ascii_lowercase c then char_of (byte c - 32) else c)"

definition compile_identifier :: "string \<Rightarrow> (string, compile_error) result" where
  "compile_identifier name =
     (if name = [] \<or> \<not> list_all (\<lambda>c. is_ascii_alphabetic c \<or> is_ascii_digit c) name \<or> \<not> is_ascii_alphabetic (hd name)
      then Err (CompileError name (GeneratedTable UnsupportedIdentifier))
      else Ok (to_ascii_uppercase (hd name) # tl name))"

text \<open>\<^verbatim>\<open>text.split('_')\<close>.\<close>

fun split_on :: "char \<Rightarrow> string \<Rightarrow> string list" where
  "split_on sep [] = [[]]"
| "split_on sep (c # cs) =
     (if c = sep then [] # split_on sep cs
      else case split_on sep cs of part # parts \<Rightarrow> (c # part) # parts | [] \<Rightarrow> [[c]])"

definition const_text :: "jvalue \<Rightarrow> string \<Rightarrow> string option" where
  "const_text variant key =
     Option.bind (jget variant ''properties'') (\<lambda>properties.
     Option.bind (jget properties key) (\<lambda>property.
     Option.bind (jget property ''const'') as_str))"

definition discriminators :: "jvalue \<Rightarrow> string \<Rightarrow> (string list, compile_error) result" where
  "discriminators v key =
     bindR (ok_or (elements v) (CompileError key (GeneratedTable MissingVariants))) (\<lambda>variants.
       foldR (\<lambda>names variant.
         bindR (ok_or (const_text variant key) (CompileError key (GeneratedTable MissingDiscriminator))) (\<lambda>name.
           if name \<in> set names then Err (CompileError key (GeneratedTable DuplicateDiscriminator))
           else if name = ''self''
             \<or> list_ex (\<lambda>part. part = [] \<or> \<not> list_all is_ascii_lowercase part) (split_on CHR ''_'' name)
           then Err (CompileError key (GeneratedTable UnsupportedDiscriminator))
           else Ok (names @ [name]))) [] variants)"

definition terminal_path :: string where
  "terminal_path = ''/definitions/terminalOutcome''"

text \<open>Equality of two \<^verbatim>\<open>BTreeSet\<close>s of names, each given by a list of its elements.\<close>

definition same_names :: "string list option \<Rightarrow> string list \<Rightarrow> bool" where
  "same_names names expected =
     (case names of
        None \<Rightarrow> False
      | Some ns \<Rightarrow> list_all (\<lambda>n. n \<in> set expected) ns \<and> list_all (\<lambda>n. n \<in> set ns) expected)"

definition member_names :: "jvalue \<Rightarrow> string list option" where
  "member_names v = map_option (map fst) (members v)"

definition row_constant :: "string \<Rightarrow> jvalue \<Rightarrow> string \<Rightarrow> (jvalue, compile_error) result" where
  "row_constant path properties fname =
     (case jget properties fname of
        None \<Rightarrow> Err (CompileError path IndexPanic)
      | Some v \<Rightarrow>
          if map_option length (members v) \<noteq> Some 1 then Err (CompileError path (GeneratedTable (NotOneConst fname)))
          else ok_or (jget v ''const'') (CompileError path (GeneratedTable (NotOneConst fname))))"

definition terminal_row :: "(string \<times> bool \<times> nat) list \<Rightarrow> nat \<times> jvalue \<Rightarrow> ((string \<times> bool \<times> nat) list, compile_error) result" where
  "terminal_row outcomes indexed =
     (case indexed of (index, row) \<Rightarrow>
      let path = terminal_path @ ''/oneOf/'' @ nat_to_string index in
      if \<not> same_names (member_names row) [''properties'', ''required''] then Err (CompileError path (GeneratedTable TerminalRowShape))
      else bindR (case jget row ''required'' of
                    None \<Rightarrow> Ok None
                  | Some v \<Rightarrow> map_ok Some (schema_strings v path)) (\<lambda>required.
        if \<not> same_names required [''subtype'', ''is_error''] then Err (CompileError path (GeneratedTable TerminalRowRequired))
        else case jget row ''properties'' of
          None \<Rightarrow> Err (CompileError path IndexPanic)
        | Some properties \<Rightarrow>
            if \<not> same_names (member_names properties) [''subtype'', ''is_error'', ''exit_code'']
            then Err (CompileError path (GeneratedTable TerminalRowFields))
            else
              bindR (row_constant path properties ''subtype'') (\<lambda>subtype.
              bindR (case as_str subtype of
                       Some name \<Rightarrow> if name = [] then Err (CompileError path (GeneratedTable EmptyTerminalName)) else Ok name
                     | None \<Rightarrow> Err (CompileError path (GeneratedTable EmptyTerminalName))) (\<lambda>name.
              bindR (row_constant path properties ''is_error'') (\<lambda>flag.
              bindR (ok_or (as_bool flag) (CompileError path (GeneratedTable TerminalFlagNotBoolean))) (\<lambda>is_error.
              bindR (row_constant path properties ''exit_code'') (\<lambda>code.
              bindR (case as_number code of
                       None \<Rightarrow> Err (CompileError path (GeneratedTable TerminalCodeRange))
                     | Some n \<Rightarrow> map_err (\<lambda>_. CompileError path (GeneratedTable TerminalCodeRange)) (as_unsigned n 255)) (\<lambda>exit_code.
                if name \<in> set (map fst outcomes) then Err (CompileError path (GeneratedTable DuplicateTerminalName))
                else Ok (outcomes @ [(name, is_error, unat exit_code)])))))))))"

definition terminal_outcomes :: "jvalue \<Rightarrow> ((string \<times> bool \<times> nat) list, compile_error) result" where
  "terminal_outcomes definitions =
     bindR (ok_or (jget definitions ''terminalOutcome'') (CompileError terminal_path (GeneratedTable MissingTerminalTable))) (\<lambda>table.
       if map_option length (members table) \<noteq> Some 1 then Err (CompileError terminal_path (GeneratedTable NotOneTerminalTable))
       else bindR (ok_or (Option.bind (jget table ''oneOf'') elements) (CompileError terminal_path (GeneratedTable NotTerminalAlternatives))) (\<lambda>rows.
         foldR terminal_row [] (enumerate 0 rows)))"

definition success_subtype :: "(string \<times> bool \<times> nat) list \<Rightarrow> (string, compile_error) result" where
  "success_subtype outcomes =
     (case filter (\<lambda>(_, is_error, _). \<not> is_error) outcomes of
        [(name, _, _)] \<Rightarrow> Ok name
      | _ \<Rightarrow> Err (CompileError terminal_path (GeneratedTable NotOneSuccess)))"

definition error_subtypes :: "(string \<times> bool \<times> nat) list \<Rightarrow> (string list, compile_error) result" where
  "error_subtypes outcomes =
     (let names = map fst (filter (\<lambda>(_, is_error, _). is_error) outcomes)
      in if names = [] then Err (CompileError terminal_path (GeneratedTable NoErrorOutcome)) else Ok names)"

definition schema_revision_ok :: "string \<Rightarrow> bool" where
  "schema_revision_ok revision \<longleftrightarrow>
     revision \<noteq> [] \<and> \<not> (take 1 revision = ''0'') \<and> list_all is_ascii_digit revision"

definition schema_identity :: "jvalue \<Rightarrow> (string, compile_error) result" where
  "schema_identity v =
     (if Option.bind (jget v ''$schema'') as_str \<noteq> Some draft07 then Err (CompileError ''/$schema'' (GeneratedTable WrongDialect))
      else bindR (ok_or (Option.bind (jget v ''$id'') as_str) (CompileError ''/$id'' (GeneratedTable MissingIdentity))) (\<lambda>schema_id.
           bindR (ok_or (strip_prefix ''urn:agent-service:stream-contract:'' schema_id) (CompileError ''/$id'' (GeneratedTable WrongNamespace))) (\<lambda>revision.
             if schema_revision_ok revision then Ok schema_id else Err (CompileError ''/$id'' (GeneratedTable WrongRevision)))))"

text \<open>\<^verbatim>\<open>compiler.paths[..]\<close> at a definition's path: the index panics when it is absent.\<close>

definition schema_entries :: "jvalue \<Rightarrow> compiler \<Rightarrow> ((string \<times> nat) list, compile_error) result" where
  "schema_entries v st =
     bindR (ok_or (jget v ''definitions'') (CompileError ''/definitions'' (GeneratedTable MissingDefinitions))) (\<lambda>definitions.
     bindR (ok_or (members definitions) (CompileError ''/definitions'' DefinitionsNotObject)) (\<lambda>mems.
       foldR (\<lambda>entries (name, _).
         bindR (compile_identifier name) (\<lambda>ident.
           if ident = ''Self'' \<or> ident \<in> set (map fst entries)
           then Err (CompileError (compile_child_path ''/definitions'' name) (GeneratedTable (ReservedIdentifier ident)))
           else bindR (ok_or (btree_get (co_paths st) (''/definitions/'' @ escape_pointer name)) (CompileError [] IndexPanic)) (\<lambda>nid.
             Ok (entries @ [(ident, nid)])))) [(''Record'', 0)] mems))"

record compilation =
  cp_schema_id :: string
  cp_table :: "schema_node list"
  cp_entries :: "(string \<times> nat) list"
  cp_event_kinds :: "string list"
  cp_system_kinds :: "string list"
  cp_partial_kinds :: "string list"
  cp_terminal_outcomes :: "(string \<times> bool \<times> nat) list"
  cp_success_subtype :: string
  cp_error_subtypes :: "string list"

definition system_alternatives :: "jvalue \<Rightarrow> jvalue option" where
  "system_alternatives events =
     Option.bind (elements events) (\<lambda>variants.
     Option.bind (find (\<lambda>variant. const_text variant ''type'' = Some ''system'') variants) (\<lambda>variant.
       jget variant ''oneOf''))"

definition compile_contract :: "jvalue \<Rightarrow> (compilation, compile_error) result" where
  "compile_contract v =
     bindR (schema_identity v) (\<lambda>schema_id.
     bindR (compile_node empty_compiler v []) (\<lambda>(st, _).
     bindR (resolve_references st) (\<lambda>st.
     bindR (check_cycles (co_nodes st)) (\<lambda>_.
     bindR (schema_entries v st) (\<lambda>entries.
     bindR (ok_or (jget v ''oneOf'') (CompileError ''/oneOf'' (GeneratedTable MissingEventAlternatives))) (\<lambda>events.
     bindR (ok_or (system_alternatives events) (CompileError ''/oneOf'' (GeneratedTable MissingSystemAlternatives))) (\<lambda>systems.
     bindR (ok_or (Option.bind (jget v ''definitions'') (\<lambda>ds. Option.bind (jget ds ''streamEvent'') (\<lambda>e. jget e ''oneOf'')))
              (CompileError ''/definitions/streamEvent'' (GeneratedTable MissingPartialAlternatives))) (\<lambda>partials.
     bindR (discriminators events ''type'') (\<lambda>event_kinds.
     bindR (discriminators systems ''subtype'') (\<lambda>system_kinds.
     bindR (discriminators partials ''type'') (\<lambda>partial_kinds.
     bindR (case jget v ''definitions'' of Some ds \<Rightarrow> terminal_outcomes ds
              | None \<Rightarrow> Err (CompileError ''/definitions'' (GeneratedTable MissingDefinitions))) (\<lambda>outcomes.
     bindR (success_subtype outcomes) (\<lambda>success.
     bindR (error_subtypes outcomes) (\<lambda>errors.
     bindR (mapR emit_node (co_nodes st)) (\<lambda>table.
       Ok \<lparr>cp_schema_id = schema_id, cp_table = table, cp_entries = entries, cp_event_kinds = event_kinds,
           cp_system_kinds = system_kinds, cp_partial_kinds = partial_kinds, cp_terminal_outcomes = outcomes,
           cp_success_subtype = success, cp_error_subtypes = errors\<rparr>)))))))))))))))"

end
