(* ===== verification/Schema_Compiled.thy ===== *)
theory Schema_Compiled
  imports Schema_Compiler
begin

text \<open>
  What a successful compilation guarantees: the depth-first search accepts only graphs without cycles
  between schemas applied to one value, every index and numeric literal of the table is good, and
  therefore validation against a compiled table always has a verdict, reached within a number of
  operations that depends only on the schema and the value.
\<close>

section \<open>The search for cycles\<close>

definition black :: "nat list \<Rightarrow> nat set" where
  "black colors = {i. i < length colors \<and> colors ! i = 2}"

text \<open>The nodes that were left are closed under edges and can be numbered downwards along them.\<close>

definition black_ok :: "compiled_node list \<Rightarrow> nat set \<Rightarrow> bool" where
  "black_ok nodes B \<longleftrightarrow>
     (\<forall>i \<in> B. set (cn_same_instance (nodes ! i)) \<subseteq> B)
     \<and> (\<exists>f :: nat \<Rightarrow> nat. \<forall>i \<in> B. \<forall>j \<in> set (cn_same_instance (nodes ! i)). f j < f i)"

text \<open>What a node still to be left waits for: each of its children is left, or stands above it.\<close>

fun stack_ok :: "compiled_node list \<Rightarrow> nat set \<Rightarrow> (nat \<times> bool) list \<Rightarrow> bool" where
  "stack_ok nodes B [] = True"
| "stack_ok nodes B (e # pending) =
     (stack_ok nodes (insert (fst e) B) pending
      \<and> (snd e \<longrightarrow> set (cn_same_instance (nodes ! fst e)) \<subseteq> B))"

lemma stack_ok_mono: "stack_ok nodes B pending \<Longrightarrow> B \<subseteq> C \<Longrightarrow> stack_ok nodes C pending"
  by (induction pending arbitrary: B C) (auto, meson insert_mono, blast)

lemma stack_ok_enter:
  "stack_ok nodes (insert n B) pending \<Longrightarrow>
     stack_ok nodes B (map (\<lambda>child. (child, False)) children @ (n, True) # pending)
     \<longleftrightarrow> set (cn_same_instance (nodes ! n)) \<subseteq> B \<union> set children"
proof (induction children arbitrary: B)
  case (Cons c children)
  have "stack_ok nodes (insert n (insert c B)) pending"
    using Cons.prems by (rule stack_ok_mono) auto
  with Cons.IH [of "insert c B"] show ?case by simp
qed simp

lemma black_ok_leave:
  assumes "black_ok nodes B" and children: "set (cn_same_instance (nodes ! n)) \<subseteq> B"
  shows "black_ok nodes (insert n B)"
proof (cases "n \<in> B")
  case True
  then show ?thesis using assms by (simp add: insert_absorb)
next
  case False
  obtain f :: "nat \<Rightarrow> nat" where closed: "\<forall>i \<in> B. set (cn_same_instance (nodes ! i)) \<subseteq> B"
    and f: "\<forall>i \<in> B. \<forall>j \<in> set (cn_same_instance (nodes ! i)). f j < f i"
    using assms(1) by (auto simp: black_ok_def)
  let ?top = "Suc (sum_list (map f (cn_same_instance (nodes ! n))))"
  have "f j < ?top" if "j \<in> set (cn_same_instance (nodes ! n))" for j
    using member_le_sum_list [of "f j" "map f (cn_same_instance (nodes ! n))"] that by simp
  then have "\<forall>i \<in> insert n B. \<forall>j \<in> set (cn_same_instance (nodes ! i)). (f(n := ?top)) j < (f(n := ?top)) i"
    using f closed children False by auto
  then show ?thesis unfolding black_ok_def using closed children by blast
qed

lemma cycle_loop_black:
  assumes "cycle_loop nodes colors pending = Ok colors'"
    and "black_ok nodes (black colors)" and "stack_ok nodes (black colors) pending"
    and "length colors = length nodes"
  shows "length colors' = length nodes \<and> black_ok nodes (black colors')
    \<and> black colors \<union> fst ` set pending \<subseteq> black colors'"
  using assms
proof (induction nodes colors pending rule: cycle_loop.induct)
  case (1 nodes colors)
  then show ?case by simp
next
  case (2 nodes colors node leaving pending)
  have range: "node < length colors" "node < length nodes"
    using 2 by (auto split: if_splits)
  show ?case
  proof (cases leaving)
    case True
    have "black (colors[node := 2]) = insert node (black colors)"
      using range by (auto simp: black_def nth_list_update)
    with 2 True range black_ok_leave [of nodes "black colors" node] show ?thesis
      by (auto split: if_splits)
  next
    case False
    show ?thesis
    proof (cases "colors ! node = 2")
      case True
      then have "node \<in> black colors" using range by (simp add: black_def)
      with 2 False True range show ?thesis by (auto simp: insert_absorb split: if_splits)
    next
      case new: False
      have not1: "colors ! node \<noteq> 1" using "2.prems"(1) False new range by (auto split: if_splits)
      have same: "black (colors[node := 1]) = black colors"
        using range new by (auto simp: black_def nth_list_update)
      have "stack_ok nodes (insert node (black colors)) pending" using "2.prems"(3) by simp
      then have "stack_ok nodes (black colors)
          (map (\<lambda>child. (child, False)) (cn_same_instance (nodes ! node)) @ (node, True) # pending)"
        by (simp add: stack_ok_enter)
      with 2(3) [OF _ False new not1] "2.prems" False new not1 range same show ?thesis
        by auto
    qed
  qed
qed

definition instance_edges :: "compiled_node list \<Rightarrow> (nat \<times> nat) set" where
  "instance_edges nodes = {(i, j). i < length nodes \<and> j \<in> set (cn_same_instance (nodes ! i))}"

lemma check_cycles_acyclic:
  assumes "check_cycles nodes = Ok u"
  shows "acyclic (instance_edges nodes)"
proof -
  let ?step = "\<lambda>colors start. cycle_loop nodes colors [(start, False)]"
  have fold: "foldR ?step colors starts = Ok colors' \<Longrightarrow> length colors = length nodes \<Longrightarrow> black_ok nodes (black colors) \<Longrightarrow>
      black_ok nodes (black colors') \<and> black colors \<union> set starts \<subseteq> black colors'" for starts colors colors'
  proof (induction starts arbitrary: colors)
    case (Cons start starts)
    then obtain c1 where "?step colors start = Ok c1" "foldR ?step c1 starts = Ok colors'" by auto
    with Cons.IH [of c1] cycle_loop_black [of nodes colors "[(start, False)]" c1] Cons.prems show ?case by auto
  qed auto
  obtain colors' where "foldR ?step (replicate (length nodes) 0) [0..<length nodes] = Ok colors'"
      and "black (replicate (length nodes) 0) = {}"
    using assms by (auto simp: check_cycles_def black_def simp del: cycle_loop.simps)
  with fold [of "replicate (length nodes) 0" "[0..<length nodes]" colors']
  have ok: "black_ok nodes (black colors')" and all: "{0..<length nodes} \<subseteq> black colors'"
    by (auto simp: black_ok_def simp del: cycle_loop.simps)
  then obtain f :: "nat \<Rightarrow> nat" where "\<forall>i \<in> black colors'. \<forall>j \<in> set (cn_same_instance (nodes ! i)). f j < f i"
    by (auto simp: black_ok_def)
  with all have "instance_edges nodes \<subseteq> (measure f)\<inverse>"
    by (auto simp: instance_edges_def)
  moreover have "acyclic ((measure f)\<inverse>)"
    by (simp add: acyclic_converse wf_acyclic)
  ultimately show ?thesis by (metis acyclic_subset)
qed

section \<open>The table stays closed\<close>

text \<open>The invariant of the compiler: rules that are complete refer to nodes that exist and parse their
  literals, the nodes they apply to the same value are recorded, and the empty slots are exactly those
  a reference will fill.\<close>

definition node_ok :: "nat \<Rightarrow> compiled_node \<Rightarrow> bool" where
  "node_ok n node \<longleftrightarrow>
     (\<forall>rule. Some rule \<in> set (cn_rules node) \<longrightarrow>
        rule_closed n rule \<and> set (rule_same rule) \<subseteq> set (cn_same_instance node))"

definition compiled_ok :: "compiler \<Rightarrow> bool" where
  "compiled_ok st \<longleftrightarrow>
     (\<forall>nid < length (co_nodes st). node_ok (length (co_nodes st)) (co_nodes st ! nid))
     \<and> (\<forall>p i. (p, i) \<in> set (co_paths st) \<longrightarrow> i < length (co_nodes st))
     \<and> (\<forall>nid slot target. (nid, slot, target) \<in> set (co_references st) \<longrightarrow>
           nid < length (co_nodes st) \<and> slot < length (cn_rules (co_nodes st ! nid)))
     \<and> (\<forall>nid slot. nid < length (co_nodes st) \<longrightarrow> slot < length (cn_rules (co_nodes st ! nid)) \<longrightarrow>
           cn_rules (co_nodes st ! nid) ! slot = None \<longrightarrow> (\<exists>target. (nid, slot, target) \<in> set (co_references st)))"

lemma rule_closed_mono: "rule_closed n rule \<Longrightarrow> n \<le> m \<Longrightarrow> rule_closed m rule"
  by (auto simp: rule_closed_def list_all_iff)

lemma node_ok_mono: "node_ok n node \<Longrightarrow> n \<le> m \<Longrightarrow> node_ok m node"
  by (auto simp: node_ok_def intro: rule_closed_mono)

lemma compiled_ok_stats [simp]:
  "compiled_ok (st\<lparr>co_keywords := k\<rparr>) = compiled_ok st"
  "compiled_ok (st\<lparr>co_object_schemas := a\<rparr>) = compiled_ok st"
  "compiled_ok (st\<lparr>co_false_schemas := a\<rparr>) = compiled_ok st"
  "compiled_ok (st\<lparr>co_true_schemas := a\<rparr>) = compiled_ok st"
  by (simp_all add: compiled_ok_def)

lemma compiled_ok_node: "compiled_ok st \<Longrightarrow> nid < length (co_nodes st) \<Longrightarrow> node_ok (length (co_nodes st)) (co_nodes st ! nid)"
  and compiled_ok_path: "compiled_ok st \<Longrightarrow> (p, i) \<in> set (co_paths st) \<Longrightarrow> i < length (co_nodes st)"
  and compiled_ok_reference: "compiled_ok st \<Longrightarrow> (nid, slot, target) \<in> set (co_references st) \<Longrightarrow>
    nid < length (co_nodes st) \<and> slot < length (cn_rules (co_nodes st ! nid))"
  and compiled_ok_slot: "compiled_ok st \<Longrightarrow> nid < length (co_nodes st) \<Longrightarrow> slot < length (cn_rules (co_nodes st ! nid)) \<Longrightarrow>
    cn_rules (co_nodes st ! nid) ! slot = None \<Longrightarrow> \<exists>target. (nid, slot, target) \<in> set (co_references st)"
  unfolding compiled_ok_def by blast+

lemma btree_insert_set: "x \<in> set (btree_insert k v m) \<Longrightarrow> x = (k, v) \<or> x \<in> set m"
  by (induction m) (auto split: if_splits)

lemma add_node_ok:
  assumes "compiled_ok st"
  shows "compiled_ok (add_node path st)" and "length (co_nodes (add_node path st)) = Suc (length (co_nodes st))"
proof -
  let ?n = "length (co_nodes st)" and ?nodes = "co_nodes st @ [\<lparr>cn_path = path, cn_rules = [], cn_same_instance = []\<rparr>]"
  have old: "?nodes ! nid = co_nodes st ! nid" if "nid < ?n" for nid using that by (simp add: nth_append)
  have new: "?nodes ! ?n = \<lparr>cn_path = path, cn_rules = [], cn_same_instance = []\<rparr>" by simp
  have "node_ok (Suc ?n) (?nodes ! nid)" if "nid < Suc ?n" for nid
  proof (cases "nid < ?n")
    case True
    then show ?thesis using node_ok_mono [OF compiled_ok_node [OF assms True], of "Suc ?n"] old by simp
  next
    case False
    then have "nid = ?n" using that by simp
    then show ?thesis using new by (simp add: node_ok_def)
  qed
  moreover have "i < Suc ?n" if "(p, i) \<in> set (btree_insert path ?n (co_paths st))" for p i
    using btree_insert_set [OF that] compiled_ok_path [OF assms, of p i] by auto
  moreover have "nid < Suc ?n \<and> slot < length (cn_rules (?nodes ! nid))"
    if "(nid, slot, target) \<in> set (co_references st)" for nid slot target
    using compiled_ok_reference [OF assms that] old by simp
  moreover have "\<exists>target. (nid, slot, target) \<in> set (co_references st)"
    if "nid < Suc ?n" "slot < length (cn_rules (?nodes ! nid))" "cn_rules (?nodes ! nid) ! slot = None" for nid slot
    using that compiled_ok_slot [OF assms, of nid slot] old [of nid] new by (cases "nid = ?n") auto
  ultimately show "compiled_ok (add_node path st)"
    by (subst compiled_ok_def) (simp add: add_node_def)
qed (simp add: add_node_def)

text \<open>A node is replaced by one with more rules.\<close>

lemma replace_node_ok:
  assumes ok: "compiled_ok st" and nid: "nid < length (co_nodes st)"
    and node: "node_ok (length (co_nodes st)) node"
    and longer: "length (cn_rules (co_nodes st ! nid)) \<le> length (cn_rules node)"
    and empty: "\<And>slot. slot < length (cn_rules node) \<Longrightarrow> cn_rules node ! slot = None \<Longrightarrow>
      (slot < length (cn_rules (co_nodes st ! nid)) \<and> cn_rules (co_nodes st ! nid) ! slot = None)
      \<or> (\<exists>target. (nid, slot, target) \<in> set new)"
    and refs: "\<And>i slot target. (i, slot, target) \<in> set new \<Longrightarrow> i = nid \<and> slot < length (cn_rules node)"
  shows "compiled_ok (st\<lparr>co_nodes := (co_nodes st)[nid := node], co_references := co_references st @ new\<rparr>)"
proof -
  let ?n = "length (co_nodes st)" and ?nodes = "(co_nodes st)[nid := node]"
  have "\<forall>i < ?n. node_ok ?n (?nodes ! i)"
    using compiled_ok_node [OF ok] node nid by (simp add: nth_list_update)
  moreover have "\<forall>p i. (p, i) \<in> set (co_paths st) \<longrightarrow> i < ?n"
    using ok by (simp add: compiled_ok_def)
  moreover have "i < ?n \<and> slot < length (cn_rules (?nodes ! i))" if r: "(i, slot, target) \<in> set (co_references st @ new)" for i slot target
  proof (cases "(i, slot, target) \<in> set new")
    case True
    then show ?thesis using refs nid by (simp add: nth_list_update)
  next
    case False
    then have "i < ?n" "slot < length (cn_rules (co_nodes st ! i))"
      using r compiled_ok_reference [OF ok] by auto
    then show ?thesis using longer nid by (auto simp: nth_list_update)
  qed
  moreover have "\<exists>target. (i, slot, target) \<in> set (co_references st @ new)"
    if i: "i < ?n" "slot < length (cn_rules (?nodes ! i))" "cn_rules (?nodes ! i) ! slot = None" for i slot
  proof (cases "i = nid \<and> (\<exists>target. (nid, slot, target) \<in> set new)")
    case False
    then have "slot < length (cn_rules (co_nodes st ! i))" "cn_rules (co_nodes st ! i) ! slot = None"
      using i empty nid by (auto simp: nth_list_update split: if_splits)
    then show ?thesis using compiled_ok_slot [OF ok i(1)] by auto
  qed auto
  ultimately show ?thesis by (simp add: compiled_ok_def [of "_\<lparr>co_nodes := _, co_references := _\<rparr>"])
qed

lemma push_rules_ok:
  assumes ok: "compiled_ok st" and nid: "nid < length (co_nodes st)"
    and rules: "\<And>rule. rule \<in> set rules \<Longrightarrow> rule_closed (length (co_nodes st)) rule \<and> set (rule_same rule) \<subseteq> set same"
  shows "compiled_ok (push_rules nid (map Some rules) same st)"
    and "length (co_nodes (push_rules nid (map Some rules) same st)) = length (co_nodes st)"
proof -
  let ?node = "co_nodes st ! nid"
  let ?new = "?node\<lparr>cn_rules := cn_rules ?node @ map Some rules, cn_same_instance := cn_same_instance ?node @ same\<rparr>"
  have "node_ok (length (co_nodes st)) ?node" using ok nid by (rule compiled_ok_node)
  then have "node_ok (length (co_nodes st)) ?new" using rules by (fastforce simp: node_ok_def)
  then have "compiled_ok (st\<lparr>co_nodes := (co_nodes st)[nid := ?new], co_references := co_references st @ []\<rparr>)"
    by (rule replace_node_ok [OF ok nid]) (auto simp: nth_append split: if_splits)
  then show "compiled_ok (push_rules nid (map Some rules) same st)"
    by (simp add: push_rules_def Let_def)
qed (simp add: push_rules_def Let_def)

lemma add_reference_ok:
  assumes ok: "compiled_ok st" and nid: "nid < length (co_nodes st)"
  shows "compiled_ok (add_reference nid target st)"
    and "length (co_nodes (add_reference nid target st)) = length (co_nodes st)"
proof -
  let ?node = "co_nodes st ! nid"
  let ?new = "?node\<lparr>cn_rules := cn_rules ?node @ [None]\<rparr>"
  have "node_ok (length (co_nodes st)) ?node" using ok nid by (rule compiled_ok_node)
  then have "node_ok (length (co_nodes st)) ?new" by (simp add: node_ok_def)
  then have "compiled_ok (st\<lparr>co_nodes := (co_nodes st)[nid := ?new],
      co_references := co_references st @ [(nid, length (cn_rules ?node), target)]\<rparr>)"
    by (rule replace_node_ok [OF ok nid]) (auto simp: nth_append less_Suc_eq split: if_splits)
  then show "compiled_ok (add_reference nid target st)"
    by (cases st) (simp add: add_reference_def push_rules_def Let_def)
qed (simp add: add_reference_def push_rules_def Let_def)

text \<open>The assertions that contain no schema.\<close>

definition plain :: "rule list \<Rightarrow> bool" where
  "plain rules \<longleftrightarrow> (\<forall>rule \<in> set rules. rule_same rule = [] \<and> (\<forall>n. rule_closed n rule))"

lemma schema_literal_closed:
  "schema_literal v path = Ok literal \<Longrightarrow> tree_ok v \<Longrightarrow> list_all (\<lambda>token. is_ok (json_number_parse token)) (literal_tokens literal)"
  by (cases v) (auto simp: is_ok_iff)

lemma const_rules_plain: "tree_ok v \<Longrightarrow> const_rules path v = Ok rules \<Longrightarrow> plain rules"
  by (auto simp: const_rules_def plain_def rule_closed_def split: option.splits
      dest!: schema_literal_closed dest: tree_ok_parts(1))

lemma list_all2_in2: "list_all2 P xs ys \<Longrightarrow> y \<in> set ys \<Longrightarrow> \<exists>x \<in> set xs. P x y"
  by (induction rule: list_all2_induct) auto

lemma enum_rules_plain: "tree_ok v \<Longrightarrow> enum_rules path v = Ok rules \<Longrightarrow> plain rules"
proof -
  assume ok: "tree_ok v" and r: "enum_rules path v = Ok rules"
  show "plain rules"
  proof (cases "jget v ''enum''")
    case None
    then show ?thesis using r by (simp add: enum_rules_def plain_def)
  next
    case (Some literals)
    with r obtain vs ls where vs: "elements literals = Some vs" and rules: "rules = [REnum ls]"
      and ls: "list_all2 (\<lambda>e l. (if list_ex (\<lambda>w. value_eq w (snd e)) (take (fst e) vs) then Err (CompileError path EnumDuplicate)
                 else schema_literal (snd e) path) = Ok l) (enumerate 0 vs) ls"
      by (auto simp: enum_rules_def mapR_Ok_iff case_prod_unfold split: if_splits)
    have "list_all (\<lambda>token. is_ok (json_number_parse token)) (literal_tokens l)" if "l \<in> set ls" for l
    proof -
      from list_all2_in2 [OF ls that] obtain e where "e \<in> set (enumerate 0 vs)" "schema_literal (snd e) path = Ok l"
        by (auto split: if_splits)
      moreover from this have "tree_ok (snd e)"
        using ok Some vs tree_ok_parts(1,3) enumerate_member by (metis prod.collapse)
      ultimately show ?thesis using schema_literal_closed by blast
    qed
    then show ?thesis by (auto simp: rules plain_def rule_closed_def list_all_iff)
  qed
qed

lemma bound_rules_plain:
  "tree_ok v \<Longrightarrow> bound_rules path v keyword rule = Ok rules \<Longrightarrow> rule = RMinimum \<or> rule = RMaximum \<Longrightarrow> plain rules"
  by (cases "jget v keyword")
     (auto simp: bound_rules_def plain_def rule_closed_def is_ok_iff dest!: tree_ok_parts(4) [OF tree_ok_parts(1)])

lemma type_rules_plain: "type_rules path v = Ok rules \<Longrightarrow> plain rules"
  by (cases "jget v ''type''") (auto simp: type_rules_def plain_def rule_closed_def split: if_splits)

lemma length_rules_plain:
  "length_rules path v keyword rule = Ok rules \<Longrightarrow> rule = RMinLength \<or> rule = RMaxLength \<Longrightarrow> plain rules"
  by (auto simp: length_rules_def plain_def rule_closed_def split: option.splits)

lemma pattern_rules_plain: "pattern_rules path v = Ok rules \<Longrightarrow> plain rules"
  by (cases "jget v ''pattern''") (auto simp: pattern_rules_def plain_def rule_closed_def split: if_splits)

lemma plain_append: "plain (xs @ ys) \<longleftrightarrow> plain xs \<and> plain ys"
  by (auto simp: plain_def)

lemma assertion_rules_plain:
  assumes "tree_ok v" "assertion_rules path v = Ok rules"
  shows "plain rules"
proof (rule foldR_invariant [where P = plain])
  show "foldR (\<lambda>acc part. map_ok (\<lambda>rules. acc @ rules) part) []
       [type_rules path v, const_rules path v, enum_rules path v,
        bound_rules path v ''minimum'' RMinimum, bound_rules path v ''maximum'' RMaximum,
        length_rules path v ''minLength'' RMinLength, length_rules path v ''maxLength'' RMaxLength,
        pattern_rules path v] = Ok rules" using assms(2) by (simp add: assertion_rules_def)
qed (use assms(1) in \<open>auto simp: plain_append const_rules_plain enum_rules_plain bound_rules_plain type_rules_plain
      length_rules_plain pattern_rules_plain plain_def [of "[]"]\<close>)

text \<open>A step that keeps the invariant and never drops a node.\<close>

definition keeps :: "compiler \<Rightarrow> compiler \<Rightarrow> bool" where
  "keeps st st' \<longleftrightarrow> compiled_ok st' \<and> length (co_nodes st) \<le> length (co_nodes st')"

abbreviation keeps_result :: "compiler \<Rightarrow> (compiler \<times> nat, compile_error) result \<Rightarrow> bool" where
  "keeps_result st \<equiv> ensures (\<lambda>_. True) (\<lambda>(st', nid). keeps st st' \<and> nid < length (co_nodes st'))"

lemma compile_children_keeps:
  assumes "compiled_ok st"
    and "\<And>st p c. (p, c) \<in> set cs \<Longrightarrow> compiled_ok st \<Longrightarrow> keeps_result st (f st c p)"
  shows "ensures (\<lambda>_. True) (\<lambda>(st', ids). keeps st st' \<and> length ids = length cs \<and> (\<forall>i \<in> set ids. i < length (co_nodes st')))
    (compile_children f st cs)"
proof -
  have "ensures (\<lambda>_. True) (\<lambda>(st', ids'). keeps st0 st' \<and> length ids' = length ids + length cs
      \<and> (\<forall>i \<in> set ids'. i < length (co_nodes st')))
    (foldR (\<lambda>(st, ids) (path, child). map_ok (\<lambda>(st', nid). (st', ids @ [nid])) (f st child path)) (st0, ids) cs)"
    if "compiled_ok st0" "\<forall>i \<in> set ids. i < length (co_nodes st0)" for st0 ids
    using that assms(2)
  proof (induction cs arbitrary: st0 ids)
    case Nil
    then show ?case by (simp add: keeps_def)
  next
    case (Cons m cs)
    obtain p c where m: "m = (p, c)" by (cases m)
    show ?case
    proof (cases "f st0 c p")
      case (Ok r)
      obtain st1 nid where r: "r = (st1, nid)" by (cases r)
      have 1: "keeps st0 st1" "nid < length (co_nodes st1)"
        using Cons.prems(3) [of p c st0] Cons.prems(1) m Ok r by auto
      moreover have "\<And>st p c. (p, c) \<in> set cs \<Longrightarrow> compiled_ok st \<Longrightarrow> keeps_result st (f st c p)"
        using Cons.prems(3) by simp
      moreover have "\<forall>i \<in> set (ids @ [nid]). i < length (co_nodes st1)"
        using Cons.prems(2) 1 by (auto simp: keeps_def)
      ultimately have "ensures (\<lambda>_. True) (\<lambda>(st', ids'). keeps st1 st' \<and> length ids' = length (ids @ [nid]) + length cs
          \<and> (\<forall>i \<in> set ids'. i < length (co_nodes st')))
        (foldR (\<lambda>(st, ids) (path, child). map_ok (\<lambda>(st', nid). (st', ids @ [nid])) (f st child path)) (st1, ids @ [nid]) cs)"
        using Cons.IH [of st1 "ids @ [nid]"] by (auto simp: keeps_def)
      then show ?thesis
        using 1 m Ok r by (auto simp: keeps_def elim!: ensures_weaken)
    qed (simp add: m)
  qed
  from this [of st "[]"] assms(1) show ?thesis by (simp add: compile_children_def)
qed

lemma definition_children_tree:
  "tree_ok v \<Longrightarrow> definition_children path v = Ok cs \<Longrightarrow> (p, c) \<in> set cs \<Longrightarrow> tree_ok c"
  using tree_ok_parts(1) [of v "''definitions''"]
  by (cases "jget v ''definitions''") (fastforce simp: definition_children_def list_all_iff split: if_splits)+

lemma property_paths_tree:
  "tree_ok v \<Longrightarrow> property_children path v = Ok cs \<Longrightarrow> (p, c) \<in> set (property_paths q cs) \<Longrightarrow> tree_ok c"
  using tree_ok_parts(1) [of v "''properties''"]
  by (cases "jget v ''properties''") (auto simp: property_children_def property_paths_def list_all_iff)

lemma keyword_child_tree: "tree_ok v \<Longrightarrow> (p, c) \<in> set (keyword_child path v keyword) \<Longrightarrow> tree_ok c"
  using tree_ok_parts(1) [of v keyword] by (cases "jget v keyword") (auto simp: keyword_child_def)

lemma branch_children_tree:
  "tree_ok v \<Longrightarrow> branch_children path v keyword = Ok cs \<Longrightarrow> (p, c) \<in> set cs \<Longrightarrow> tree_ok c"
  using tree_ok_parts(1) [of v keyword]
  by (cases "jget v keyword") (auto simp: branch_children_def list_all_iff dest!: enumerate_member)

lemmas children_tree = definition_children_tree property_paths_tree keyword_child_tree branch_children_tree

text \<open>The state while a node is being compiled.\<close>

definition at_node :: "nat \<Rightarrow> compiler \<Rightarrow> bool" where
  "at_node nid st \<longleftrightarrow> compiled_ok st \<and> nid < length (co_nodes st)"

lemma push_one_at:
  "at_node nid st \<Longrightarrow> rule_closed (length (co_nodes st)) rule \<Longrightarrow> set (rule_same rule) \<subseteq> set same \<Longrightarrow>
     at_node nid (push_rules nid [Some rule] same st)"
  using push_rules_ok [of st nid "[rule]" same] by (auto simp: at_node_def)

lemma push_plain_at: "at_node nid st \<Longrightarrow> plain rules \<Longrightarrow> at_node nid (push_rules nid (map Some rules) [] st)"
  using push_rules_ok [of st nid rules "[]"] by (auto simp: at_node_def plain_def)

lemma check_keywords_at: "at_node nid st \<Longrightarrow> check_keywords path mems st = Ok st' \<Longrightarrow> at_node nid st'"
  unfolding check_keywords_def
  by (erule foldR_invariant [rotated 2]) (auto simp: at_node_def split: if_splits)

lemma at_node_mono: "at_node nid st \<Longrightarrow> keeps st st' \<Longrightarrow> at_node nid st'"
  by (auto simp: at_node_def keeps_def)

definition compiles_below :: "jvalue \<Rightarrow> bool" where
  "compiles_below v \<longleftrightarrow>
     (\<forall>st c p. jsize c < jsize v \<longrightarrow> tree_ok c \<longrightarrow> compiled_ok st \<longrightarrow> keeps_result st (compile_node st c p))"

lemma children_at:
  assumes "compile_children compile_node st cs = Ok (st', ids)" and "compiles_below v"
    and "at_node nid st" and "\<And>p c. (p, c) \<in> set cs \<Longrightarrow> jsize c < jsize v \<and> tree_ok c"
  shows "at_node nid st' \<and> length ids = length cs \<and> (\<forall>i \<in> set ids. i < length (co_nodes st'))"
proof -
  have "keeps_result s (compile_node s c p)" if "(p, c) \<in> set cs" "compiled_ok s" for s p c
    using assms(2,4) that by (simp add: compiles_below_def)
  then have "ensures (\<lambda>_. True) (\<lambda>(st', ids). keeps st st' \<and> length ids = length cs \<and> (\<forall>i \<in> set ids. i < length (co_nodes st')))
      (compile_children compile_node st cs)"
    using assms(3) by (intro compile_children_keeps) (auto simp: at_node_def)
  with assms(1) at_node_mono [OF assms(3), of st'] show ?thesis by simp
qed

lemma keyword_children_at:
  assumes "compile_children compile_node st (keyword_child path v keyword) = Ok (st', ids)" and "compiles_below v"
    and "tree_ok v" and "at_node nid st"
  shows "at_node nid st' \<and> length ids = length (keyword_child path v keyword) \<and> (\<forall>i \<in> set ids. i < length (co_nodes st'))"
  by (rule children_at [OF assms(1,2,4)]) (use keyword_child_smaller keyword_child_tree [OF assms(3)] in blast)

lemma first_child_in: "first_child ids = Some i \<Longrightarrow> i \<in> set ids"
  by (cases ids) (auto simp: first_child_def)

lemma object_rule_closed:
  assumes "\<forall>i \<in> set ids. i < n" and "\<forall>i \<in> set extra. i < n"
  shows "rule_closed n (object_rule declared ids required (first_child extra))"
proof -
  have "i < n" if "(k, i) \<in> set (zip (map fst declared) ids)" for k i
    using that assms(1) by (auto dest: set_zip_rightD)
  then show ?thesis
    using assms(2) first_child_in [of extra]
    by (cases "first_child extra") (auto simp: object_rule_def rule_closed_def list_all_iff)
qed

lemma array_rule_closed: "\<forall>i \<in> set items. i < n \<Longrightarrow> rule_closed n (RArray (first_child items) minimum maximum unique)"
  using first_child_in [of items] by (cases "first_child items") (auto simp: rule_closed_def list_all_iff)

lemma compile_definitions_at:
  assumes "compile_definitions compile_node path v st = Ok st'" "compiles_below v" "tree_ok v" "at_node nid st"
  shows "at_node nid st'"
proof -
  obtain cs ids where cs: "definition_children path v = Ok cs" "compile_children compile_node st cs = Ok (st', ids)"
    using assms(1) by (auto simp: compile_definitions_def)
  show ?thesis
    using children_at [OF cs(2) assms(2,4)] definition_children_smaller [OF cs(1)] definition_children_tree [OF assms(3) cs(1)] by blast
qed

lemma compile_object_at:
  assumes "compile_object compile_node nid path v st = Ok st'" "compiles_below v" "tree_ok v" "at_node nid st"
  shows "at_node nid st'"
proof (cases "has_keyword v [''properties'', ''required'', ''additionalProperties'']")
  case True
  then obtain declared st1 ids required st2 extra where
      declared: "property_children path v = Ok declared"
    and 1: "compile_children compile_node st (property_paths path declared) = Ok (st1, ids)"
    and 2: "compile_children compile_node st1 (keyword_child path v ''additionalProperties'') = Ok (st2, extra)"
    and st': "st' = push_rules nid [Some (object_rule declared ids required (first_child extra))] [] st2"
    using assms(1) by (auto simp: compile_object_def)
  have A: "at_node nid st1" "\<forall>i \<in> set ids. i < length (co_nodes st1)"
    using children_at [OF 1 assms(2,4)] property_paths_smaller [OF declared] property_paths_tree [OF assms(3) declared] by blast+
  have B: "at_node nid st2" "\<forall>i \<in> set extra. i < length (co_nodes st2)"
    using keyword_children_at [OF 2 assms(2,3) A(1)] by blast+
  have "keeps st1 st2"
    using compile_children_keeps [of st1 "keyword_child path v ''additionalProperties''" compile_node] 2 A(1) assms(2,3)
      keyword_child_smaller keyword_child_tree
    by (auto simp: at_node_def compiles_below_def)
  then have "\<forall>i \<in> set ids. i < length (co_nodes st2)" using A(2) by (auto simp: keeps_def)
  then have "rule_closed (length (co_nodes st2)) (object_rule declared ids required (first_child extra))"
    using B(2) by (rule object_rule_closed)
  then show ?thesis unfolding st' using B(1) by (intro push_one_at) (auto simp: object_rule_def)
qed (use assms in \<open>simp add: compile_object_def\<close>)

lemma compile_array_at:
  assumes "compile_array compile_node nid path v st = Ok st'" "compiles_below v" "tree_ok v" "at_node nid st"
  shows "at_node nid st'"
proof (cases "has_keyword v [''items'', ''minItems'', ''maxItems'', ''uniqueItems'']")
  case True
  then obtain st1 items minimum maximum unique where
      1: "compile_children compile_node st (keyword_child path v ''items'') = Ok (st1, items)"
    and st': "st' = push_rules nid [Some (RArray (first_child items) minimum maximum unique)] [] st1"
    using assms(1) by (auto simp: compile_array_def)
  from keyword_children_at [OF 1 assms(2-4)] show ?thesis
    unfolding st' by (intro push_one_at array_rule_closed) auto
qed (use assms in \<open>simp add: compile_array_def\<close>)

lemma compile_branch_at:
  assumes "compile_branch compile_node nid path v st combinator = Ok st'" "compiles_below v" "tree_ok v" "at_node nid st"
    and "snd combinator \<in> {RAllOf, RAnyOf, ROneOf}"
  shows "at_node nid st'"
proof (cases "jget v (fst combinator) = None")
  case True
  then show ?thesis using assms(1,4) by (cases combinator) (simp add: compile_branch_def)
next
  case False
  then obtain branches st1 ids where branches: "branch_children path v (fst combinator) = Ok branches"
    and 1: "compile_children compile_node st branches = Ok (st1, ids)"
    and st': "st' = push_rules nid [Some (snd combinator ids)] ids st1"
    using assms(1) by (cases combinator) (auto simp: compile_branch_def split: if_splits)
  have "at_node nid st1" "\<forall>i \<in> set ids. i < length (co_nodes st1)"
    using children_at [OF 1 assms(2,4)] branch_children_smaller [OF branches] branch_children_tree [OF assms(3) branches] by blast+
  moreover have "rule_same (snd combinator ids) = ids" "rule_down (snd combinator ids) = []" "rule_tokens (snd combinator ids) = []"
    using assms(5) by auto
  ultimately show ?thesis unfolding st' by (intro push_one_at) (auto simp: rule_closed_def list_all_iff)
qed

lemma compile_branches_at:
  assumes "compile_branches compile_node nid path v st = Ok st'" "compiles_below v" "tree_ok v" "at_node nid st"
  shows "at_node nid st'"
  by (rule foldR_invariant [where P = "at_node nid", OF _ assms(4) assms(1) [unfolded compile_branches_def]])
     (rule compile_branch_at [OF _ assms(2,3)], auto)

lemma compile_conditional_at:
  assumes "compile_conditional compile_node nid path v st = Ok st'" "compiles_below v" "tree_ok v" "at_node nid st"
  shows "at_node nid st'"
proof (cases "jget v ''if'' = None \<or> jget v ''then'' = None")
  case True
  then show ?thesis using assms by (auto simp: compile_conditional_def split: option.splits)
next
  case False
  then obtain a b where ab: "jget v ''if'' = Some a" "jget v ''then'' = Some b" by auto
  with assms(1) obtain st1 condition st2 consequence st3 alternative where
      1: "compile_children compile_node st (keyword_child path v ''if'') = Ok (st1, condition)"
    and 2: "compile_children compile_node st1 (keyword_child path v ''then'') = Ok (st2, consequence)"
    and 3: "compile_children compile_node st2 (keyword_child path v ''else'') = Ok (st3, alternative)"
    and st': "st' = push_rules nid [Some (RConditional (hd condition) (hd consequence) (first_child alternative))]
        (condition @ consequence @ alternative) st3"
    by (auto simp: compile_conditional_def)
  have A: "at_node nid st1 \<and> length condition = 1 \<and> (\<forall>i \<in> set condition. i < length (co_nodes st1))"
    using keyword_children_at [OF 1 assms(2-4)] ab by (simp add: keyword_child_def)
  have B: "at_node nid st2 \<and> length consequence = 1 \<and> (\<forall>i \<in> set consequence. i < length (co_nodes st2))"
    using keyword_children_at [OF 2 assms(2,3) conjunct1 [OF A]] ab by (simp add: keyword_child_def)
  have C: "at_node nid st3 \<and> (\<forall>i \<in> set alternative. i < length (co_nodes st3))"
    using keyword_children_at [OF 3 assms(2,3) conjunct1 [OF B]] by simp
  have keeps: "keeps s s'" if "compile_children compile_node s (keyword_child path v k) = Ok (s', ids)" "compiled_ok s" for s s' k ids
    using compile_children_keeps [of s "keyword_child path v k" compile_node] that assms(2,3) keyword_child_smaller keyword_child_tree
    by (auto simp: compiles_below_def)
  have "length (co_nodes st1) \<le> length (co_nodes st2)" "length (co_nodes st2) \<le> length (co_nodes st3)"
    using keeps [OF 2] keeps [OF 3] A B by (auto simp: at_node_def keeps_def)
  moreover obtain i j where "condition = [i]" "consequence = [j]" using A B by (metis length_Suc_conv length_0_conv One_nat_def)
  ultimately show ?thesis unfolding st' using A B C
    by (intro push_one_at)
       (cases "first_child alternative"; force simp: rule_closed_def list_all_iff dest: first_child_in)+
qed

lemma compile_node_Ok:
  assumes "compile_node st v path = Ok r"
  defines "nid \<equiv> length (co_nodes st)" and "st1 \<equiv> add_node path st"
  shows "(\<exists>b. r = (if b then st1\<lparr>co_true_schemas := Suc (co_true_schemas st1)\<rparr>
            else push_rules nid [Some RFalse] [] (st1\<lparr>co_false_schemas := Suc (co_false_schemas st1)\<rparr>), nid))
    \<or> (\<exists>mems st2 st3. check_keywords path mems (st1\<lparr>co_object_schemas := Suc (co_object_schemas st1)\<rparr>) = Ok st2
          \<and> compile_definitions compile_node path v st2 = Ok st3
          \<and> ((\<exists>target. r = (add_reference nid target st3, nid)) \<or>
           (\<exists>rules st4 st5 st6 st7. assertion_rules path v = Ok rules
             \<and> compile_object compile_node nid path v (push_rules nid (map Some rules) [] st3) = Ok st4
             \<and> compile_array compile_node nid path v st4 = Ok st5
             \<and> compile_branches compile_node nid path v st5 = Ok st6
             \<and> compile_conditional compile_node nid path v st6 = Ok st7 \<and> r = (st7, nid))))"
proof (cases "as_bool v")
  case (Some b)
  then show ?thesis
    using assms(1) unfolding nid_def st1_def by (subst (asm) compile_node.simps) (auto simp: Let_def split: if_splits)
next
  case None
  with assms(1) obtain mems st2 st3 where
      "check_keywords path mems (st1\<lparr>co_object_schemas := Suc (co_object_schemas st1)\<rparr>) = Ok st2"
      "compile_definitions compile_node path v st2 = Ok st3"
    and rest: "(case jget v ''$ref'' of
                Some reference \<Rightarrow>
                  map_ok (\<lambda>target. (add_reference nid target st3, nid)) (reference_target path mems reference)
              | None \<Rightarrow>
                  bindR (assertion_rules path v) (\<lambda>rules.
                  bindR (compile_object compile_node nid path v (push_rules nid (map Some rules) [] st3)) (\<lambda>st4.
                  bindR (compile_array compile_node nid path v st4) (\<lambda>st5.
                  bindR (compile_branches compile_node nid path v st5) (\<lambda>st6.
                  bindR (compile_conditional compile_node nid path v st6) (\<lambda>st7. Ok (st7, nid))))))) = Ok r"
    unfolding nid_def st1_def
    by (subst (asm) compile_node.simps) (fastforce simp: Let_def simp del: members_Some_iff split: if_splits)
  moreover from rest have "(\<exists>target. r = (add_reference nid target st3, nid)) \<or>
           (\<exists>rules st4 st5 st6 st7. assertion_rules path v = Ok rules
             \<and> compile_object compile_node nid path v (push_rules nid (map Some rules) [] st3) = Ok st4
             \<and> compile_array compile_node nid path v st4 = Ok st5
             \<and> compile_branches compile_node nid path v st5 = Ok st6
             \<and> compile_conditional compile_node nid path v st6 = Ok st7 \<and> r = (st7, nid))"
    by (cases "jget v ''$ref''") auto
  ultimately show ?thesis by blast
qed

lemma compile_node_keeps:
  "tree_ok v \<Longrightarrow> compiled_ok st \<Longrightarrow> keeps_result st (compile_node st v path)"
proof (induction "jsize v" arbitrary: v st path rule: less_induct)
  case less
  have below: "compiles_below v" using less.hyps by (simp add: compiles_below_def)
  let ?nid = "length (co_nodes st)" and ?st = "add_node path st"
  have start: "at_node ?nid ?st" using add_node_ok [OF less.prems(2), of path] by (simp add: at_node_def)
  have stop: "keeps st st' \<and> ?nid < length (co_nodes st')" if "at_node ?nid st'" for st'
    using that by (simp add: at_node_def keeps_def)
  show ?case
  proof (cases "compile_node st v path")
    case (Ok r)
    consider (bool) b where "r = (if b then ?st\<lparr>co_true_schemas := Suc (co_true_schemas ?st)\<rparr>
            else push_rules ?nid [Some RFalse] [] (?st\<lparr>co_false_schemas := Suc (co_false_schemas ?st)\<rparr>), ?nid)"
      | (schema) mems st2 st3 where "check_keywords path mems (?st\<lparr>co_object_schemas := Suc (co_object_schemas ?st)\<rparr>) = Ok st2"
          "compile_definitions compile_node path v st2 = Ok st3"
          "(\<exists>target. r = (add_reference ?nid target st3, ?nid)) \<or>
           (\<exists>rules st4 st5 st6 st7. assertion_rules path v = Ok rules
             \<and> compile_object compile_node ?nid path v (push_rules ?nid (map Some rules) [] st3) = Ok st4
             \<and> compile_array compile_node ?nid path v st4 = Ok st5
             \<and> compile_branches compile_node ?nid path v st5 = Ok st6
             \<and> compile_conditional compile_node ?nid path v st6 = Ok st7 \<and> r = (st7, ?nid))"
      using compile_node_Ok [OF Ok] by blast
    then show ?thesis
    proof cases
      case bool
      have "at_node ?nid (?st\<lparr>co_true_schemas := a\<rparr>)" "at_node ?nid (?st\<lparr>co_false_schemas := a\<rparr>)" for a
        using start by (simp_all add: at_node_def)
      then show ?thesis unfolding Ok bool
        using stop push_one_at [of ?nid _ RFalse "[]"] by (simp add: rule_closed_def)
    next
      case schema
      have "at_node ?nid (?st\<lparr>co_object_schemas := a\<rparr>)" for a using start by (simp add: at_node_def)
      then have 3: "at_node ?nid st3"
        using schema(1,2) below less.prems(1) check_keywords_at compile_definitions_at by blast
      from schema(3) show ?thesis
      proof
        assume "\<exists>target. r = (add_reference ?nid target st3, ?nid)"
        then obtain target where r: "r = (add_reference ?nid target st3, ?nid)" by blast
        have "at_node ?nid (add_reference ?nid target st3)"
          using 3 add_reference_ok [of st3 ?nid target] by (simp add: at_node_def)
        then show ?thesis unfolding Ok r using stop by simp
      next
        assume "\<exists>rules st4 st5 st6 st7. assertion_rules path v = Ok rules
             \<and> compile_object compile_node ?nid path v (push_rules ?nid (map Some rules) [] st3) = Ok st4
             \<and> compile_array compile_node ?nid path v st4 = Ok st5
             \<and> compile_branches compile_node ?nid path v st5 = Ok st6
             \<and> compile_conditional compile_node ?nid path v st6 = Ok st7 \<and> r = (st7, ?nid)"
        then obtain rules st4 st5 st6 st7 where rules: "assertion_rules path v = Ok rules"
          and o: "compile_object compile_node ?nid path v (push_rules ?nid (map Some rules) [] st3) = Ok st4"
          and a: "compile_array compile_node ?nid path v st4 = Ok st5"
          and b: "compile_branches compile_node ?nid path v st5 = Ok st6"
          and c: "compile_conditional compile_node ?nid path v st6 = Ok st7" and r: "r = (st7, ?nid)"
          by blast
        note keep = below less.prems(1)
        have "at_node ?nid (push_rules ?nid (map Some rules) [] st3)"
          by (rule push_plain_at [OF 3 assertion_rules_plain [OF less.prems(1) rules]])
        then have "at_node ?nid st7"
          by (intro compile_conditional_at [OF c keep] compile_branches_at [OF b keep] compile_array_at [OF a keep]
              compile_object_at [OF o keep])
        then show ?thesis unfolding Ok r using stop by simp
      qed
    qed
  qed simp
qed

section \<open>The table that is written\<close>

abbreviation pending_references :: "compiler \<Rightarrow> (nat \<times> nat \<times> string) list \<Rightarrow> compiler" where
  "pending_references st rest \<equiv> st\<lparr>co_references := rest\<rparr>"

lemma resolve_reference_ok:
  assumes "compiled_ok (pending_references st ((nid, slot, target) # rest))"
    and "resolve_reference st (nid, slot, target) = Ok st'"
  shows "compiled_ok (pending_references st' rest)"
proof -
  let ?st = "pending_references st ((nid, slot, target) # rest)" and ?n = "length (co_nodes st)"
  let ?node = "co_nodes st ! nid"
  obtain found where found: "btree_get (co_paths st) target = Some found"
    and st': "st' = st\<lparr>co_nodes := (co_nodes st)[nid :=
             ?node\<lparr>cn_rules := (cn_rules ?node)[slot := Some (RRef found)],
                  cn_same_instance := cn_same_instance ?node @ [found]\<rparr>]\<rparr>"
    using assms(2) by (auto simp: resolve_reference_def Let_def)
  let ?new = "?node\<lparr>cn_rules := (cn_rules ?node)[slot := Some (RRef found)], cn_same_instance := cn_same_instance ?node @ [found]\<rparr>"
  have nid: "nid < ?n" "slot < length (cn_rules ?node)"
    using compiled_ok_reference [OF assms(1), of nid slot target] by simp_all
  have "found < ?n"
    using compiled_ok_path [OF assms(1), of target found] found by (simp add: btree_get_map_of map_of_SomeD)
  then have new: "node_ok ?n ?new"
    using compiled_ok_node [OF assms(1), of nid] nid
    by (auto simp: node_ok_def rule_closed_def dest!: set_update_subset_insert [THEN subsetD])
  have nodes: "co_nodes st' = (co_nodes st)[nid := ?new]" and paths: "co_paths st' = co_paths st" by (simp_all add: st')
  have len: "length (cn_rules (co_nodes st' ! i)) = length (cn_rules (co_nodes st ! i))" for i
    using nid by (cases "i = nid") (simp_all add: nodes)
  have "node_ok ?n (co_nodes st' ! i)" if "i < ?n" for i
    using compiled_ok_node [OF assms(1), of i] that new nid by (cases "i = nid") (simp_all add: nodes)
  moreover have "i < ?n" if "(p, i) \<in> set (co_paths st')" for p i
    using compiled_ok_path [OF assms(1), of p i] that by (simp add: paths)
  moreover have "i < ?n \<and> s < length (cn_rules (co_nodes st' ! i))" if "(i, s, t) \<in> set rest" for i s t
    using compiled_ok_reference [OF assms(1), of i s t] that len by simp
  moreover have "\<exists>t. (i, s, t) \<in> set rest"
    if i: "i < ?n" "s < length (cn_rules (co_nodes st' ! i))" "cn_rules (co_nodes st' ! i) ! s = None" for i s
  proof -
    have "\<not> (i = nid \<and> s = slot)" using i nid by (auto simp: nodes)
    moreover have "cn_rules (co_nodes st ! i) ! s = None"
      using i nid by (cases "i = nid"; cases "s = slot") (simp_all add: nodes)
    ultimately show ?thesis
      using compiled_ok_slot [OF assms(1), of i s] i(1,2) len by auto
  qed
  ultimately show ?thesis by (subst compiled_ok_def) (simp add: nodes)
qed

lemma resolve_references_ok:
  "compiled_ok (pending_references st refs) \<Longrightarrow> foldR resolve_reference st refs = Ok st' \<Longrightarrow> compiled_ok (pending_references st' [])"
proof (induction refs arbitrary: st)
  case (Cons r refs)
  obtain nid slot target where r: "r = (nid, slot, target)" by (cases r)
  from Cons.prems(2) obtain st1 where "resolve_reference st r = Ok st1" "foldR resolve_reference st1 refs = Ok st'" by auto
  with Cons r show ?case using resolve_reference_ok by blast
qed simp

lemma emit_node_rules:
  "emit_node node = Ok out \<Longrightarrow> cn_rules node = map Some (sn_rules out)"
proof -
  assume "emit_node node = Ok out"
  then have "list_all2 (\<lambda>rule out. ok_or rule (CompileError (cn_path node) IncompleteTable) = Ok out) (cn_rules node) (sn_rules out)"
    by (auto simp: emit_node_def mapR_Ok_iff)
  then show ?thesis by (induction rule: list_all2_induct) auto
qed

lemma empty_compiler_ok: "compiled_ok empty_compiler"
  by (simp add: compiled_ok_def empty_compiler_def)

lemma compile_table_ok:
  assumes "compile_table v = Ok table" and "tree_ok v"
  shows "schema_closed table \<and> acyclic (same_edges table)"
proof -
  obtain st nid st' where 1: "compile_node empty_compiler v [] = Ok (st, nid)"
    and 2: "resolve_references st = Ok st'" and 3: "check_cycles (co_nodes st') = Ok ()"
    and 4: "mapR emit_node (co_nodes st') = Ok table"
    using assms(1) by (auto simp: compile_table_def)
  have "compiled_ok st" using compile_node_keeps [OF assms(2) empty_compiler_ok, of "[]"] 1 by (simp add: keeps_def)
  then have ok: "compiled_ok (pending_references st' [])"
    using resolve_references_ok [where st = st and refs = "co_references st"] 2 by (simp add: resolve_references_def)
  have len: "length table = length (co_nodes st')" using 4 by (rule mapR_length)
  have emit: "cn_rules (co_nodes st' ! i) = map Some (sn_rules (table ! i))" if "i < length table" for i
    using 4 that len by (intro emit_node_rules) (simp add: mapR_Ok_iff list_all2_conv_all_nth)
  have node: "rule_closed (length table) rule \<and> set (rule_same rule) \<subseteq> set (cn_same_instance (co_nodes st' ! i))"
    if "i < length table" "rule \<in> set (sn_rules (table ! i))" for i rule
    using compiled_ok_node [OF ok, of i] that emit [of i] len by (auto simp: node_ok_def)
  have "schema_closed table"
    using node by (fastforce simp: schema_closed_def list_all_iff in_set_conv_nth)
  moreover have "same_edges table \<subseteq> instance_edges (co_nodes st')"
    using node len by (auto simp: same_edges_def instance_edges_def)
  then have "acyclic (same_edges table)"
    using check_cycles_acyclic [OF 3] acyclic_subset by blast
  ultimately show ?thesis by blast
qed

section \<open>Properties\<close>

text \<open>C17: The machine computes the meaning of the schema: when a node has a verdict on a value, there is a
  number of operations from which on validation returns exactly that verdict, with the instance path
  and schema path of its failure, and below which it reports exhaustion, never a verdict.\<close>

theorem schema_validate_exact:
  assumes "node_verdict nodes start v [] x"
  shows "\<exists>n. \<forall>operations. schema_validate nodes start v operations =
    (if operations < n then Err (Invalid (SchemaOperations operations)) else outcome x)"
  using schema_validate_verdict [OF assms] .

theorem schema_validate_exact_witness:
  "\<exists>n. \<forall>operations. schema_validate [\<lparr>sn_path = ''/a'', sn_rules = [RMinLength 2]\<rparr>] 0 (JString ''x'') operations =
    (if operations < n then Err (Invalid (SchemaOperations operations))
     else Err (Invalid (Rejected \<lparr>mm_instance_path = '''', mm_schema_path = ''/a/minLength''\<rparr>)))"
proof -
  let ?node = "\<lparr>sn_path = ''/a'', sn_rules = [RMinLength 2]\<rparr>"
  have short: "simple_check (RMinLength 2) (JString ''x'') = Ok False" by code_simp
  have "rule_verdict [?node] ''/a'' (RMinLength 2) (JString ''x'') [] (Err ([], ''/a'', ''minLength''))"
    using node_verdict_rule_verdict.simple [OF _ short, of "[?node]" "''/a''" "[]"] by simp
  then have "list_all2 (\<lambda>rule x. rule_verdict [?node] (sn_path ?node) rule (JString ''x'') [] x) (sn_rules ?node)
      [Err ([], ''/a'', ''minLength'')]"
    by simp
  then have verdict: "node_verdict [?node] 0 (JString ''x'') [] (Err ([], ''/a'', ''minLength''))"
    using node_verdict_rule_verdict.node [of 0 "[?node]" ?node "JString ''x''" "[]"] by (fastforce simp: collect_def)
  have told: "outcome (Err ([], ''/a'', ''minLength'')) =
      Err (Invalid (Rejected \<lparr>mm_instance_path = '''', mm_schema_path = ''/a/minLength''\<rparr>))"
    by (simp add: instance_path_def schema_path_def)
  show ?thesis using schema_validate_exact [OF verdict] unfolding told .
qed

text \<open>C16: A schema the build accepts is decided: the compiled table of a schema document, from any of its
  nodes, has a verdict on every value, and validation with enough operations returns it; so no
  validation of a compiled schema panics, meets an invalid definition, or runs forever.\<close>

theorem compiled_schema_decides:
  assumes "document_decode bytes lims = Ok d" and "compile_table (document_tree d) = Ok table" and "start < length table"
  shows "\<exists>x n. node_verdict table start v [] x \<and> (\<forall>operations. schema_validate table start v operations =
    (if operations < n then Err (Invalid (SchemaOperations operations)) else outcome x))"
proof -
  have "schema_closed table \<and> acyclic (same_edges table)"
    using compile_table_ok [OF assms(2) document_tree_ok [OF assms(1)]] .
  then obtain x where "node_verdict table start v [] x"
    using node_verdict_exists assms(3) by blast
  with schema_validate_verdict [OF this] show ?thesis by blast
qed

text \<open>A schema with a reference, a required member and a bound, for the concrete instance.\<close>

definition sample_schema_text :: string where
  "sample_schema_text =
     ''{\"definitions\":{\"n\":{\"minimum\":3}},\"required\":[\"a\"],\"properties\":{\"a\":{\"$ref\":\"#/definitions/n\"}}}''"

definition sample_schema_limits :: limits where
  "sample_schema_limits = \<lparr>lim_bytes = 200, lim_nodes = 50, lim_depth = 8\<rparr>"

definition sample_schema_document :: document where
  "sample_schema_document = (case document_decode sample_schema_text sample_schema_limits of Ok d \<Rightarrow> d)"

definition sample_table :: "schema_node list" where
  "sample_table = (case compile_table (document_tree sample_schema_document) of Ok table \<Rightarrow> table)"

lemma sample_schema_decodes: "document_decode sample_schema_text sample_schema_limits = Ok sample_schema_document"
  by code_simp

lemma sample_schema_compiles: "compile_table (document_tree sample_schema_document) = Ok sample_table"
  by code_simp

lemma sample_table_size: "length sample_table = 3"
  by code_simp

theorem compiled_schema_decides_witness:
  "\<exists>x n. node_verdict sample_table 0 (JObject []) [] x
     \<and> (\<forall>operations. schema_validate sample_table 0 (JObject []) operations =
          (if operations < n then Err (Invalid (SchemaOperations operations)) else outcome x))"
  by (rule compiled_schema_decides [OF sample_schema_decodes sample_schema_compiles]) (simp add: sample_table_size)

section \<open>The generated tables\<close>

lemma compile_contract_table: "compile_contract v = Ok c \<Longrightarrow> compile_table v = Ok (cp_table c)"
  by (auto simp: compile_contract_def compile_table_def split: prod.splits)

lemma singleton_unique: "{x \<in> A. P x} = {y} \<Longrightarrow> (\<exists>!x. x \<in> A \<and> P x) \<and> y \<in> A"
  by (rule conjI, rule ex1I [of _ y]) auto

lemma terminal_row_adds:
  assumes "terminal_row outcomes indexed = Ok outcomes'"
  shows "\<exists>name is_error code. outcomes' = outcomes @ [(name, is_error, code)]
    \<and> name \<noteq> [] \<and> name \<notin> set (map fst outcomes) \<and> code \<le> 255"
proof -
  obtain path n code name is_error where "as_unsigned n 255 = Ok code" "name \<noteq> []" "name \<notin> set (map fst outcomes)"
    "outcomes' = outcomes @ [(name, is_error, unat code)]"
    using assms by (fastforce simp: terminal_row_def Let_def split: if_splits option.splits prod.splits)
  moreover from this(1) have "code \<le> 255" by (cases "jn_value n") (auto simp: as_unsigned_def Let_def split: if_splits)
  then have "unat code \<le> 255" by (simp add: word_le_nat_alt)
  ultimately show ?thesis by blast
qed

lemma terminal_outcomes_ok:
  assumes "terminal_outcomes definitions = Ok outcomes"
  shows "distinct (map fst outcomes) \<and> (\<forall>(name, is_error, code) \<in> set outcomes. name \<noteq> [] \<and> code \<le> 255)"
proof -
  obtain rows where rows: "foldR terminal_row [] (enumerate 0 rows) = Ok outcomes"
    using assms by (auto simp: terminal_outcomes_def split: if_splits)
  show ?thesis
    by (rule foldR_invariant [OF _ _ rows]) (auto dest!: terminal_row_adds)
qed

text \<open>A compiled contract's terminal table is a function: subtypes are distinct and nonempty, exit codes
  fit a byte, exactly one subtype is the success, and the error subtypes are exactly the others.\<close>

theorem compiled_terminal_table:
  assumes "compile_contract v = Ok c"
  shows "distinct (map fst (cp_terminal_outcomes c))
    \<and> (\<forall>(name, is_error, code) \<in> set (cp_terminal_outcomes c). name \<noteq> [] \<and> code \<le> 255)
    \<and> (\<exists>!row. row \<in> set (cp_terminal_outcomes c) \<and> \<not> fst (snd row))
    \<and> (\<exists>code. (cp_success_subtype c, False, code) \<in> set (cp_terminal_outcomes c))
    \<and> set (cp_error_subtypes c) = {name. \<exists>code. (name, True, code) \<in> set (cp_terminal_outcomes c)}
    \<and> cp_error_subtypes c \<noteq> []"
proof -
  obtain ds where outcomes: "terminal_outcomes ds = Ok (cp_terminal_outcomes c)"
    and success: "success_subtype (cp_terminal_outcomes c) = Ok (cp_success_subtype c)"
    and errors: "error_subtypes (cp_terminal_outcomes c) = Ok (cp_error_subtypes c)"
    using assms by (auto simp: compile_contract_def split: option.splits)
  obtain code where one: "filter (\<lambda>(_, is_error, _). \<not> is_error) (cp_terminal_outcomes c) = [(cp_success_subtype c, False, code)]"
  proof -
    obtain name e k where f: "filter (\<lambda>(_, is_error, _). \<not> is_error) (cp_terminal_outcomes c) = [(name, e, k)]" "cp_success_subtype c = name"
      using success by (auto simp: success_subtype_def split: list.splits prod.splits)
    then have "(name, e, k) \<in> set (filter (\<lambda>(_, is_error, _). \<not> is_error) (cp_terminal_outcomes c))" by simp
    then have "\<not> e" by simp
    with f that show ?thesis by simp
  qed
  have "{row \<in> set (cp_terminal_outcomes c). \<not> fst (snd row)} =
      set (filter (\<lambda>(_, is_error, _). \<not> is_error) (cp_terminal_outcomes c))" by auto
  then have "{row \<in> set (cp_terminal_outcomes c). \<not> fst (snd row)} = {(cp_success_subtype c, False, code)}"
    by (simp add: one)
  note unique = singleton_unique [OF this]
  have "cp_error_subtypes c = map fst (filter (\<lambda>(_, is_error, _). is_error) (cp_terminal_outcomes c))" "cp_error_subtypes c \<noteq> []"
    using errors by (auto simp: error_subtypes_def Let_def split: if_splits)
  moreover from this(1) have "set (cp_error_subtypes c) = {name. \<exists>code. (name, True, code) \<in> set (cp_terminal_outcomes c)}"
    by force
  ultimately show ?thesis using terminal_outcomes_ok [OF outcomes] unique by blast
qed

text \<open>A contract with one event, one system record, one partial record and two terminal outcomes.\<close>

definition const_schema :: "jvalue \<Rightarrow> jvalue" where
  "const_schema v = JObject [(''const'', v)]"

definition variant_schema :: "string \<Rightarrow> string \<Rightarrow> (string \<times> jvalue) list \<Rightarrow> jvalue" where
  "variant_schema key name extra = JObject (extra @ [(''properties'', JObject [(key, const_schema (JString name))])])"

definition sample_row :: "string \<Rightarrow> bool \<Rightarrow> string \<Rightarrow> jvalue" where
  "sample_row name is_error code =
     JObject [(''properties'', JObject
       [(''exit_code'', const_schema (case json_number_parse code of Ok n \<Rightarrow> JNumber n)),
        (''is_error'', const_schema (JBool is_error)), (''subtype'', const_schema (JString name))]),
      (''required'', JArray [JString ''subtype'', JString ''is_error''])]"

definition sample_contract :: jvalue where
  "sample_contract = JObject
     [(''$id'', JString ''urn:agent-service:stream-contract:1''), (''$schema'', JString draft07),
      (''definitions'', JObject
        [(''goalCheckpointEvidenceBytes'', JBool True), (''goalSnapshot'', JBool True), (''streamEvent'', JObject [(''oneOf'', JArray [variant_schema ''type'' ''message_start'' []])]),
         (''terminalOutcome'', JObject [(''oneOf'', JArray [sample_row ''success'' False ''0'', sample_row ''error_cancelled'' True ''0''])]),
         (''terminalResult'', JBool True)]),
      (''oneOf'', JArray [variant_schema ''type'' ''system''
        [(''oneOf'', JArray [variant_schema ''subtype'' ''init'' []])]])]"

definition sample_compilation :: compilation where
  "sample_compilation = (case compile_contract sample_contract of Ok c \<Rightarrow> c)"

lemma sample_contract_compiles: "compile_contract sample_contract = Ok sample_compilation"
  by code_simp

theorem compiled_terminal_table_witness:
  "compile_contract sample_contract = Ok sample_compilation
    \<and> (\<exists>!row. row \<in> set (cp_terminal_outcomes sample_compilation) \<and> \<not> fst (snd row))
    \<and> cp_error_subtypes sample_compilation \<noteq> []"
  using compiled_terminal_table [OF sample_contract_compiles] sample_contract_compiles by blast

end
