(* ===== verification/Contract_Stream.thy ===== *)
theory Contract_Stream
  imports Schema_Compiled
begin

text \<open>
  \<^verbatim>\<open>protocol/engine/src/lib.rs\<close> and \<^verbatim>\<open>stream.rs\<close>: the errors of the contract engine, the readers of record
  fields, validation of a record against the compiled contract, and the decoding of one record. The
  contract the build compiles is the argument \<open>c\<close>, a \<open>compilation\<close>. The texts of a refusal are kept as
  the literals of the source (\<open>Detail\<close>) or, where the source formats values into them, as a
  constructor with those values. \<open>ContractPanic\<close> is a failed \<^verbatim>\<open>expect\<close>, index or slice.
\<close>

section \<open>Errors\<close>

datatype cause =
    FieldMissing nat string
  | TextMissing nat string
  | NotANumber string
  | NotUnsigned string unsigned_conversion_error
  | ContractViolated nat mismatch
  | UnsupportedEventType nat string
  | GoalCheckpointEvidence nat string
  | PhysicalUsage string
  | GenerationEvidence string
  | AuthorshipEvidence string
  | AuthorshipCites string string string
  | AuthorshipOperator nat u64
  | AuthorshipModel nat string string string u64
  | AuthorshipUncovered nat nat
  | RuntimeEvidence string nat "string list"
  | WireLimit nat resource nat
  | WireSyntax nat decode_error
  | DefinitionCause definition_cause
  | OperationsLimit nat
  | DerivedEvidenceCount decode_error
  | GenerationLimit resource nat
  | GenerationSyntax decode_error
  | Detail string

datatype contract_error =
    InvalidRecord cause
  | InvalidDefinition cause
  | InvalidConfiguration cause
  | ValidationUnavailable cause

datatype contract_fault = Fault contract_error | ContractPanic

type_synonym 'a contract_result = "('a, contract_fault) result"

abbreviation invalid_record :: "cause \<Rightarrow> 'a contract_result" where
  "invalid_record cause \<equiv> Err (Fault (InvalidRecord cause))"

section \<open>Fields of records\<close>

definition SAFE_INTEGER :: u64 where
  "SAFE_INTEGER = 9007199254740991"

definition field :: "jvalue \<Rightarrow> string \<Rightarrow> nat \<Rightarrow> jvalue contract_result" where
  "field v key line = ok_or (jget v key) (Fault (InvalidRecord (FieldMissing line key)))"

definition text_field :: "jvalue \<Rightarrow> string \<Rightarrow> nat \<Rightarrow> string contract_result" where
  "text_field v key line =
     bindR (field v key line) (\<lambda>f.
       case as_str f of
         None \<Rightarrow> invalid_record (TextMissing line key)
       | Some s \<Rightarrow> if s = [] then invalid_record (TextMissing line key) else Ok s)"

definition unsigned :: "jvalue \<Rightarrow> string \<Rightarrow> u64 \<Rightarrow> u64 contract_result" where
  "unsigned v name maximum =
     bindR (ok_or (as_number v) (Fault (InvalidRecord (NotANumber name)))) (\<lambda>n.
       map_err (\<lambda>cause. Fault (InvalidRecord (NotUnsigned name cause))) (as_unsigned n maximum))"

lemma text_field_Ok_iff: "text_field v key line = Ok s \<longleftrightarrow> jget v key = Some (JString s) \<and> s \<noteq> []"
proof (cases "jget v key")
  case (Some f)
  then show ?thesis by (cases f) (auto simp: text_field_def field_def)
qed (simp add: text_field_def field_def)

lemma field_Ok_iff [simp]: "field v key line = Ok w \<longleftrightarrow> jget v key = Some w"
  by (simp add: field_def)

lemma unsigned_bound: "unsigned v name maximum = Ok n \<Longrightarrow> n \<le> maximum"
proof -
  assume "unsigned v name maximum = Ok n"
  then obtain m where "as_unsigned m maximum = Ok n" by (auto simp: unsigned_def)
  then show ?thesis by (cases "jn_value m") (auto simp: as_unsigned_def split: if_splits)
qed

section \<open>Kinds of events\<close>

text \<open>The enumerations \<^verbatim>\<open>build.rs\<close> generates from the discriminators of the stream contract.\<close>

datatype event_kind =
    EvSystem | EvUser | EvAssistant | EvResult | EvStreamEvent | EvModelRequest | EvModelUtilityRequest
  | EvModelUtilityCompletion | EvModelResponse | EvModelNormalizationSeed | EvModelGeneration
  | EvModelAttemptCompletion

datatype partial_kind =
    PkMessageStart | PkContentBlockStart | PkContentBlockDelta | PkContentBlockStop | PkMessageStop
  | PkToolProgress | PkGoalState | PkActiveGoal

definition event_kind_from_wire :: "string \<Rightarrow> event_kind option" where
  "event_kind_from_wire name =
     map_of [(''system'', EvSystem), (''user'', EvUser), (''assistant'', EvAssistant), (''result'', EvResult),
       (''stream_event'', EvStreamEvent), (''model_request'', EvModelRequest),
       (''model_utility_request'', EvModelUtilityRequest), (''model_utility_completion'', EvModelUtilityCompletion),
       (''model_response'', EvModelResponse), (''model_normalization_seed'', EvModelNormalizationSeed),
       (''model_generation'', EvModelGeneration), (''model_attempt_completion'', EvModelAttemptCompletion)] name"

definition partial_kind_from_wire :: "string \<Rightarrow> partial_kind option" where
  "partial_kind_from_wire name =
     map_of [(''message_start'', PkMessageStart), (''content_block_start'', PkContentBlockStart),
       (''content_block_delta'', PkContentBlockDelta), (''content_block_stop'', PkContentBlockStop),
       (''message_stop'', PkMessageStop), (''tool_progress'', PkToolProgress), (''goal_state'', PkGoalState),
       (''active_goal'', PkActiveGoal)] name"

section \<open>Validation of a record\<close>

text \<open>\<^verbatim>\<open>SchemaEntry::node\<close>, the generated table from entry names to nodes.\<close>

definition entry_node :: "compilation \<Rightarrow> string \<Rightarrow> nat" where
  "entry_node c name = (case map_of (cp_entries c) name of Some nid \<Rightarrow> nid | None \<Rightarrow> length (cp_table c))"

definition validate_owned :: "compilation \<Rightarrow> string \<Rightarrow> jvalue \<Rightarrow> nat \<Rightarrow> (unit, validation_fault) result" where
  "validate_owned c name v operations = schema_validate (cp_table c) (entry_node c name) v operations"

fun validation_contract_fault :: "nat \<Rightarrow> validation_fault \<Rightarrow> contract_fault" where
  "validation_contract_fault line (Invalid (Rejected mm)) = Fault (InvalidRecord (ContractViolated line mm))"
| "validation_contract_fault line (Invalid (InvalidSchema cause)) = Fault (InvalidDefinition (DefinitionCause cause))"
| "validation_contract_fault line (Invalid (SchemaOperations limit)) = Fault (ValidationUnavailable (OperationsLimit limit))"
| "validation_contract_fault line _ = ContractPanic"

definition validate :: "compilation \<Rightarrow> jvalue \<Rightarrow> string \<Rightarrow> nat \<Rightarrow> nat \<Rightarrow> unit contract_result" where
  "validate c v name operations line = map_err (validation_contract_fault line) (validate_owned c name v operations)"

definition terminal_exit_code :: "compilation \<Rightarrow> string \<Rightarrow> nat option" where
  "terminal_exit_code c subtype =
     map_option (\<lambda>(_, _, code). code) (find (\<lambda>(name, _, _). name = subtype) (cp_terminal_outcomes c))"

section \<open>Goal evidence\<close>

definition goal_refusal :: "nat \<Rightarrow> string \<Rightarrow> contract_fault" where
  "goal_refusal line cause = Fault (InvalidRecord (GoalCheckpointEvidence line cause))"

text \<open>The loop over the claims of a checkpoint: identities \<^verbatim>\<open>checkpoint:position\<close>, and the bytes so far.\<close>

fun claim_bytes :: "string \<Rightarrow> nat \<Rightarrow> nat \<Rightarrow> nat \<Rightarrow> jvalue list \<Rightarrow> nat contract_result" where
  "claim_bytes checkpoint_id line index bytes [] = Ok bytes"
| "claim_bytes checkpoint_id line index bytes (claim # claims) =
     bindR (ok_or (checked_add_usize index 1) (goal_refusal line ''claim position overflow'')) (\<lambda>position.
     bindR (text_field claim ''id'' line) (\<lambda>identity.
       if identity \<noteq> checkpoint_id @ '':'' @ nat_to_string position
       then Err (goal_refusal line ''claim identity does not match its checkpoint and position'')
       else bindR (text_field claim ''claim'' line) (\<lambda>text.
            bindR (ok_or (checked_add_usize bytes (length text)) (goal_refusal line ''claim byte count overflow'')) (\<lambda>bytes'.
              claim_bytes checkpoint_id line position bytes' claims))))"

fun evidence_bound_fault :: "nat \<Rightarrow> contract_fault \<Rightarrow> contract_fault" where
  "evidence_bound_fault line (Fault (InvalidRecord _)) =
     goal_refusal line ''claim UTF-8 bytes exceed the shared evidence bound''"
| "evidence_bound_fault line other = other"

fun derived_count_fault :: "decode_fault \<Rightarrow> contract_fault" where
  "derived_count_fault (Refused e) = Fault (InvalidDefinition (DerivedEvidenceCount e))"
| "derived_count_fault Panic = ContractPanic"

definition validate_goal_evidence :: "compilation \<Rightarrow> jvalue \<Rightarrow> nat \<Rightarrow> nat \<Rightarrow> unit contract_result" where
  "validate_goal_evidence c snapshot operations line =
     bindR (validate c snapshot ''GoalSnapshot'' operations line) (\<lambda>_.
     bindR (field snapshot ''goal'' line) (\<lambda>goal.
       case jget goal ''evidenceCheckpoint'' of
         None \<Rightarrow> Ok ()
       | Some checkpoint \<Rightarrow>
           bindR (field goal ''evidenceCursor'' line) (\<lambda>cursor.
           bindR (field cursor ''recordId'' line) (\<lambda>record_id.
           bindR (field checkpoint ''checkpointId'' line) (\<lambda>named.
             if \<not> value_eq record_id named then Err (goal_refusal line ''cursor does not name the checkpoint'')
             else bindR (text_field checkpoint ''checkpointId'' line) (\<lambda>checkpoint_id.
                  bindR (field checkpoint ''claims'' line) (\<lambda>claims.
                  bindR (ok_or (elements claims) (goal_refusal line ''claims must be an array'')) (\<lambda>claims.
                  bindR (claim_bytes checkpoint_id line 0 0 claims) (\<lambda>bytes.
                    let digits = nat_to_string bytes in
                    bindR (map_err derived_count_fault
                             (document_decode digits \<lparr>lim_bytes = length digits, lim_nodes = 1, lim_depth = 0\<rparr>)) (\<lambda>d.
                      map_err (evidence_bound_fault line)
                        (validate c (document_tree d) ''GoalCheckpointEvidenceBytes'' operations line)))))))))))"

section \<open>One record\<close>

record decoded_record =
  dr_value :: jvalue
  dr_kind :: event_kind

record partial_record =
  pr_value :: jvalue
  pr_kind :: partial_kind

definition decode_event_kind :: "jvalue \<Rightarrow> nat \<Rightarrow> event_kind contract_result" where
  "decode_event_kind v line =
     bindR (text_field v ''type'' line) (\<lambda>name.
       ok_or (event_kind_from_wire name) (Fault (InvalidRecord (UnsupportedEventType line name))))"

definition decoded_record_decode :: "compilation \<Rightarrow> jvalue \<Rightarrow> nat \<Rightarrow> nat \<Rightarrow> decoded_record contract_result" where
  "decoded_record_decode c v operations line =
     bindR (decode_event_kind v line) (\<lambda>kind.
     bindR (if kind = EvResult then validate c v ''TerminalResult'' operations line else Ok ()) (\<lambda>_.
     bindR (validate c v ''Record'' operations line) (\<lambda>_.
     bindR (if kind = EvStreamEvent then
              bindR (field v ''event'' line) (\<lambda>event.
              bindR (text_field event ''type'' line) (\<lambda>name.
                if name = ''goal_state'' then
                  bindR (field event ''goal_state'' line) (\<lambda>snapshot. validate_goal_evidence c snapshot operations line)
                else Ok ()))
            else Ok ()) (\<lambda>_.
       Ok \<lparr>dr_value = v, dr_kind = kind\<rparr>))))"

definition decode_event :: "compilation \<Rightarrow> jvalue \<Rightarrow> nat \<Rightarrow> nat \<Rightarrow> event_kind contract_result" where
  "decode_event c v operations line = map_ok dr_kind (decoded_record_decode c v operations line)"

definition decoded_record_partial :: "decoded_record \<Rightarrow> partial_record option" where
  "decoded_record_partial r =
     (if dr_kind r \<noteq> EvStreamEvent then None
      else Option.bind (jget (dr_value r) ''event'') (\<lambda>v.
           Option.bind (jget v ''type'') (\<lambda>name.
           Option.bind (as_str name) (\<lambda>name.
           Option.bind (partial_kind_from_wire name) (\<lambda>kind.
             Some \<lparr>pr_value = v, pr_kind = kind\<rparr>)))))"

section \<open>The derived count is a JSON number\<close>

lemma digit_char:
  assumes "n < 10"
  shows "is_ascii_digit (char_of (48 + n)) \<and> digit_val (char_of (48 + n)) = n \<and> (char_of (48 + n) = CHR ''0'' \<longleftrightarrow> n = 0)"
proof -
  have b: "byte (char_of (48 + n)) = 48 + n" using assms by (simp add: byte_def)
  then have d: "is_ascii_digit (char_of (48 + n))" "digit_val (char_of (48 + n)) = n"
    using assms by (simp_all add: is_ascii_digit_def digit_val_def)
  with digit_val_0_iff [OF d(1)] show ?thesis by simp
qed

lemma nat_to_string_digits:
  "list_all is_ascii_digit (nat_to_string n) \<and> nat_to_string n \<noteq> [] \<and> nat_of_digits (nat_to_string n) = n
   \<and> (hd (nat_to_string n) = CHR ''0'' \<longleftrightarrow> n = 0)"
proof (induction n rule: nat_to_string.induct)
  case (1 n)
  show ?case
  proof (cases "n < 10")
    case True
    then show ?thesis using digit_char [of n] nat_of_digits_snoc [of "[]" "char_of (48 + n)"]
      by (simp add: nat_to_string.simps [of n])
  next
    case False
    then show ?thesis using 1 digit_char [of "n mod 10"]
      by (simp add: nat_to_string.simps [of n] nat_of_digits_snoc hd_append)
  qed
qed

lemma nat_to_string_grammar: "number_grammar (nat_to_string n) False (nat_to_string n) [] 0"
proof -
  have "nat_to_string 0 = ''0''" by code_simp
  then show ?thesis
    using nat_to_string_digits [of n] by (cases "n = 0") (auto simp: number_grammar_def)
qed

lemma skip_number_all: "list_all is_number_char s \<Longrightarrow> pos \<le> length s \<Longrightarrow> skip_number s pos = length s"
proof (induction s pos rule: skip_number.induct)
  case (1 s pos)
  then show ?case
    by (cases "pos < length s") (auto simp: skip_number.simps [of s pos] skip_number.simps [of s "length s"] list_all_iff)
qed

lemma ascii_valid: "list_all (\<lambda>c. byte c < 128) s \<Longrightarrow> utf8_valid s"
  by (induction s) (simp_all add: utf8_valid_ascii_Cons)

lemma digit_not_special:
  assumes "is_ascii_digit c"
  shows "c \<notin> {CHR ''['', CHR ''{'', CHR 0x22, CHR ''n'', CHR ''t'', CHR ''f''} \<and> \<not> is_ws c"
  using assms by (auto simp: is_ascii_digit_def is_ws_def byte_def)

text \<open>A text of digits that is a number decodes to it, within limits that leave room for one node.\<close>

lemma digits_decode:
  assumes digits: "list_all is_ascii_digit s" "s \<noteq> []" and n: "json_number_parse s = Ok n"
  shows "\<exists>d. document_decode s \<lparr>lim_bytes = length s, lim_nodes = 1, lim_depth = 0\<rparr> = Ok d \<and> document_tree d = JNumber n"
proof -
  let ?l = "\<lparr>lim_bytes = length s, lim_nodes = 1, lim_depth = 0\<rparr>"
  let ?e = "\<lparr>en_node = NNumber n, en_span = (0, length s)\<rparr>"
  let ?p = "\<lparr>ps_source = s, ps_at = 0, ps_entries = [], ps_frames = [], ps_root = None, ps_limits = ?l\<rparr>"
  let ?q = "\<lparr>ps_source = s, ps_at = length s, ps_entries = [?e], ps_frames = [], ps_root = Some 0, ps_limits = ?l\<rparr>"
  have valid: "utf8_valid s"
    using digits(1) by (intro ascii_valid) (auto simp: list_all_iff is_ascii_digit_def)
  have head: "is_ascii_digit (s ! 0)" using digits by (cases s) auto
  have all: "skip_number s 0 = length s"
    using digits(1) by (intro skip_number_all) (auto simp: list_all_iff is_number_char_def)
  have ws: "skip_ws s 0 = 0" "skip_ws s (length s) = length s"
    using digit_not_special [OF head] digits(2) by (simp_all add: skip_ws.simps)
  have "\<not> is_continuation (s ! 0)" using head by (simp add: is_ascii_digit_def is_continuation_def)
  then have "str_slice s 0 (length s) = Ok s"
    using digits(2) by (simp add: str_slice_def is_char_boundary_def)
  then have number: "parse_number s 0 = Ok (NNumber n, length s)"
    by (simp add: parse_number_def all n)
  have "parse_step ?p = Continue ?q"
    using head digits(2) digit_not_special [OF head] number
    by (simp add: parse_step_def parse_value_def parser_accept_def ws Let_def)
  moreover have "parse_step ?q = Return (Ok \<lparr>doc_source = s, doc_entries = [?e], doc_root = 0\<rparr>)"
    by (simp add: parse_step_def ws Let_def)
  ultimately have "document_decode s ?l = Ok \<lparr>doc_source = s, doc_entries = [?e], doc_root = 0\<rparr>"
    using valid by (simp add: document_decode_def parse_loop.simps)
  then show ?thesis by (auto simp: document_tree_def entry_tree.simps)
qed

lemma derived_count_decodes:
  "\<exists>d n. document_decode (nat_to_string k) \<lparr>lim_bytes = length (nat_to_string k), lim_nodes = 1, lim_depth = 0\<rparr> = Ok d
     \<and> document_tree d = JNumber n"
proof -
  obtain n where "json_number_parse (nat_to_string k) = Ok n"
    using parse_complete [OF nat_to_string_grammar] by blast
  then show ?thesis using digits_decode nat_to_string_digits by blast
qed

lemma derived_count_val: "json_number_parse (nat_to_string k) = Ok n \<Longrightarrow> json_number_val n = of_nat k"
  using parse_complete [OF nat_to_string_grammar [of k]] nat_to_string_digits [of k]
  by (auto simp: json_number_val_def normalize_val)

lemma derived_count_unsigned:
  assumes n: "json_number_parse (nat_to_string k) = Ok n" and "k \<le> unat m"
  shows "as_unsigned n m = Ok (word_of_nat k)"
proof -
  have "\<not> of_nat (unat m) < (of_nat k :: rat)" using assms(2) by (simp only: of_nat_less_iff not_less)
  then show ?thesis
    using decimal_as_unsigned_exact [OF parse_value_ok [OF n], of m] derived_count_val [OF n]
    unfolding as_unsigned_def json_number_val_def by simp
qed

text \<open>
  A count survives the wire: the decimal text of a count up to the exact integer range decodes, within the
  limits of one node, to a JSON number that reads back as the same count.
\<close>

theorem count_round_trip:
  assumes "k \<le> unat SAFE_INTEGER"
  shows "\<exists>d. document_decode (nat_to_string k) \<lparr>lim_bytes = length (nat_to_string k), lim_nodes = 1, lim_depth = 0\<rparr> = Ok d
    \<and> unsigned (document_tree d) name SAFE_INTEGER = Ok (word_of_nat k)"
proof -
  obtain n where n: "json_number_parse (nat_to_string k) = Ok n"
    using parse_complete [OF nat_to_string_grammar] by blast
  then obtain d where "document_decode (nat_to_string k) \<lparr>lim_bytes = length (nat_to_string k), lim_nodes = 1, lim_depth = 0\<rparr> = Ok d"
    "document_tree d = JNumber n"
    using digits_decode nat_to_string_digits by blast
  then show ?thesis using derived_count_unsigned [OF n assms] by (auto simp: unsigned_def)
qed

theorem count_round_trip_witness:
  "\<exists>d. document_decode (nat_to_string 4096) \<lparr>lim_bytes = length (nat_to_string 4096), lim_nodes = 1, lim_depth = 0\<rparr> = Ok d
    \<and> unsigned (document_tree d) ''requests'' SAFE_INTEGER = Ok 4096"
  using count_round_trip [of 4096 "''requests''"] by (simp add: SAFE_INTEGER_def)

section \<open>Records against a compiled contract\<close>

text \<open>
  An operation whose budget only decides availability: below some budget it may report exhaustion, and
  every other answer is the same one.
\<close>

abbreviation exhausted :: "nat \<Rightarrow> 'a contract_result" where
  "exhausted k \<equiv> Err (Fault (ValidationUnavailable (OperationsLimit k)))"

definition settles :: "(nat \<Rightarrow> 'a contract_result) \<Rightarrow> bool" where
  "settles f \<longleftrightarrow> (\<exists>n r. \<forall>k. f k = r \<or> k < n \<and> f k = exhausted k)"

lemma settles_const [simp]: "settles (\<lambda>_. x)"
  by (auto simp: settles_def)

lemma settles_bind:
  assumes "settles f" and g: "\<And>x. settles (g x)"
  shows "settles (\<lambda>k. bindR (f k) (\<lambda>x. g x k))"
proof -
  obtain n r where n: "\<And>k. f k = r \<or> k < n \<and> f k = exhausted k" using assms(1) by (auto simp: settles_def)
  show ?thesis
  proof (cases r)
    case (Ok x)
    obtain m r' where m: "\<And>k. g x k = r' \<or> k < m \<and> g x k = exhausted k" using g by (metis settles_def)
    have "bindR (f k) (\<lambda>x. g x k) = r' \<or> k < max n m \<and> bindR (f k) (\<lambda>x. g x k) = exhausted k" for k
      using n [of k] m [of k] Ok by auto
    then show ?thesis unfolding settles_def by blast
  next
    case (Err e)
    have "bindR (f k) (\<lambda>x. g x k) = Err e \<or> k < n \<and> bindR (f k) (\<lambda>x. g x k) = exhausted k" for k
      using n [of k] Err by auto
    then show ?thesis unfolding settles_def by blast
  qed
qed

lemma settles_bound: "settles f \<Longrightarrow> settles (\<lambda>k. map_err (evidence_bound_fault line) (f k))"
proof -
  assume "settles f"
  then obtain n r where n: "\<And>k. f k = r \<or> k < n \<and> f k = exhausted k" by (auto simp: settles_def)
  have "map_err (evidence_bound_fault line) (f k) = map_err (evidence_bound_fault line) r
      \<or> k < n \<and> map_err (evidence_bound_fault line) (f k) = exhausted k" for k
    using n [of k] by auto
  then show ?thesis unfolding settles_def by blast
qed

lemma settles_if: "settles f \<Longrightarrow> settles g \<Longrightarrow> settles (\<lambda>k. if b then f k else g k)"
  by (cases b) auto

lemma settles_option: "settles f \<Longrightarrow> (\<And>x. settles (g x)) \<Longrightarrow> settles (\<lambda>k. case m of None \<Rightarrow> f k | Some x \<Rightarrow> g x k)"
  by (cases m) auto

lemmas settles_intros = settles_bind settles_bound settles_if settles_option settles_const

text \<open>Faults a well-built contract never shows: a panic, or an invalid definition.\<close>

fun record_fault :: "contract_fault \<Rightarrow> bool" where
  "record_fault (Fault (InvalidRecord _)) = True"
| "record_fault (Fault (ValidationUnavailable _)) = True"
| "record_fault _ = False"

lemma schema_entries_range:
  assumes "schema_entries v st = Ok es" and "compiled_ok st" and "0 < length (co_nodes st)"
  shows "\<forall>(name, nid) \<in> set es. nid < length (co_nodes st)"
proof -
  obtain mems where fold: "foldR (\<lambda>entries (name, _).
         bindR (compile_identifier name) (\<lambda>ident.
           if ident = ''Self'' \<or> ident \<in> set (map fst entries)
           then Err (CompileError (compile_child_path ''/definitions'' name) (GeneratedTable (ReservedIdentifier ident)))
           else bindR (ok_or (btree_get (co_paths st) (''/definitions/'' @ escape_pointer name)) (CompileError [] IndexPanic)) (\<lambda>nid.
             Ok (entries @ [(ident, nid)])))) [(''Record'', 0)] (mems :: (string \<times> jvalue) list) = Ok es"
    using assms(1) by (auto simp: schema_entries_def)
  show ?thesis
  proof (rule foldR_invariant [OF _ _ fold])
    show "\<forall>(name, nid) \<in> set [(''Record'', 0)]. nid < length (co_nodes st)" using assms(3) by simp
  next
    fix entries :: "(string \<times> nat) list" and x :: "string \<times> jvalue" and entries'
    assume old: "\<forall>(name, nid) \<in> set entries. nid < length (co_nodes st)"
      and step: "(case x of (name, _) \<Rightarrow> bindR (compile_identifier name) (\<lambda>ident.
           if ident = ''Self'' \<or> ident \<in> set (map fst entries)
           then Err (CompileError (compile_child_path ''/definitions'' name) (GeneratedTable (ReservedIdentifier ident)))
           else bindR (ok_or (btree_get (co_paths st) (''/definitions/'' @ escape_pointer name)) (CompileError [] IndexPanic)) (\<lambda>nid.
             Ok (entries @ [(ident, nid)])))) = Ok entries'"
    then obtain ident nid path where "entries' = entries @ [(ident, nid)]" "btree_get (co_paths st) path = Some nid"
      by (auto split: prod.splits if_splits)
    moreover from this(2) have "nid < length (co_nodes st)"
      using compiled_ok_path [OF assms(2), of path nid] by (simp add: btree_get_map_of map_of_SomeD)
    ultimately show "\<forall>(name, nid) \<in> set entries'. nid < length (co_nodes st)" using old by auto
  qed
qed

lemma compiled_ok_references_any: "compiled_ok (pending_references st []) \<Longrightarrow> (p, i) \<in> set (co_paths st) \<Longrightarrow> i < length (co_nodes st)"
  using compiled_ok_path [of "pending_references st []" p i] by simp

lemma compile_contract_entries:
  assumes "compile_contract v = Ok c" and "tree_ok v" and "name \<in> fst ` set (cp_entries c)"
  shows "entry_node c name < length (cp_table c)"
proof -
  obtain st nid st' where 1: "compile_node empty_compiler v [] = Ok (st, nid)" and 2: "resolve_references st = Ok st'"
    and 3: "schema_entries v st' = Ok (cp_entries c)" and 4: "mapR emit_node (co_nodes st') = Ok (cp_table c)"
    using assms(1) by (auto simp: compile_contract_def)
  have keep: "compiled_ok st" "nid < length (co_nodes st)"
    using compile_node_keeps [OF assms(2) empty_compiler_ok, of "[]"] 1 by (auto simp: keeps_def)
  then have ok: "compiled_ok (pending_references st' [])"
    using resolve_references_ok [where st = st and refs = "co_references st"] 2 by (simp add: resolve_references_def)
  have len: "length (co_nodes s') = length (co_nodes s)" if "foldR resolve_reference s refs = Ok s'" for s s' refs
    using that by (induction refs arbitrary: s)
      (auto simp: resolve_reference_def Let_def split: prod.splits)
  have paths: "co_paths (pending_references st' []) = co_paths st'" by simp
  have same: "schema_entries v (pending_references st' []) = schema_entries v st'"
    unfolding schema_entries_def paths ..
  have "length (co_nodes st') = length (co_nodes st)"
    using len [of st "co_references st" st'] 2 by (simp add: resolve_references_def)
  then have "0 < length (co_nodes st')" using keep(2) by linarith
  then have "\<forall>(name, i) \<in> set (cp_entries c). i < length (co_nodes st')"
    using schema_entries_range [of v "pending_references st' []"] ok 3 same by simp
  moreover have "length (cp_table c) = length (co_nodes st')" using mapR_length [OF 4] .
  moreover obtain i where "map_of (cp_entries c) name = Some i"
    using assms(3) by (metis map_of_eq_None_iff option.exhaust)
  ultimately show ?thesis by (auto simp: entry_node_def dest: map_of_SomeD)
qed

lemma compiled_contract_validate:
  assumes "compile_contract schema = Ok c" and "tree_ok schema" and "name \<in> fst ` set (cp_entries c)"
  shows "\<exists>n r. (\<forall>operations. validate c v name operations line =
        (if operations < n then Err (Fault (ValidationUnavailable (OperationsLimit operations))) else r))
    \<and> (r = Ok () \<or> (\<exists>mm. r = Err (Fault (InvalidRecord (ContractViolated line mm)))))"
proof -
  have "schema_closed (cp_table c) \<and> acyclic (same_edges (cp_table c))"
    using compile_table_ok [OF compile_contract_table [OF assms(1)] assms(2)] .
  then obtain x where "node_verdict (cp_table c) (entry_node c name) v [] x"
    using node_verdict_exists compile_contract_entries [OF assms] by blast
  from schema_validate_verdict [OF this] obtain n where n: "\<And>k. schema_validate (cp_table c) (entry_node c name) v k =
      (if k < n then Err (Invalid (SchemaOperations k)) else outcome x)" by blast
  have "outcome x = Ok () \<or> (\<exists>mm. outcome x = Err (Invalid (Rejected mm)))"
    by (cases x rule: outcome.cases) auto
  then have "map_err (validation_contract_fault line) (outcome x) = Ok ()
      \<or> (\<exists>mm. map_err (validation_contract_fault line) (outcome x) = Err (Fault (InvalidRecord (ContractViolated line mm))))"
    by auto
  moreover have "validate c v name k line =
      (if k < n then Err (Fault (ValidationUnavailable (OperationsLimit k))) else map_err (validation_contract_fault line) (outcome x))" for k
    by (simp add: validate_def validate_owned_def n)
  ultimately show ?thesis by blast
qed

text \<open>The entries the decoder of records looks up; the build refuses nothing that has them.\<close>

definition required_entries :: "string list" where
  "required_entries = [''Record'', ''TerminalResult'', ''GoalSnapshot'', ''GoalCheckpointEvidenceBytes'']"

definition record_contract :: "compilation \<Rightarrow> bool" where
  "record_contract c \<longleftrightarrow> (\<exists>schema. tree_ok schema \<and> compile_contract schema = Ok c)
     \<and> list_all (\<lambda>name. name \<in> fst ` set (cp_entries c)) required_entries"

abbreviation record_errors :: "'a contract_result \<Rightarrow> bool" where
  "record_errors \<equiv> ensures record_fault (\<lambda>_. True)"

lemma validate_behaviour:
  assumes "record_contract c" and "name \<in> set required_entries"
  shows "settles (\<lambda>k. validate c v name k line)" and "record_errors (validate c v name k line)"
proof -
  have "name \<in> fst ` set (cp_entries c)"
    using assms by (auto simp: record_contract_def list_all_iff)
  then obtain n r where nr: "\<And>k. validate c v name k line =
        (if k < n then Err (Fault (ValidationUnavailable (OperationsLimit k))) else r)"
    and r: "r = Ok () \<or> (\<exists>mm. r = Err (Fault (InvalidRecord (ContractViolated line mm))))"
    using compiled_contract_validate assms(1) unfolding record_contract_def by metis
  then show "settles (\<lambda>k. validate c v name k line)" unfolding settles_def by (metis linorder_not_less)
  show "record_errors (validate c v name k line)" using nr r by auto
qed

lemma field_fault: "record_errors (field v key line)"
  by (cases "jget v key") (simp_all add: field_def)

lemma text_field_fault: "record_errors (text_field v key line)"
proof (cases "jget v key")
  case (Some f)
  then show ?thesis by (cases f) (auto simp: text_field_def field_def)
qed (simp add: text_field_def field_def)

lemma record_errors_bind: "record_errors m \<Longrightarrow> (\<And>x. record_errors (f x)) \<Longrightarrow> record_errors (bindR m f)"
  by (cases m) auto

lemma record_errors_ok_or: "record_fault e \<Longrightarrow> record_errors (ok_or m e)"
  by (cases m) auto

lemma goal_refusal_fault [simp]: "record_fault (goal_refusal line cause)"
  by (simp add: goal_refusal_def)

lemmas record_errors_intros = record_errors_bind record_errors_ok_or field_fault text_field_fault

lemma claim_bytes_fault: "record_errors (claim_bytes checkpoint_id line index bytes claims)"
proof (induction claims arbitrary: index bytes)
  case (Cons claim claims)
  show ?case
    unfolding claim_bytes.simps by (auto intro!: record_errors_intros Cons.IH)
qed simp

lemma evidence_bound_errors: "record_errors m \<Longrightarrow> record_errors (map_err (evidence_bound_fault line) m)"
proof (induction m)
  case (Err e)
  then show ?case by (cases "(line, e)" rule: evidence_bound_fault.cases) auto
qed simp

lemma derived_count_fault_ok:
  "record_errors (map_err derived_count_fault
     (document_decode (nat_to_string k) \<lparr>lim_bytes = length (nat_to_string k), lim_nodes = 1, lim_depth = 0\<rparr>))"
  using derived_count_decodes [of k] by auto

lemma validate_goal_evidence_errors:
  assumes "record_contract c"
  shows "record_errors (validate_goal_evidence c snapshot k line)"
  unfolding validate_goal_evidence_def Let_def
  by (auto intro!: record_errors_intros claim_bytes_fault evidence_bound_errors derived_count_fault_ok
        validate_behaviour(2) [OF assms] simp: required_entries_def simp del: One_nat_def split: option.split)

lemma validate_goal_evidence_settles:
  assumes "record_contract c"
  shows "settles (\<lambda>k. validate_goal_evidence c snapshot k line)"
  unfolding validate_goal_evidence_def Let_def
  by (intro settles_intros validate_behaviour(1) [OF assms]) (simp_all add: required_entries_def)

lemma decoded_record_decode_errors:
  assumes "record_contract c"
  shows "record_errors (decoded_record_decode c v k line)"
  unfolding decoded_record_decode_def decode_event_kind_def
  by (auto intro!: record_errors_intros validate_goal_evidence_errors [OF assms] validate_behaviour(2) [OF assms]
        simp: required_entries_def)

lemma decoded_record_decode_settles:
  assumes "record_contract c"
  shows "settles (\<lambda>k. decoded_record_decode c v k line)"
  unfolding decoded_record_decode_def
  by (intro settles_intros validate_goal_evidence_settles [OF assms] validate_behaviour(1) [OF assms])
     (simp_all add: required_entries_def)

text \<open>
  C18: Under any contract the build compiles and that defines the entries the decoder names, decoding a
  record is decided by the record alone: from some number of operations on the answer is fixed, every
  smaller budget gives that answer or reports the exhausted budget, and the answer is the record with its
  kind or a refusal of the record, never an invalid definition and never a panic.
\<close>

theorem record_decode_settles:
  assumes "record_contract c"
  shows "\<exists>n r. record_errors r \<and> (\<forall>k. decoded_record_decode c v k line = r
             \<or> k < n \<and> decoded_record_decode c v k line = exhausted k)"
proof -
  obtain n r where nr: "\<forall>k. decoded_record_decode c v k line = r
      \<or> k < n \<and> decoded_record_decode c v k line = exhausted k"
    using decoded_record_decode_settles [OF assms, of v line] unfolding settles_def by blast
  then have "decoded_record_decode c v n line = r" by blast
  then have "record_errors r" using decoded_record_decode_errors [OF assms, of v n line] by simp
  then show ?thesis using nr by blast
qed

lemma sample_record_contract: "record_contract sample_compilation"
proof -
  have "compile_contract sample_contract = Ok sample_compilation" by (rule sample_contract_compiles)
  moreover have "tree_ok sample_contract" by code_simp
  moreover have "list_all (\<lambda>name. name \<in> fst ` set (cp_entries sample_compilation)) required_entries" by code_simp
  ultimately show ?thesis unfolding record_contract_def by blast
qed

theorem record_decode_settles_witness:
  "\<exists>n r. record_errors r \<and> (\<forall>k. decoded_record_decode sample_compilation JNull k 1 = r
             \<or> k < n \<and> decoded_record_decode sample_compilation JNull k 1 = exhausted k)"
  by (rule record_decode_settles [OF sample_record_contract])

section \<open>Accepted evidence\<close>

text \<open>The identities and the byte count an accepted list of claims has.\<close>

definition claim_rows :: "string \<Rightarrow> nat \<Rightarrow> string list \<Rightarrow> jvalue list \<Rightarrow> bool" where
  "claim_rows checkpoint_id index texts claims \<longleftrightarrow> length texts = length claims \<and>
     (\<forall>i < length claims. jget (claims ! i) ''id'' = Some (JString (checkpoint_id @ '':'' @ nat_to_string (index + i + 1)))
        \<and> jget (claims ! i) ''claim'' = Some (JString (texts ! i)) \<and> texts ! i \<noteq> [])"

lemma claim_rows_Nil [simp]: "claim_rows checkpoint_id index texts [] \<longleftrightarrow> texts = []"
  by (auto simp: claim_rows_def)

lemma claim_rows_Cons:
  "claim_rows checkpoint_id index texts (claim # claims) \<longleftrightarrow>
     (\<exists>text rest. texts = text # rest \<and> text \<noteq> [] \<and> jget claim ''claim'' = Some (JString text)
        \<and> jget claim ''id'' = Some (JString (checkpoint_id @ '':'' @ nat_to_string (index + 1)))
        \<and> claim_rows checkpoint_id (index + 1) rest claims)"
  by (cases texts) (auto simp: claim_rows_def All_less_Suc2)

lemma claim_bytes_rows:
  "claim_bytes checkpoint_id line index bytes claims = Ok n \<Longrightarrow>
     \<exists>texts. claim_rows checkpoint_id index texts claims \<and> n = bytes + length (concat texts)"
proof (induction claims arbitrary: index bytes)
  case (Cons claim claims)
  then obtain u where u: "jget claim ''claim'' = Some (JString u)" "u \<noteq> []"
    and row: "jget claim ''id'' = Some (JString (checkpoint_id @ '':'' @ nat_to_string (index + 1)))"
    and rest: "claim_bytes checkpoint_id line (index + 1) (bytes + length u) claims = Ok n"
    by (auto simp: text_field_Ok_iff checked_add_usize_def split: if_splits)
  obtain texts where "claim_rows checkpoint_id (index + 1) texts claims" "n = bytes + length u + length (concat texts)"
    using Cons.IH [OF rest] by blast
  then show ?case
    using u row by (intro exI [of _ "u # texts"]) (simp add: claim_rows_Cons)
qed simp

text \<open>
  C19: Accepted goal evidence is exact: when a goal snapshot carries a checkpoint, the cursor names that
  checkpoint, the i-th claim is identified by the checkpoint and its position counted from one, every claim
  has a text, and the schema of the evidence bound accepted exactly the number of UTF-8 bytes of all texts.
\<close>

theorem goal_evidence_exact:
  assumes "validate_goal_evidence c snapshot k line = Ok ()"
    and "jget snapshot ''goal'' = Some goal" and "jget goal ''evidenceCheckpoint'' = Some checkpoint"
  shows "\<exists>checkpoint_id cursor record_id claims texts n.
      jget checkpoint ''checkpointId'' = Some (JString checkpoint_id) \<and> checkpoint_id \<noteq> []
    \<and> jget goal ''evidenceCursor'' = Some cursor \<and> jget cursor ''recordId'' = Some record_id
    \<and> value_eq record_id (JString checkpoint_id)
    \<and> jget checkpoint ''claims'' = Some (JArray claims) \<and> claim_rows checkpoint_id 0 texts claims
    \<and> json_number_parse (nat_to_string (length (concat texts))) = Ok n
    \<and> validate c (JNumber n) ''GoalCheckpointEvidenceBytes'' k line = Ok ()"
proof -
  obtain cursor record_id named checkpoint_id w claims bytes d where parts:
      "jget goal ''evidenceCursor'' = Some cursor" "jget cursor ''recordId'' = Some record_id"
      "jget checkpoint ''checkpointId'' = Some (JString checkpoint_id)" "checkpoint_id \<noteq> []"
      "value_eq record_id (JString checkpoint_id)"
      "jget checkpoint ''claims'' = Some w" "elements w = Some claims"
      and bytes: "claim_bytes checkpoint_id line 0 0 claims = Ok bytes"
      and d: "document_decode (nat_to_string bytes) \<lparr>lim_bytes = length (nat_to_string bytes), lim_nodes = 1, lim_depth = 0\<rparr> = Ok d"
        "validate c (document_tree d) ''GoalCheckpointEvidenceBytes'' k line = Ok ()"
    using assms by (auto simp: validate_goal_evidence_def Let_def text_field_Ok_iff simp del: One_nat_def split: if_splits)
  obtain n where n: "json_number_parse (nat_to_string bytes) = Ok n"
    using parse_complete [OF nat_to_string_grammar] by blast
  then have "document_tree d = JNumber n"
    using digits_decode [OF _ _ n] nat_to_string_digits d(1) by fastforce
  moreover obtain texts where "claim_rows checkpoint_id 0 texts claims" "bytes = length (concat texts)"
    using claim_bytes_rows [OF bytes] by auto
  moreover have "w = JArray claims" using parts(7) by (cases w) auto
  ultimately show ?thesis using parts n d(2) by metis
qed

definition sample_snapshot :: jvalue where
  "sample_snapshot = JObject [(''goal'', JObject
     [(''evidenceCheckpoint'', JObject
        [(''checkpointId'', JString ''cp''),
         (''claims'', JArray [JObject [(''claim'', JString ''done''), (''id'', JString ''cp:1'')]])]),
      (''evidenceCursor'', JObject [(''recordId'', JString ''cp'')])])]"

lemma sample_claims: "claim_bytes ''cp'' 1 0 0 [JObject [(''claim'', JString ''done''), (''id'', JString ''cp:1'')]] = Ok 4"
proof -
  have "nat_to_string (Suc 0) = ''1''" by code_simp
  then show ?thesis by (simp add: text_field_def field_def checked_add_usize_def)
qed

lemma sample_bound:
  "bindR (map_err derived_count_fault
            (document_decode (nat_to_string 4) \<lparr>lim_bytes = length (nat_to_string 4), lim_nodes = 1, lim_depth = 0\<rparr>)) (\<lambda>d.
     map_err (evidence_bound_fault 1) (validate sample_compilation (document_tree d) ''GoalCheckpointEvidenceBytes'' 10 1)) = Ok ()"
  by code_simp

lemma sample_snapshot_valid: "validate sample_compilation sample_snapshot ''GoalSnapshot'' 10 1 = Ok ()"
  by code_simp

lemma sample_snapshot_names: "value_eq (JString ''cp'') (JString ''cp'')"
  by code_simp

lemma sample_evidence: "validate_goal_evidence sample_compilation sample_snapshot 10 1 = Ok ()"
  unfolding validate_goal_evidence_def Let_def sample_snapshot_valid
  using sample_bound sample_claims sample_snapshot_names by (simp add: sample_snapshot_def field_def text_field_def)

theorem goal_evidence_exact_witness:
  "\<exists>checkpoint_id record_id claims texts n.
      value_eq record_id (JString checkpoint_id) \<and> length claims = 1 \<and> claim_rows checkpoint_id 0 texts claims
    \<and> json_number_parse (nat_to_string (length (concat texts))) = Ok n
    \<and> validate sample_compilation (JNumber n) ''GoalCheckpointEvidenceBytes'' 10 1 = Ok ()"
proof -
  obtain goal checkpoint where g: "jget sample_snapshot ''goal'' = Some goal" "jget goal ''evidenceCheckpoint'' = Some checkpoint"
    and claims: "jget checkpoint ''claims'' = Some (JArray [JObject [(''claim'', JString ''done''), (''id'', JString ''cp:1'')]])"
    by (simp add: sample_snapshot_def)
  obtain checkpoint_id record_id cs texts n where "value_eq record_id (JString checkpoint_id)"
      "jget checkpoint ''claims'' = Some (JArray cs)" "claim_rows checkpoint_id 0 texts cs"
      "json_number_parse (nat_to_string (length (concat texts))) = Ok n"
      "validate sample_compilation (JNumber n) ''GoalCheckpointEvidenceBytes'' 10 1 = Ok ()"
    using goal_evidence_exact [OF sample_evidence g] by blast
  moreover from this(2) claims have "length cs = 1" by force
  ultimately show ?thesis by metis
qed

end
