(* ===== verification/Usage.thy ===== *)
theory Usage
  imports Contract_Stream
begin

text \<open>
  \<^verbatim>\<open>protocol/engine/src/usage.rs\<close>: the token counts a backend served for one request, and the population of
  physical requests with the counts served for them. Sums are checked against the exact integer range
  of the contract. The interface \<open>checked_sum\<close> states what both checked additions promise, refinement
  of the sum of unbounded counts; from it follows that totals do not depend on the order or grouping
  of the additions.
\<close>

section \<open>Served usage\<close>

record served_usage =
  su_prompt :: u64
  su_output :: u64
  su_thoughts :: u64
  su_cached :: u64
  su_total :: u64

abbreviation usage_refusal :: "string \<Rightarrow> contract_fault" where
  "usage_refusal detail \<equiv> Fault (InvalidRecord (PhysicalUsage detail))"

definition count_sum :: "u64 \<Rightarrow> u64 \<Rightarrow> u64 contract_result" where
  "count_sum a b =
     (case checked_add a b of
        Some s \<Rightarrow> if s \<le> SAFE_INTEGER then Ok s
          else Err (usage_refusal ''count exceeds the contract's exact integer range'')
      | None \<Rightarrow> Err (usage_refusal ''count exceeds the contract's exact integer range''))"

definition served_usage_validate :: "served_usage \<Rightarrow> unit contract_result" where
  "served_usage_validate u =
     (if list_ex (\<lambda>n. SAFE_INTEGER < n) [su_prompt u, su_output u, su_thoughts u, su_cached u, su_total u]
        \<or> checked_add (su_prompt u) (su_output u) \<noteq> Some (su_total u)
        \<or> su_output u < su_thoughts u \<or> su_prompt u < su_cached u
      then Err (usage_refusal ''served token counts are inconsistent'')
      else Ok ())"

definition served_usage_checked_add :: "served_usage \<Rightarrow> served_usage \<Rightarrow> served_usage contract_result" where
  "served_usage_checked_add u w =
     bindR (served_usage_validate u) (\<lambda>_.
     bindR (served_usage_validate w) (\<lambda>_.
     bindR (count_sum (su_prompt u) (su_prompt w)) (\<lambda>prompt.
     bindR (count_sum (su_output u) (su_output w)) (\<lambda>output.
     bindR (count_sum (su_thoughts u) (su_thoughts w)) (\<lambda>thoughts.
     bindR (count_sum (su_cached u) (su_cached w)) (\<lambda>cached.
     bindR (count_sum (su_total u) (su_total w)) (\<lambda>tot.
       let r = \<lparr>su_prompt = prompt, su_output = output, su_thoughts = thoughts, su_cached = cached, su_total = tot\<rparr>
       in bindR (served_usage_validate r) (\<lambda>_. Ok r))))))))"

definition count_field :: "jvalue \<Rightarrow> nat \<Rightarrow> string \<Rightarrow> u64 contract_result" where
  "count_field v line key = bindR (field v key line) (\<lambda>f. unsigned f key SAFE_INTEGER)"

definition served_usage_read :: "jvalue \<Rightarrow> nat \<Rightarrow> served_usage contract_result" where
  "served_usage_read v line =
     bindR (count_field v line ''promptTokenCount'') (\<lambda>prompt.
     bindR (count_field v line ''candidatesTokenCount'') (\<lambda>output.
     bindR (count_field v line ''thoughtsTokenCount'') (\<lambda>thoughts.
     bindR (count_field v line ''cachedContentTokenCount'') (\<lambda>cached.
     bindR (count_field v line ''totalTokenCount'') (\<lambda>tot.
       let r = \<lparr>su_prompt = prompt, su_output = output, su_thoughts = thoughts, su_cached = cached, su_total = tot\<rparr>
       in bindR (served_usage_validate r) (\<lambda>_. Ok r))))))"

section \<open>Populations of requests\<close>

record usage_summary =
  us_requests :: u64
  us_usage_reports :: u64
  us_unfinalized_requests :: u64
  us_unreported_usage_requests :: u64
  us_usage :: "served_usage option"

definition usage_summary_default :: usage_summary where
  "usage_summary_default = \<lparr>us_requests = 0, us_usage_reports = 0, us_unfinalized_requests = 0,
     us_unreported_usage_requests = 0, us_usage = None\<rparr>"

definition usage_summary_validate :: "usage_summary \<Rightarrow> unit contract_result" where
  "usage_summary_validate s =
     (if list_ex (\<lambda>n. SAFE_INTEGER < n)
           [us_requests s, us_usage_reports s, us_unfinalized_requests s, us_unreported_usage_requests s]
        \<or> Option.bind (checked_add (us_usage_reports s) (us_unfinalized_requests s))
             (\<lambda>n. checked_add n (us_unreported_usage_requests s)) \<noteq> Some (us_requests s)
        \<or> (us_usage_reports s = 0) \<noteq> (us_usage s = None)
      then Err (usage_refusal ''request population is inconsistent'')
      else case us_usage s of None \<Rightarrow> Ok () | Some u \<Rightarrow> served_usage_validate u)"

definition admit_request :: "usage_summary \<Rightarrow> usage_summary contract_result" where
  "admit_request s =
     bindR (usage_summary_validate s) (\<lambda>_.
     bindR (count_sum (us_requests s) 1) (\<lambda>requests.
     bindR (count_sum (us_unfinalized_requests s) 1) (\<lambda>unfinalized.
       Ok (s\<lparr>us_requests := requests, us_unfinalized_requests := unfinalized\<rparr>))))"

definition finalize :: "usage_summary \<Rightarrow> served_usage option \<Rightarrow> usage_summary contract_result" where
  "finalize s usage =
     bindR (usage_summary_validate s) (\<lambda>_.
     bindR (ok_or (checked_sub (us_unfinalized_requests s) 1) (usage_refusal ''outcome has no unfinalized request'')) (\<lambda>unfinalized.
     bindR (case usage of
              Some u \<Rightarrow>
                bindR (served_usage_validate u) (\<lambda>_.
                bindR (count_sum (us_usage_reports s) 1) (\<lambda>reports.
                bindR (case us_usage s of
                         Some previous \<Rightarrow> served_usage_checked_add previous u
                       | None \<Rightarrow> Ok u) (\<lambda>tot.
                  Ok (s\<lparr>us_unfinalized_requests := unfinalized, us_usage_reports := reports, us_usage := Some tot\<rparr>))))
            | None \<Rightarrow>
                bindR (count_sum (us_unreported_usage_requests s) 1) (\<lambda>unreported.
                  Ok (s\<lparr>us_unfinalized_requests := unfinalized, us_unreported_usage_requests := unreported\<rparr>))) (\<lambda>r.
     bindR (usage_summary_validate r) (\<lambda>_. Ok r))))"

definition merge_usage :: "served_usage option \<Rightarrow> served_usage option \<Rightarrow> served_usage option contract_result" where
  "merge_usage a b =
     (case (a, b) of
        (Some u, Some w) \<Rightarrow> map_ok Some (served_usage_checked_add u w)
      | (Some u, None) \<Rightarrow> Ok (Some u)
      | (None, w) \<Rightarrow> Ok w)"

definition usage_summary_checked_add :: "usage_summary \<Rightarrow> usage_summary \<Rightarrow> usage_summary contract_result" where
  "usage_summary_checked_add s t =
     bindR (usage_summary_validate s) (\<lambda>_.
     bindR (usage_summary_validate t) (\<lambda>_.
     bindR (count_sum (us_requests s) (us_requests t)) (\<lambda>requests.
     bindR (count_sum (us_usage_reports s) (us_usage_reports t)) (\<lambda>reports.
     bindR (count_sum (us_unfinalized_requests s) (us_unfinalized_requests t)) (\<lambda>unfinalized.
     bindR (count_sum (us_unreported_usage_requests s) (us_unreported_usage_requests t)) (\<lambda>unreported.
     bindR (merge_usage (us_usage s) (us_usage t)) (\<lambda>usage.
       let r = \<lparr>us_requests = requests, us_usage_reports = reports, us_unfinalized_requests = unfinalized,
                us_unreported_usage_requests = unreported, us_usage = usage\<rparr>
       in bindR (usage_summary_validate r) (\<lambda>_. Ok r))))))))"

definition usage_summary_read :: "jvalue \<Rightarrow> nat \<Rightarrow> usage_summary contract_result" where
  "usage_summary_read v line =
     bindR (field v ''usage'' line) (\<lambda>usage.
     bindR (count_field v line ''requests'') (\<lambda>requests.
     bindR (count_field v line ''usageReports'') (\<lambda>reports.
     bindR (count_field v line ''unfinalizedRequests'') (\<lambda>unfinalized.
     bindR (count_field v line ''unreportedUsageRequests'') (\<lambda>unreported.
     bindR (if is_null usage then Ok None else map_ok Some (served_usage_read usage line)) (\<lambda>u.
       let r = \<lparr>us_requests = requests, us_usage_reports = reports, us_unfinalized_requests = unfinalized,
                us_unreported_usage_requests = unreported, us_usage = u\<rparr>
       in bindR (usage_summary_validate r) (\<lambda>_. Ok r)))))))"

definition require_summary :: "usage_summary \<Rightarrow> jvalue \<Rightarrow> nat \<Rightarrow> unit contract_result" where
  "require_summary s v line =
     bindR (usage_summary_read v line) (\<lambda>r.
       if s \<noteq> r then Err (usage_refusal ''summary contradicts recorded requests and outcomes'') else Ok ())"

section \<open>Counts\<close>

text \<open>The unbounded counts a value stands for, by counter.\<close>

datatype counter =
    CPrompt | COutput | CThoughts | CCached | CTotal | CRequests | CReports | CUnfinalized | CUnreported

fun served_counts :: "served_usage \<Rightarrow> counter \<Rightarrow> nat" where
  "served_counts u CPrompt = unat (su_prompt u)"
| "served_counts u COutput = unat (su_output u)"
| "served_counts u CThoughts = unat (su_thoughts u)"
| "served_counts u CCached = unat (su_cached u)"
| "served_counts u CTotal = unat (su_total u)"
| "served_counts u _ = 0"

definition optional_counts :: "served_usage option \<Rightarrow> counter \<Rightarrow> nat" where
  "optional_counts usage k = (case usage of None \<Rightarrow> 0 | Some u \<Rightarrow> served_counts u k)"

fun summary_counts :: "usage_summary \<Rightarrow> counter \<Rightarrow> nat" where
  "summary_counts s CRequests = unat (us_requests s)"
| "summary_counts s CReports = unat (us_usage_reports s)"
| "summary_counts s CUnfinalized = unat (us_unfinalized_requests s)"
| "summary_counts s CUnreported = unat (us_unreported_usage_requests s)"
| "summary_counts s k = optional_counts (us_usage s) k"

definition safe :: nat where
  "safe = 9007199254740991"

definition served_valid :: "served_usage \<Rightarrow> bool" where
  "served_valid u = (served_usage_validate u = Ok ())"

definition summary_valid :: "usage_summary \<Rightarrow> bool" where
  "summary_valid s = (usage_summary_validate s = Ok ())"

lemma unat_safe: "unat SAFE_INTEGER = safe"
  by (simp add: SAFE_INTEGER_def safe_def)

lemma le_safe_iff: "a \<le> SAFE_INTEGER \<longleftrightarrow> unat a \<le> safe"
  by (simp add: word_le_nat_alt unat_safe)

lemma count_sum_Ok_iff: "count_sum a b = Ok s \<longleftrightarrow> unat s = unat a + unat b \<and> unat s \<le> safe"
proof (cases "checked_add a b")
  case None
  then show ?thesis using checked_add_None_iff [of a b] unat_u64_less [of s] by (auto simp: count_sum_def)
next
  case (Some x)
  then have "unat x = unat a + unat b" by (simp add: checked_add_Some_iff)
  with Some show ?thesis by (auto simp: count_sum_def le_safe_iff word_unat_eq_iff)
qed

lemma served_valid_iff:
  "served_valid u \<longleftrightarrow>
     unat (su_total u) \<le> safe \<and> unat (su_prompt u) + unat (su_output u) = unat (su_total u)
     \<and> unat (su_thoughts u) \<le> unat (su_output u) \<and> unat (su_cached u) \<le> unat (su_prompt u)"
  by (auto simp: served_valid_def served_usage_validate_def checked_add_Some_iff word_less_nat_alt unat_safe)

lemma summary_valid_iff:
  "summary_valid s \<longleftrightarrow>
     unat (us_requests s) \<le> safe
     \<and> unat (us_usage_reports s) + unat (us_unfinalized_requests s) + unat (us_unreported_usage_requests s) = unat (us_requests s)
     \<and> (us_usage_reports s = 0 \<longleftrightarrow> us_usage s = None)
     \<and> (\<forall>u. us_usage s = Some u \<longrightarrow> served_valid u)"
proof -
  have "Option.bind (checked_add a b) (\<lambda>n. checked_add n c) = Some d \<longleftrightarrow> unat a + unat b + unat c = unat d" for a b c d :: u64
  proof (cases "checked_add a b")
    case None
    then show ?thesis using checked_add_None_iff [of a b] unat_u64_less [of d] by simp
  next
    case (Some x)
    then show ?thesis using checked_add_Some_iff [of a b x] checked_add_Some_iff [of x c d] by auto
  qed
  then show ?thesis
    by (auto simp: summary_valid_def usage_summary_validate_def served_valid_def [symmetric] word_less_nat_alt unat_safe
        split: option.splits)
qed

section \<open>Checked sums\<close>

text \<open>
  A checked addition over values that stand for families of counts: it succeeds exactly when a valid
  value stands for the sum, and parts of a sum that fits fit too.
\<close>

locale checked_sum =
  fixes add :: "'a \<Rightarrow> 'a \<Rightarrow> ('a, 'e) result"
    and valid :: "'a \<Rightarrow> bool"
    and counts :: "'a \<Rightarrow> 'k \<Rightarrow> nat"
  assumes counts_inject: "valid x \<Longrightarrow> valid y \<Longrightarrow> (\<And>k. counts x k = counts y k) \<Longrightarrow> x = y"
    and add_Ok_iff: "add x y = Ok z \<longleftrightarrow> valid x \<and> valid y \<and> valid z \<and> (\<forall>k. counts z k = counts x k + counts y k)"
    and part_fits: "valid x \<Longrightarrow> valid y \<Longrightarrow> valid z \<Longrightarrow> valid w \<Longrightarrow> (\<And>k. counts w k = counts x k + counts y k + counts z k)
      \<Longrightarrow> \<exists>v. valid v \<and> (\<forall>k. counts v k = counts x k + counts y k)"
begin

lemma add_commute: "add x y = Ok z \<longleftrightarrow> add y x = Ok z"
  by (auto simp: add_Ok_iff add.commute)

lemma add_assoc: "bindR (add x y) (\<lambda>v. add v z) = Ok w \<longleftrightarrow> bindR (add y z) (\<lambda>v. add x v) = Ok w"
proof
  assume "bindR (add x y) (\<lambda>v. add v z) = Ok w"
  then obtain v where v: "add x y = Ok v" "add v z = Ok w" by auto
  then have "\<exists>u. valid u \<and> (\<forall>k. counts u k = counts y k + counts z k)"
    by (intro part_fits [of y z x w]) (auto simp: add_Ok_iff)
  then obtain u where "valid u" "\<forall>k. counts u k = counts y k + counts z k" by blast
  with v have "add y z = Ok u \<and> add x u = Ok w" by (auto simp: add_Ok_iff)
  then show "bindR (add y z) (\<lambda>v. add x v) = Ok w" by auto
next
  assume "bindR (add y z) (\<lambda>v. add x v) = Ok w"
  then obtain v where v: "add y z = Ok v" "add x v = Ok w" by auto
  then have "\<exists>u. valid u \<and> (\<forall>k. counts u k = counts x k + counts y k)"
    by (intro part_fits [of x y z w]) (auto simp: add_Ok_iff)
  then obtain u where "valid u" "\<forall>k. counts u k = counts x k + counts y k" by blast
  with v have "add x y = Ok u \<and> add u z = Ok w" by (auto simp: add_Ok_iff)
  then show "bindR (add x y) (\<lambda>v. add v z) = Ok w" by auto
qed

lemma swap: "bindR (add s x) (\<lambda>t. add t y) = Ok w \<longleftrightarrow> bindR (add s y) (\<lambda>t. add t x) = Ok w"
  using add_assoc [of s x y w] add_assoc [of s y x w] add_commute [of x y] by auto

lemma fold_swap: "foldR add s (x # y # xs) = Ok w \<longleftrightarrow> foldR add s (y # x # xs) = Ok w"
proof -
  have "foldR add s (x # y # xs) = bindR (bindR (add s x) (\<lambda>t. add t y)) (\<lambda>t. foldR add t xs)" for x y
    by (simp add: bindR_assoc)
  then show ?thesis using swap [of s x y] by simp
qed

lemma fold_to_front: "x \<in> set xs \<Longrightarrow> foldR add s xs = Ok w \<longleftrightarrow> foldR add s (x # remove1 x xs) = Ok w"
proof (induction xs arbitrary: s)
  case (Cons y xs)
  show ?case
  proof (cases "x = y")
    case False
    with Cons.prems have "x \<in> set xs" by simp
    then have "foldR add s (y # xs) = Ok w \<longleftrightarrow> foldR add s (y # x # remove1 x xs) = Ok w"
      using Cons.IH by simp
    also have "\<dots> \<longleftrightarrow> foldR add s (x # y # remove1 x xs) = Ok w" by (rule fold_swap)
    finally show ?thesis using False by simp
  qed simp
qed simp

theorem fold_permuted: "mset xs = mset ys \<Longrightarrow> foldR add s xs = Ok w \<longleftrightarrow> foldR add s ys = Ok w"
proof (induction xs arbitrary: ys s w)
  case (Cons x xs)
  then have x: "x \<in> set ys" by (metis list.set_intros(1) set_mset_mset)
  have "mset xs = mset (remove1 x ys)" by (simp add: Cons.prems [symmetric])
  from Cons.IH [OF this] have "foldR add s (x # xs) = Ok w \<longleftrightarrow> foldR add s (x # remove1 x ys) = Ok w"
    by simp
  also have "\<dots> \<longleftrightarrow> foldR add s ys = Ok w" using fold_to_front [OF x] by simp
  finally show ?case .
qed simp

theorem fold_counts: "foldR add s xs = Ok w \<Longrightarrow> counts w k = counts s k + (\<Sum>x\<leftarrow>xs. counts x k)"
proof (induction xs arbitrary: s)
  case (Cons x xs)
  then obtain t where "add s x = Ok t" "foldR add t xs = Ok w" by auto
  with Cons.IH [of t] show ?case by (simp add: add_Ok_iff)
qed simp

end

lemma served_validate_Ok: "served_usage_validate u = Ok a \<longleftrightarrow> served_valid u"
  by (simp add: served_valid_def)

lemma summary_validate_Ok: "usage_summary_validate s = Ok a \<longleftrightarrow> summary_valid s"
  by (simp add: summary_valid_def)

lemma served_counts_inject: "(\<And>k. served_counts u k = served_counts w k) \<Longrightarrow> u = w"
  by (rule served_usage.equality)
     (metis served_counts.simps word_unat_eq_iff, metis served_counts.simps word_unat_eq_iff,
      metis served_counts.simps word_unat_eq_iff, metis served_counts.simps word_unat_eq_iff,
      metis served_counts.simps word_unat_eq_iff, simp)

lemma all_counters:
  "(\<forall>k. P k) \<longleftrightarrow> P CPrompt \<and> P COutput \<and> P CThoughts \<and> P CCached \<and> P CTotal \<and> P CRequests \<and> P CReports
     \<and> P CUnfinalized \<and> P CUnreported"
  by (metis counter.exhaust)

lemma served_add_Ok_iff:
  "served_usage_checked_add u w = Ok z \<longleftrightarrow>
     served_valid u \<and> served_valid w \<and> served_valid z \<and> (\<forall>k. served_counts z k = served_counts u k + served_counts w k)"
  by (cases z)
     (auto simp: served_usage_checked_add_def served_validate_Ok count_sum_Ok_iff all_counters Let_def,
      auto simp: served_valid_iff)

lemma word_of_small: "n \<le> safe \<Longrightarrow> unat (word_of_nat n :: u64) = n"
  by (simp add: unat_of_nat safe_def)

interpretation served: checked_sum served_usage_checked_add served_valid served_counts
proof unfold_locales
  fix x y z w
  assume "served_valid x" "served_valid y" "served_valid z" "served_valid w"
    and sums: "\<And>k. served_counts w k = served_counts x k + served_counts y k + served_counts z k"
  then have total: "unat (su_total x) + unat (su_total y) \<le> safe"
    using sums [of CTotal] by (simp add: served_valid_iff)
  let ?v = "\<lparr>su_prompt = su_prompt x + su_prompt y, su_output = su_output x + su_output y,
    su_thoughts = su_thoughts x + su_thoughts y, su_cached = su_cached x + su_cached y, su_total = su_total x + su_total y\<rparr>"
  have small: "unat (a + b) = unat a + unat b" if "unat a + unat b \<le> safe" for a b :: u64
    using that by (simp add: unat_word_ariths safe_def)
  have "\<forall>k. served_counts ?v k = served_counts x k + served_counts y k"
    using total \<open>served_valid x\<close> \<open>served_valid y\<close> by (auto simp: all_counters served_valid_iff intro!: small)
  moreover have "served_valid ?v"
    using total \<open>served_valid x\<close> \<open>served_valid y\<close> by (auto simp: served_valid_iff small)
  ultimately show "\<exists>v. served_valid v \<and> (\<forall>k. served_counts v k = served_counts x k + served_counts y k)" by blast
qed (simp_all add: served_counts_inject served_add_Ok_iff)

lemma summary_counts_inject:
  assumes "summary_valid s" "summary_valid t" and counts: "\<And>k. summary_counts s k = summary_counts t k"
  shows "s = t"
proof -
  have reports: "us_usage_reports s = us_usage_reports t" using counts [of CReports] by (simp add: word_unat_eq_iff)
  have "us_usage s = us_usage t"
  proof (cases "us_usage s")
    case None
    then show ?thesis using reports assms(1,2) by (simp add: summary_valid_iff)
  next
    case (Some u)
    obtain w where w: "us_usage t = Some w"
      using Some reports assms(1,2) by (cases "us_usage t") (auto simp: summary_valid_iff)
    have "\<forall>k. served_counts u k = served_counts w k"
      using Some w counts [of CPrompt] counts [of COutput] counts [of CThoughts] counts [of CCached] counts [of CTotal]
      by (simp add: all_counters optional_counts_def)
    then have "u = w" by (intro served_counts_inject) blast
    then show ?thesis using Some w by simp
  qed
  moreover have "us_requests s = us_requests t" "us_unfinalized_requests s = us_unfinalized_requests t"
    "us_unreported_usage_requests s = us_unreported_usage_requests t"
    using counts [of CRequests] counts [of CUnfinalized] counts [of CUnreported] by (simp_all add: word_unat_eq_iff)
  ultimately show ?thesis using reports by simp
qed

text \<open>The usage of a sum: the sums of counts that are there.\<close>

lemma merge_usage_Ok_iff:
  assumes "\<forall>u. a = Some u \<longrightarrow> served_valid u" and "\<forall>u. b = Some u \<longrightarrow> served_valid u"
    and "\<forall>u. r = Some u \<longrightarrow> served_valid u"
  shows "merge_usage a b = Ok r \<longleftrightarrow>
    (r = None \<longleftrightarrow> a = None \<and> b = None) \<and> (\<forall>k. optional_counts r k = optional_counts a k + optional_counts b k)"
proof (cases a; cases b; cases r)
  fix u w z assume eq: "a = Some u" "b = Some w" "r = Some z"
  then show ?thesis using assms by (simp add: merge_usage_def served_add_Ok_iff optional_counts_def)
next
  fix u z assume "a = Some u" "b = None" "r = Some z"
  then show ?thesis using served_counts_inject [of u z] by (auto simp: merge_usage_def optional_counts_def)
next
  fix w z assume "a = None" "b = Some w" "r = Some z"
  then show ?thesis using served_counts_inject [of w z] by (auto simp: merge_usage_def optional_counts_def)
qed (auto simp: merge_usage_def optional_counts_def)

lemma summary_valid_usage: "summary_valid s \<Longrightarrow> \<forall>u. us_usage s = Some u \<longrightarrow> served_valid u"
  by (simp add: summary_valid_iff)

lemma summary_add_Ok_iff:
  "usage_summary_checked_add s t = Ok z \<longleftrightarrow>
     summary_valid s \<and> summary_valid t \<and> summary_valid z \<and> (\<forall>k. summary_counts z k = summary_counts s k + summary_counts t k)"
proof -
  have usage: "(\<forall>k. optional_counts r k = optional_counts a k + optional_counts b k) \<longleftrightarrow>
      (\<forall>k \<in> {CPrompt, COutput, CThoughts, CCached, CTotal}. optional_counts r k = optional_counts a k + optional_counts b k)" for r a b
    by (auto simp: all_counters optional_counts_def split: option.splits)
  have "usage_summary_checked_add s t = Ok z \<longleftrightarrow>
      summary_valid s \<and> summary_valid t \<and> summary_valid z
      \<and> count_sum (us_requests s) (us_requests t) = Ok (us_requests z)
      \<and> count_sum (us_usage_reports s) (us_usage_reports t) = Ok (us_usage_reports z)
      \<and> count_sum (us_unfinalized_requests s) (us_unfinalized_requests t) = Ok (us_unfinalized_requests z)
      \<and> count_sum (us_unreported_usage_requests s) (us_unreported_usage_requests t) = Ok (us_unreported_usage_requests z)
      \<and> merge_usage (us_usage s) (us_usage t) = Ok (us_usage z)"
    by (cases z) (auto simp: usage_summary_checked_add_def summary_validate_Ok Let_def)
  also have "\<dots> \<longleftrightarrow> summary_valid s \<and> summary_valid t \<and> summary_valid z
      \<and> (\<forall>k. summary_counts z k = summary_counts s k + summary_counts t k)"
  proof (intro conj_cong refl)
    assume valid: "summary_valid s" "summary_valid t" "summary_valid z"
    note merge = merge_usage_Ok_iff [OF valid [THEN summary_valid_usage]]
    have "us_usage z = None \<longleftrightarrow> us_usage s = None \<and> us_usage t = None"
      if "unat (us_usage_reports z) = unat (us_usage_reports s) + unat (us_usage_reports t)"
      using valid that by (auto simp: summary_valid_iff unat_eq_zero [symmetric] simp del: unat_eq_zero)
    with valid show "(count_sum (us_requests s) (us_requests t) = Ok (us_requests z)
      \<and> count_sum (us_usage_reports s) (us_usage_reports t) = Ok (us_usage_reports z)
      \<and> count_sum (us_unfinalized_requests s) (us_unfinalized_requests t) = Ok (us_unfinalized_requests z)
      \<and> count_sum (us_unreported_usage_requests s) (us_unreported_usage_requests t) = Ok (us_unreported_usage_requests z)
      \<and> merge_usage (us_usage s) (us_usage t) = Ok (us_usage z))
      \<longleftrightarrow> (\<forall>k. summary_counts z k = summary_counts s k + summary_counts t k)"
      unfolding merge usage count_sum_Ok_iff all_counters summary_counts.simps summary_valid_iff by auto
  qed
  finally show ?thesis .
qed

interpretation summary: checked_sum usage_summary_checked_add summary_valid summary_counts
proof unfold_locales
  fix x y z w
  assume valid: "summary_valid x" "summary_valid y" "summary_valid z" "summary_valid w"
    and sums: "\<And>k. summary_counts w k = summary_counts x k + summary_counts y k + summary_counts z k"
  have total: "unat (us_requests x) + unat (us_requests y) \<le> safe"
    using sums [of CRequests] valid(4) by (simp add: summary_valid_iff)
  have small: "unat (a + b) = unat a + unat b" if "unat a + unat b \<le> safe" for a b :: u64
    using that by (simp add: unat_word_ariths safe_def)
  have usage: "\<exists>r. merge_usage (us_usage x) (us_usage y) = Ok r \<and> (\<forall>u. r = Some u \<longrightarrow> served_valid u)"
  proof (cases "us_usage x"; cases "us_usage y")
    fix u v assume u: "us_usage x = Some u" and v: "us_usage y = Some v"
    have uv: "served_valid u" "served_valid v" using valid(1,2) u v by (auto simp: summary_valid_iff)
    have "us_usage_reports w \<noteq> 0"
      using sums [of CReports] u valid(1) by (auto simp: summary_valid_iff unat_eq_zero [symmetric] simp del: unat_eq_zero)
    then obtain t where t: "us_usage w = Some t" "served_valid t" using valid(4) by (auto simp: summary_valid_iff)
    have "\<exists>r. served_usage_checked_add u v = Ok r"
    proof (cases "us_usage z")
      case None
      have "\<forall>k. served_counts t k = served_counts u k + served_counts v k"
        using sums [of CPrompt] sums [of COutput] sums [of CThoughts] sums [of CCached] sums [of CTotal] u v t None
        by (simp add: all_counters optional_counts_def)
      with uv t show ?thesis using served_add_Ok_iff by blast
    next
      case (Some q)
      have "\<forall>k. served_counts t k = served_counts u k + served_counts v k + served_counts q k"
        using sums [of CPrompt] sums [of COutput] sums [of CThoughts] sums [of CCached] sums [of CTotal] u v t Some
        by (simp add: all_counters optional_counts_def)
      moreover have "served_valid q" using valid(3) Some by (simp add: summary_valid_iff)
      ultimately show ?thesis using served.part_fits [OF uv _ t(2), of q] served_add_Ok_iff uv by blast
    qed
    then show ?thesis using u v by (auto simp: merge_usage_def served_add_Ok_iff)
  qed (use valid in \<open>auto simp: merge_usage_def summary_valid_iff\<close>)
  then obtain r where r: "merge_usage (us_usage x) (us_usage y) = Ok r" "\<forall>u. r = Some u \<longrightarrow> served_valid u" by blast
  note merge = merge_usage_Ok_iff [OF summary_valid_usage [OF valid(1)] summary_valid_usage [OF valid(2)] r(2), THEN iffD1, OF r(1)]
  let ?v = "\<lparr>us_requests = us_requests x + us_requests y, us_usage_reports = us_usage_reports x + us_usage_reports y,
    us_unfinalized_requests = us_unfinalized_requests x + us_unfinalized_requests y,
    us_unreported_usage_requests = us_unreported_usage_requests x + us_unreported_usage_requests y, us_usage = r\<rparr>"
  have reports: "unat (us_usage_reports x + us_usage_reports y) = unat (us_usage_reports x) + unat (us_usage_reports y)"
    using total valid(1,2) by (intro small) (simp add: summary_valid_iff)
  have "\<forall>k. summary_counts ?v k = summary_counts x k + summary_counts y k"
    using total valid(1,2) merge by (auto simp: all_counters summary_valid_iff intro!: small)
  moreover have "us_usage_reports x + us_usage_reports y = 0 \<longleftrightarrow> r = None"
    using reports valid(1,2) merge by (simp add: summary_valid_iff unat_eq_zero [symmetric] del: unat_eq_zero)
  then have "summary_valid ?v"
    using total valid(1,2) r(2) by (auto simp: summary_valid_iff small)
  ultimately show "\<exists>v. summary_valid v \<and> (\<forall>k. summary_counts v k = summary_counts x k + summary_counts y k)" by blast
qed (simp_all add: summary_counts_inject summary_add_Ok_iff)

section \<open>Histories of requests\<close>

datatype usage_event = Admitted | Outcome "served_usage option"

fun usage_step :: "usage_summary \<Rightarrow> usage_event \<Rightarrow> usage_summary contract_result" where
  "usage_step s Admitted = admit_request s"
| "usage_step s (Outcome usage) = finalize s usage"

text \<open>What a history counts.\<close>

definition event_counts :: "usage_event list \<Rightarrow> counter \<Rightarrow> nat" where
  "event_counts es k =
     (case k of
        CRequests \<Rightarrow> length (filter (\<lambda>e. e = Admitted) es)
      | CReports \<Rightarrow> length (filter (\<lambda>e. \<exists>u. e = Outcome (Some u)) es)
      | CUnreported \<Rightarrow> length (filter (\<lambda>e. e = Outcome None) es)
      | CUnfinalized \<Rightarrow> length (filter (\<lambda>e. e = Admitted) es) - length (filter (\<lambda>e. e \<noteq> Admitted) es)
      | _ \<Rightarrow> (\<Sum>e\<leftarrow>es. case e of Outcome usage \<Rightarrow> optional_counts usage k | Admitted \<Rightarrow> 0))"

lemma unat_one: "unat (1 :: u64) = 1"
  by simp

lemma admit_request_Ok:
  assumes "admit_request s = Ok t"
  shows "summary_valid s \<and> summary_valid t
    \<and> (\<forall>k. summary_counts t k = summary_counts s k + (if k = CRequests \<or> k = CUnfinalized then 1 else 0))"
proof -
  from assms obtain a b where "summary_valid s" "t = s\<lparr>us_requests := a, us_unfinalized_requests := b\<rparr>"
    "unat a = unat (us_requests s) + 1" "unat a \<le> safe" "unat b = unat (us_unfinalized_requests s) + 1"
    by (auto simp: admit_request_def summary_validate_Ok count_sum_Ok_iff)
  then show ?thesis by (auto simp: all_counters summary_valid_iff)
qed

lemma finalize_Ok:
  assumes "finalize s usage = Ok t"
  shows "summary_valid s \<and> summary_valid t \<and> summary_counts s CUnfinalized = summary_counts t CUnfinalized + 1
    \<and> (\<forall>k. k \<noteq> CUnfinalized \<longrightarrow> summary_counts t k = summary_counts s k
          + (if k = CReports then (if usage = None then 0 else 1)
             else if k = CUnreported then (if usage = None then 1 else 0) else optional_counts usage k))"
proof (cases usage)
  case None
  with assms obtain a b where "summary_valid s" "summary_valid t" "t = s\<lparr>us_unfinalized_requests := a, us_unreported_usage_requests := b\<rparr>"
    "unat (us_unfinalized_requests s) = unat a + 1" "unat b = unat (us_unreported_usage_requests s) + 1"
    by (auto simp: finalize_def summary_validate_Ok count_sum_Ok_iff checked_sub_Some_iff)
  with None show ?thesis by (auto simp: all_counters optional_counts_def)
next
  case (Some u)
  with assms obtain a b w where w: "summary_valid s" "summary_valid t"
      "t = s\<lparr>us_unfinalized_requests := a, us_usage_reports := b, us_usage := Some w\<rparr>"
      "unat (us_unfinalized_requests s) = unat a + 1" "unat b = unat (us_usage_reports s) + 1"
      "(case us_usage s of Some previous \<Rightarrow> served_usage_checked_add previous u | None \<Rightarrow> Ok u) = Ok w"
    by (auto simp: finalize_def summary_validate_Ok count_sum_Ok_iff checked_sub_Some_iff)
  then have "\<forall>k. served_counts w k = optional_counts (us_usage s) k + served_counts u k"
    by (auto simp: served_add_Ok_iff optional_counts_def split: option.splits)
  with w Some show ?thesis by (auto simp: all_counters optional_counts_def)
qed

lemma usage_history:
  assumes "foldR usage_step usage_summary_default es = Ok s"
  shows "summary_valid s \<and> (\<forall>k. summary_counts s k = event_counts es k)
    \<and> length (filter (\<lambda>e. e \<noteq> Admitted) es) \<le> length (filter (\<lambda>e. e = Admitted) es)"
  using assms
proof (induction es arbitrary: s rule: rev_induct)
  case Nil
  then show ?case
    by (auto simp: usage_summary_default_def summary_valid_iff all_counters event_counts_def optional_counts_def)
next
  case (snoc e es)
  then obtain r where r: "foldR usage_step usage_summary_default es = Ok r" and s: "usage_step r e = Ok s"
    by (auto simp: foldR_append)
  note IH = snoc.IH [OF r]
  show ?case
  proof (cases e)
    case Admitted
    with s admit_request_Ok [of r s] IH show ?thesis by (auto simp: all_counters event_counts_def)
  next
    case (Outcome usage)
    with s finalize_Ok [of r usage s] IH show ?thesis
      by (cases usage) (auto simp: all_counters event_counts_def optional_counts_def)
  qed
qed

text \<open>
  C20: Merging the usage totals of several sources does not depend on their order: a sequence of checked
  additions and any permutation of it accept the same total, and every counter of that total is the sum of the
  counters merged, so no order loses a count and no order overflows where another does not.
\<close>

theorem usage_totals_order_free:
  assumes "mset xs = mset ys"
  shows "(foldR usage_summary_checked_add s xs = Ok w \<longleftrightarrow> foldR usage_summary_checked_add s ys = Ok w)
    \<and> (foldR usage_summary_checked_add s xs = Ok w \<longrightarrow>
        (\<forall>k. summary_counts w k = summary_counts s k + (\<Sum>x\<leftarrow>ys. summary_counts x k)))"
  using summary.fold_permuted [OF assms, of s w] summary.fold_counts [of s ys w] by auto

definition sample_served :: served_usage where
  "sample_served = \<lparr>su_prompt = 3, su_output = 2, su_thoughts = 1, su_cached = 1, su_total = 5\<rparr>"

definition sample_reported :: usage_summary where
  "sample_reported = \<lparr>us_requests = 1, us_usage_reports = 1, us_unfinalized_requests = 0, us_unreported_usage_requests = 0,
     us_usage = Some sample_served\<rparr>"

definition sample_open :: usage_summary where
  "sample_open = \<lparr>us_requests = 2, us_usage_reports = 0, us_unfinalized_requests = 1, us_unreported_usage_requests = 1, us_usage = None\<rparr>"

lemmas usage_evaluation = usage_summary_checked_add_def usage_summary_validate_def served_usage_validate_def count_sum_def
  checked_add_def checked_sub_def merge_usage_def SAFE_INTEGER_def usage_summary_default_def admit_request_def finalize_def
  served_usage_checked_add_def

theorem usage_totals_order_free_witness:
  "\<exists>w. foldR usage_summary_checked_add usage_summary_default [sample_open, sample_reported] = Ok w
    \<and> foldR usage_summary_checked_add usage_summary_default [sample_reported, sample_open] = Ok w
    \<and> summary_counts w CRequests = 3"
proof -
  have m: "mset [sample_open, sample_reported] = mset [sample_reported, sample_open]" by simp
  obtain w where w: "foldR usage_summary_checked_add usage_summary_default [sample_open, sample_reported] = Ok w"
    by (simp add: usage_evaluation sample_open_def sample_reported_def sample_served_def)
  note r = usage_totals_order_free [OF m, of usage_summary_default w]
  with w have "summary_counts w CRequests = summary_counts usage_summary_default CRequests
      + (\<Sum>x\<leftarrow>[sample_reported, sample_open]. summary_counts x CRequests)" by blast
  then have "summary_counts w CRequests = 3"
    by (simp add: sample_open_def sample_reported_def usage_summary_default_def)
  with w r show ?thesis by blast
qed

text \<open>
  C21: The usage of a run is its history: when admissions and outcomes are accepted in some order, every counter
  is the number of events of its kind, the token counters are the sums of the usages reported, the open requests
  are the admissions without an outcome, no outcome came before its admission, and the population is consistent
  and within the exact integer range.
\<close>

theorem usage_history_exact:
  assumes "foldR usage_step usage_summary_default es = Ok s"
  shows "usage_summary_validate s = Ok () \<and> (\<forall>k. summary_counts s k = event_counts es k)
    \<and> length (filter (\<lambda>e. e \<noteq> Admitted) es) \<le> length (filter (\<lambda>e. e = Admitted) es)"
  using usage_history [OF assms] by (simp add: summary_validate_Ok)

theorem usage_history_exact_witness:
  "\<exists>s. foldR usage_step usage_summary_default [Admitted, Admitted, Outcome (Some sample_served)] = Ok s
    \<and> summary_counts s CUnfinalized = 1 \<and> summary_counts s CTotal = 5"
proof -
  obtain s where s: "foldR usage_step usage_summary_default [Admitted, Admitted, Outcome (Some sample_served)] = Ok s"
    by (simp add: usage_evaluation sample_served_def)
  have "summary_counts s CUnfinalized = event_counts [Admitted, Admitted, Outcome (Some sample_served)] CUnfinalized"
    and "summary_counts s CTotal = event_counts [Admitted, Admitted, Outcome (Some sample_served)] CTotal"
    using usage_history_exact [OF s] by blast+
  then have "summary_counts s CUnfinalized = 1 \<and> summary_counts s CTotal = 5"
    unfolding event_counts_def optional_counts_def sample_served_def by (simp add: optional_counts_def)
  with s show ?thesis by blast
qed

end
