(* ===== verification/Generation.thy ===== *)
theory Generation
  imports Usage
begin

text \<open>
  \<^verbatim>\<open>protocol/engine/src/generation.rs\<close>: the decoded authority of one model generation. \<open>generation_read\<close>
  checks the retained envelope and folds its observations into the text, the thoughts, the calls and the
  parts shown; \<open>display\<close> groups what a settled turn shows.

  \<^verbatim>\<open>sha256\<close> (the hexadecimal SHA-256 digest) and \<^verbatim>\<open>serde_json::to_string\<close> of a string are the arguments \<open>sha256\<close>
  and \<open>quote\<close>. A JSON number parses to a \<^verbatim>\<open>f64\<close> by rounding to nearest, ties to even, so the result is
  finite exactly below the midpoint above the largest double and nonzero exactly above half of the
  smallest one.
\<close>

abbreviation generation_refusal :: "string \<Rightarrow> contract_fault" where
  "generation_refusal detail \<equiv> Fault (InvalidRecord (GenerationEvidence detail))"

section \<open>Data\<close>

datatype output_scope = Conversation "string option" | Internal

record origin =
  og_attempt :: string
  og_scope :: string

record call =
  cl_id :: string
  cl_name :: "string option"
  cl_arguments :: string

record incomplete_call =
  ic_name :: "string option"
  ic_arguments :: string

datatype shown = ShownText string | ShownCall nat | Unshowable

record display_message =
  dm_content_json :: string
  dm_tool_use_only :: bool
  dm_usage :: "served_usage option"

record generation =
  gn_journal :: string
  gn_id :: string
  gn_hash :: string
  gn_origin :: origin
  gn_output_scope :: output_scope
  gn_model :: string
  gn_usage :: "served_usage option"
  gn_finish :: "string option"
  gn_observation_count :: u64
  gn_source_requests :: "string list"
  gn_text :: string
  gn_display_text :: string
  gn_thinking :: string
  gn_calls :: "call list"
  gn_incomplete :: "incomplete_call list"
  gn_accepted_images_valid :: bool
  gn_shown_thinking :: string
  gn_shown :: "shown list"

definition output_scope_read :: "jvalue \<Rightarrow> nat \<Rightarrow> output_scope contract_result" where
  "output_scope_read v line =
     bindR (text_field v ''kind'' line) (\<lambda>kind.
       if kind = ''conversation'' then
         bindR (field v ''parent_tool_use_id'' line) (\<lambda>parent.
           if is_null parent then Ok (Conversation None)
           else bindR (text_field v ''parent_tool_use_id'' line) (\<lambda>p. Ok (Conversation (Some p))))
       else if kind = ''internal'' then Ok Internal
       else Err (generation_refusal ''generation has no declared output scope''))"

definition origin_read :: "jvalue \<Rightarrow> nat \<Rightarrow> origin contract_result" where
  "origin_read v line =
     bindR (text_field v ''kind'' line) (\<lambda>kind.
       if kind \<noteq> ''model'' then Err (generation_refusal ''generation has no model origin'')
       else bindR (text_field v ''attempt_id'' line) (\<lambda>attempt.
            bindR (text_field v ''kv_scope'' line) (\<lambda>scope.
              Ok \<lparr>og_attempt = attempt, og_scope = scope\<rparr>)))"

section \<open>Parts of a response\<close>

text \<open>\<^verbatim>\<open>value.raw().parse::<f64>()\<close>: finite, and different from zero.\<close>

definition f64_finite :: "json_number \<Rightarrow> bool" where
  "f64_finite n \<longleftrightarrow> \<bar>json_number_val n\<bar> < 2 ^ 1024 - 2 ^ 970"

definition f64_nonzero :: "json_number \<Rightarrow> bool" where
  "f64_nonzero n \<longleftrightarrow> 1 < \<bar>json_number_val n\<bar> * 2 ^ 1075"

definition str_at :: "jvalue \<Rightarrow> string \<Rightarrow> string option" where
  "str_at v key = Option.bind (jget v key) as_str"

definition text_of :: "jvalue \<Rightarrow> string" where
  "text_of part = (case str_at part ''text'' of Some s \<Rightarrow> s | None \<Rightarrow> [])"

definition values_of :: "jvalue option \<Rightarrow> jvalue list" where
  "values_of v = (case Option.bind v elements of Some vs \<Rightarrow> vs | None \<Rightarrow> [])"

definition truthy :: "jvalue option \<Rightarrow> bool" where
  "truthy v =
     (case v of
        None \<Rightarrow> False
      | Some JNull \<Rightarrow> False
      | Some (JBool b) \<Rightarrow> b
      | Some (JString s) \<Rightarrow> s \<noteq> []
      | Some (JNumber n) \<Rightarrow> f64_nonzero n
      | Some _ \<Rightarrow> True)"

definition primary_parts :: "jvalue \<Rightarrow> jvalue list" where
  "primary_parts response =
     values_of (case values_of (jget response ''candidates'') of
               [] \<Rightarrow> None
             | candidate # _ \<Rightarrow> Option.bind (jget candidate ''content'') (\<lambda>content. jget content ''parts''))"

definition valid_part :: "jvalue \<Rightarrow> bool" where
  "valid_part part \<longleftrightarrow> truthy (jget part ''thought'') \<or> truthy (jget part ''thoughtSignature'')
     \<or> str_at part ''text'' \<noteq> Some [] \<or> jget part ''functionCall'' \<noteq> None"

definition plain_text :: "jvalue \<Rightarrow> bool" where
  "plain_text part \<longleftrightarrow> (case jget part ''text'' of Some t \<Rightarrow> is_string t | None \<Rightarrow> False)
     \<and> list_all (\<lambda>key. \<not> truthy (jget part key))
         [''thought'', ''thoughtSignature'', ''functionCall'', ''functionResponse'', ''inlineData'', ''fileData'']"

definition valid_response :: "jvalue \<Rightarrow> jvalue list \<Rightarrow> bool" where
  "valid_response response parts \<longleftrightarrow> truthy (jget response ''usageMetadata'')
     \<or> list_ex (\<lambda>candidate. truthy (jget candidate ''finishReason'')) (values_of (jget response ''candidates''))
     \<or> (parts \<noteq> [] \<and> list_all (\<lambda>part.
          (case members part of Some ms \<Rightarrow> ms \<noteq> [] | None \<Rightarrow> False) \<and> valid_part part) parts)"

definition valid_image_references :: "jvalue \<Rightarrow> bool" where
  "valid_image_references part \<longleftrightarrow>
     list_all (\<lambda>source. \<not> is_null source
         \<and> (case jget source ''imageReferenceId'' of None \<Rightarrow> True | Some v \<Rightarrow> is_string v))
       (part # values_of (Option.bind (jget part ''functionResponse'') (\<lambda>response. jget response ''parts'')))"

lemma jsize_rev: "sum_list (map jsize (rev vs)) = sum_list (map jsize vs)"
  by (induction vs) auto

text \<open>The stack \<^verbatim>\<open>pending\<close> of \<^verbatim>\<open>finite_numbers\<close>, its top first.\<close>

function finite_numbers_loop :: "jvalue list \<Rightarrow> unit contract_result" where
  "finite_numbers_loop [] = Ok ()"
| "finite_numbers_loop (v # pending) =
     (case v of
        JNumber n \<Rightarrow>
          if \<not> f64_finite n then Err (generation_refusal ''decoded observations contain a nonfinite number'')
          else finite_numbers_loop pending
      | JArray items \<Rightarrow> finite_numbers_loop (rev items @ pending)
      | JObject ms \<Rightarrow> finite_numbers_loop (rev (map snd ms) @ pending)
      | _ \<Rightarrow> finite_numbers_loop pending)"
  by pat_completeness auto
termination
  by (relation "measure (\<lambda>pending. sum_list (map jsize pending))")
     (simp_all only: wf_measure in_measure map_append sum_list_append jsize_rev jsize.simps member_sizes list.map sum_list.Cons
        add_less_cancel_right less_add_same_cancel2 lessI jsize_pos)

definition finite_numbers :: "jvalue \<Rightarrow> unit contract_result" where
  "finite_numbers v = finite_numbers_loop [v]"

abbreviation arguments_refused :: contract_fault where
  "arguments_refused \<equiv> generation_refusal ''an observed call is not the one JSON object its arguments were served as''"

fun refuse_decode :: "decode_fault \<Rightarrow> contract_fault" where
  "refuse_decode (Refused _) = arguments_refused"
| "refuse_decode Panic = ContractPanic"

definition served_arguments :: "jvalue \<Rightarrow> limits \<Rightarrow> string contract_result" where
  "served_arguments call json =
     (if jget call ''args'' \<noteq> None then Err arguments_refused
      else bindR (ok_or (str_at call ''arguments'') arguments_refused) (\<lambda>served.
           bindR (map_err refuse_decode (document_decode served json)) (\<lambda>arguments.
             if as_object (document_tree arguments) = None then Err arguments_refused
             else bindR (map_err (\<lambda>_. arguments_refused) (finite_numbers (document_tree arguments))) (\<lambda>_.
               Ok served))))"

section \<open>Normalised call identities\<close>

function normalized_search :: "(nat \<Rightarrow> string) \<Rightarrow> string set \<Rightarrow> nat \<Rightarrow> string contract_result" where
  "normalized_search candidate used suffix =
     (if suffix \<le> unat SAFE_INTEGER then
        if candidate suffix \<notin> used then Ok (candidate suffix)
        else normalized_search candidate used (suffix + 1)
      else Err (generation_refusal ''normalization identity space is exhausted''))"
  by pat_completeness auto
termination
  by (relation "measure (\<lambda>(_, _, suffix). unat SAFE_INTEGER + 1 - suffix)") auto

declare normalized_search.simps [simp del]

definition next_normalized_id :: "string option \<Rightarrow> string set \<Rightarrow> string contract_result" where
  "next_normalized_id raw used =
     (case raw of
        Some (c # rest) \<Rightarrow>
          if c # rest \<notin> used then Ok (c # rest)
          else normalized_search (\<lambda>suffix. (c # rest) @ ''__qwen_dup_'' @ nat_to_string suffix) used 2
      | _ \<Rightarrow> normalized_search (\<lambda>suffix. ''call_qwen'' @ ''_'' @ nat_to_string suffix) used 1)"

section \<open>Reading a generation\<close>

text \<open>The locals of \<^verbatim>\<open>Generation::read\<close> that its loop over the observations updates.\<close>

record reading =
  rd_generation :: generation
  rd_raw_ids :: "string set"
  rd_used_ids :: "string set"
  rd_normalized_ids :: "string set"
  rd_preparations :: "(string, string \<times> string) btree"
  rd_reservations :: "(string, string) btree"
  rd_observed_usage :: "served_usage option"
  rd_observed_finish :: "string option"
  rd_previous_plain_nonempty :: bool

definition update_generation :: "(generation \<Rightarrow> generation) \<Rightarrow> reading \<Rightarrow> reading" where
  "update_generation f r = r\<lparr>rd_generation := f (rd_generation r)\<rparr>"

definition nonempty :: "string option \<Rightarrow> string option" where
  "nonempty s = (case s of Some (c # cs) \<Rightarrow> Some (c # cs) | _ \<Rightarrow> None)"

definition observe_usage :: "jvalue \<Rightarrow> nat \<Rightarrow> reading \<Rightarrow> reading" where
  "observe_usage response line r =
     (case jget response ''usageMetadata'' of
        None \<Rightarrow> r
      | Some usage \<Rightarrow> (case served_usage_read usage line of Ok u \<Rightarrow> r\<lparr>rd_observed_usage := Some u\<rparr> | Err _ \<Rightarrow> r))"

definition observe_finish :: "jvalue \<Rightarrow> reading \<Rightarrow> reading" where
  "observe_finish response r =
     fold (\<lambda>candidate r. if rd_observed_finish r = None
             then r\<lparr>rd_observed_finish := nonempty (str_at candidate ''finishReason'')\<rparr> else r)
       (values_of (jget response ''candidates'')) r"

definition observe_preparation :: "nat \<Rightarrow> reading \<Rightarrow> jvalue \<Rightarrow> reading contract_result" where
  "observe_preparation line r preparation =
     bindR (text_field preparation ''provider_call_id'' line) (\<lambda>provider.
     bindR (text_field preparation ''callId'' line) (\<lambda>ident.
     bindR (text_field preparation ''toolName'' line) (\<lambda>name.
     bindR (case btree_get (rd_preparations r) provider of
              Some (reserved, _) \<Rightarrow> Ok reserved
            | None \<Rightarrow> next_normalized_id (Some provider) (rd_used_ids r)) (\<lambda>expected.
       if ident \<noteq> expected then Err (generation_refusal ''preparation does not follow the recorded history seed'')
       else if (case btree_get (rd_preparations r) provider of Some previous \<Rightarrow> previous \<noteq> (ident, name) | None \<Rightarrow> False)
         \<or> (case btree_get (rd_reservations r) ident of Some previous \<Rightarrow> previous \<noteq> provider | None \<Rightarrow> False)
         \<or> (btree_get (rd_preparations r) provider = None \<and> ident \<in> rd_normalized_ids r)
       then Err (generation_refusal ''preparation changes or reuses a normalization identity'')
       else Ok (r\<lparr>rd_preparations := btree_insert provider (ident, name) (rd_preparations r),
                  rd_reservations := btree_insert ident provider (rd_reservations r),
                  rd_used_ids := Set.insert ident (rd_used_ids r)\<rparr>)))))"

definition observe_text :: "reading \<Rightarrow> jvalue \<Rightarrow> reading contract_result" where
  "observe_text r part =
     (if (case jget part ''text'' of Some v \<Rightarrow> \<not> is_string v | None \<Rightarrow> False)
      then Err (generation_refusal ''observed Part text is not a string'')
      else let thought = truthy (jget part ''thought'');
               r = (if thought then r
                    else update_generation (\<lambda>g. g\<lparr>gn_display_text := gn_display_text g @ text_of part\<rparr>) r)
           in Ok (if truthy (jget part ''functionCall'') then r
                  else if thought then update_generation (\<lambda>g. g\<lparr>gn_thinking := gn_thinking g @ text_of part\<rparr>) r
                  else update_generation (\<lambda>g. g\<lparr>gn_text := gn_text g @ text_of part\<rparr>) r))"

text \<open>What a part says of a call: none, one already observed, or one with its normalised identity.\<close>

datatype part_call = NoCall | DuplicateCall | MappedCall jvalue string string

definition expected_id :: "string option \<Rightarrow> reading \<Rightarrow> string contract_result" where
  "expected_id provider r =
     (case Option.bind (nonempty provider) (btree_get (rd_preparations r)) of
        Some (reserved, _) \<Rightarrow> Ok reserved
      | None \<Rightarrow> next_normalized_id provider (rd_used_ids r))"

definition accept_call :: "nat \<Rightarrow> jvalue \<Rightarrow> jvalue \<Rightarrow> reading \<Rightarrow> (reading \<times> string) contract_result" where
  "accept_call line mapping call r =
     (let provider = str_at call ''id'' in
      bindR (text_field mapping ''normalized_id'' line) (\<lambda>ident.
      bindR (expected_id provider r) (\<lambda>expected.
        if ident \<noteq> expected
        then Err (generation_refusal ''call mapping does not follow the recorded history seed'')
        else if ident \<in> rd_normalized_ids r
          \<or> (case btree_get (rd_reservations r) ident of Some reserved \<Rightarrow> Some reserved \<noteq> provider | None \<Rightarrow> False)
          \<or> (case Option.bind (nonempty provider) (btree_get (rd_preparations r)) of
               Some (prepared, name) \<Rightarrow> prepared \<noteq> ident \<or> Some name \<noteq> str_at call ''name''
             | None \<Rightarrow> False)
        then Err (generation_refusal ''call mapping repeats or contradicts its preparation'')
        else Ok (r\<lparr>rd_used_ids := Set.insert ident (rd_used_ids r),
                  rd_normalized_ids := Set.insert ident (rd_normalized_ids r),
                  rd_raw_ids := (case nonempty provider of
                                   Some p \<Rightarrow> Set.insert p (rd_raw_ids r) | None \<Rightarrow> rd_raw_ids r)\<rparr>, ident))))"

definition resolve_call :: "nat \<Rightarrow> limits \<Rightarrow> jvalue list \<Rightarrow> nat \<Rightarrow> jvalue \<Rightarrow> reading \<Rightarrow> nat \<Rightarrow>
    (reading \<times> nat \<times> part_call) contract_result" where
  "resolve_call line json mappings position part r mapped =
     (if \<not> truthy (jget part ''functionCall'') then Ok (r, mapped, NoCall)
      else let call = the (jget part ''functionCall'') in
        if as_object call = None \<or> (case jget call ''id'' of Some v \<Rightarrow> \<not> is_string v | None \<Rightarrow> False)
        then Err (generation_refusal ''observed function call identity is invalid'')
        else bindR (served_arguments call json) (\<lambda>served.
             bindR (ok_or (get_at mappings mapped) (generation_refusal ''call mapping omits an observed call'')) (\<lambda>mapping.
             let duplicate = (case nonempty (str_at call ''id'') of Some p \<Rightarrow> p \<in> rd_raw_ids r | None \<Rightarrow> False) in
             bindR (field mapping ''normalized_id'' line) (\<lambda>identity.
             bindR (field mapping ''part_index'' line) (\<lambda>part_index.
             bindR (unsigned part_index ''call part index'' SAFE_INTEGER) (\<lambda>index.
               if index \<noteq> word_of_nat position \<or> is_null identity \<noteq> duplicate
               then Err (generation_refusal ''call mapping changes order or suppresses original output'')
               else if duplicate then Ok (r, mapped + 1, DuplicateCall)
               else bindR (accept_call line mapping call r) (\<lambda>(r', ident).
                 Ok (r', mapped + 1, MappedCall call ident served))))))))"

definition extend_last :: "string \<Rightarrow> shown list \<Rightarrow> shown list" where
  "extend_last s xs = (if xs = [] then [] else
     case last xs of ShownText t \<Rightarrow> butlast xs @ [ShownText (t @ s)] | _ \<Rightarrow> xs)"

fun shown_of :: "jvalue \<Rightarrow> part_call \<Rightarrow> generation \<Rightarrow> generation" where
  "shown_of part (MappedCall call ident served) g =
     g\<lparr>gn_calls := gn_calls g @ [\<lparr>cl_id = ident, cl_name = str_at call ''name'', cl_arguments = served\<rparr>],
       gn_shown := gn_shown g @ [ShownCall (length (gn_calls g))]\<rparr>"
| "shown_of part _ g =
     (let text_only = (case members part of
            Some ms \<Rightarrow> list_all (\<lambda>(key, _). key = ''text'' \<or> key = ''thoughtSignature'') ms | None \<Rightarrow> False)
      in g\<lparr>gn_shown := gn_shown g @ [case str_at part ''text'' of
              Some t \<Rightarrow> if text_only then ShownText t else Unshowable | None \<Rightarrow> Unshowable]\<rparr>)"

definition show_part :: "jvalue \<Rightarrow> part_call \<Rightarrow> reading \<Rightarrow> reading" where
  "show_part part found r =
     (if found = DuplicateCall then r
      else if truthy (jget part ''thought'')
      then update_generation (\<lambda>g. g\<lparr>gn_shown_thinking := gn_shown_thinking g @ text_of part\<rparr>) r
      else if rd_previous_plain_nonempty r \<and> plain_text part
      then update_generation (\<lambda>g. g\<lparr>gn_shown := extend_last (text_of part) (gn_shown g)\<rparr>) r
      else if \<not> valid_part part then r
      else update_generation (\<lambda>g. shown_of part found
             (g\<lparr>gn_accepted_images_valid := gn_accepted_images_valid g \<and> valid_image_references part\<rparr>))
           (r\<lparr>rd_previous_plain_nonempty := plain_text part \<and> truthy (jget part ''text'')\<rparr>))"

definition observe_part :: "nat \<Rightarrow> limits \<Rightarrow> jvalue list \<Rightarrow> reading \<times> nat \<Rightarrow> nat \<times> jvalue \<Rightarrow> (reading \<times> nat) contract_result" where
  "observe_part line json mappings s indexed =
     (case (s, indexed) of ((r, mapped), position, part) \<Rightarrow>
        bindR (resolve_call line json mappings position part r mapped) (\<lambda>(r', mapped', found).
          Ok (show_part part found r', mapped')))"

definition observe_parts :: "nat \<Rightarrow> limits \<Rightarrow> jvalue list \<Rightarrow> jvalue \<Rightarrow> jvalue list \<Rightarrow> reading \<Rightarrow> (reading \<times> nat) contract_result" where
  "observe_parts line json mappings response parts r =
     (if valid_response response parts then foldR (observe_part line json mappings) (r, 0) (enumerate 0 parts)
      else Ok (r, 0))"

definition incomplete_read :: "jvalue \<Rightarrow> nat \<Rightarrow> incomplete_call contract_result" where
  "incomplete_read v line =
     bindR (field v ''name'' line) (\<lambda>name.
     bindR (field v ''arguments'' line) (\<lambda>arguments.
     bindR (ok_or (as_str arguments) ContractPanic) (\<lambda>arguments.
       Ok \<lparr>ic_name = as_str name, ic_arguments = arguments\<rparr>)))"

definition observe_incomplete :: "nat \<Rightarrow> reading \<Rightarrow> jvalue \<Rightarrow> reading contract_result" where
  "observe_incomplete line r v =
     bindR (incomplete_read v line) (\<lambda>call.
       Ok (update_generation (\<lambda>g. g\<lparr>gn_incomplete := gn_incomplete g @ [call]\<rparr>) r))"

definition observe_observation :: "nat \<Rightarrow> limits \<Rightarrow> reading \<Rightarrow> jvalue \<Rightarrow> reading contract_result" where
  "observe_observation line json r observation =
     bindR (text_field observation ''source_request_id'' line) (\<lambda>source.
     let r = update_generation (\<lambda>g. g\<lparr>gn_source_requests := gn_source_requests g @ [source]\<rparr>) r in
     bindR (field observation ''response'' line) (\<lambda>response.
     let r = observe_finish response (observe_usage response line r) in
     bindR (foldR (observe_preparation line) r (values_of (jget observation ''tool_call_preparations''))) (\<lambda>r.
     let parts = primary_parts response in
     bindR (foldR observe_text r parts) (\<lambda>r.
     let mappings = values_of (jget observation ''call_ids'') in
     bindR (observe_parts line json mappings response parts r) (\<lambda>(r, mapped).
       if mapped \<noteq> length mappings then Err (generation_refusal ''call mapping invents an observed call'')
       else foldR (observe_incomplete line) r (values_of (jget observation ''incomplete_tool_calls'')))))))"

fun envelope_fault :: "decode_fault \<Rightarrow> contract_fault" where
  "envelope_fault (Refused (ResourceLimit resource n)) = Fault (ValidationUnavailable (GenerationLimit resource n))"
| "envelope_fault (Refused e) = Fault (InvalidRecord (GenerationSyntax e))"
| "envelope_fault Panic = ContractPanic"

definition generation_open :: "jvalue \<Rightarrow> jvalue \<Rightarrow> string \<Rightarrow> nat \<Rightarrow> nat \<Rightarrow> jvalue \<Rightarrow> generation contract_result" where
  "generation_open evidence envelope hash observations line usage =
     bindR (text_field evidence ''journal_id'' line) (\<lambda>journal.
     bindR (text_field evidence ''generation_id'' line) (\<lambda>ident.
     bindR (bindR (field envelope ''origin'' line) (\<lambda>v. origin_read v line)) (\<lambda>origin.
     bindR (bindR (field envelope ''output_scope'' line) (\<lambda>v. output_scope_read v line)) (\<lambda>scope.
     bindR (text_field envelope ''model'' line) (\<lambda>model.
     bindR (if is_null usage then Ok None else map_ok Some (served_usage_read usage line)) (\<lambda>usage.
     bindR (field envelope ''finish_reason'' line) (\<lambda>finish.
       Ok \<lparr>gn_journal = journal, gn_id = ident, gn_hash = hash, gn_origin = origin, gn_output_scope = scope,
           gn_model = model, gn_usage = usage, gn_finish = as_str finish,
           gn_observation_count = word_of_nat observations, gn_source_requests = [], gn_text = [],
           gn_display_text = [], gn_thinking = [], gn_calls = [], gn_incomplete = [],
           gn_accepted_images_valid = True, gn_shown_thinking = [], gn_shown = []\<rparr>)))))))"

definition generation_read ::
  "(string \<Rightarrow> string) \<Rightarrow> compilation \<Rightarrow> jvalue \<Rightarrow> nat \<Rightarrow> limits \<Rightarrow> nat \<Rightarrow> (origin \<Rightarrow> string list contract_result)
     \<Rightarrow> generation contract_result" where
  "generation_read sha256 c evidence line json operations seed_for_origin =
     bindR (validate c evidence ''ModelGenerationEvidence'' operations line) (\<lambda>_.
     bindR (text_field evidence ''generation_json'' line) (\<lambda>raw.
     bindR (text_field evidence ''generation_sha256'' line) (\<lambda>hash.
     bindR (field evidence ''generation_bytes'' line) (\<lambda>bytes.
     bindR (unsigned bytes ''generation bytes'' SAFE_INTEGER) (\<lambda>bytes.
       if length raw \<noteq> unat bytes \<or> sha256 raw \<noteq> hash
       then Err (generation_refusal ''byte count or SHA-256 differs from the retained envelope'')
       else
         bindR (map_err envelope_fault (document_decode raw json)) (\<lambda>document.
         let envelope = document_tree document in
         bindR (validate c envelope ''GenerationEnvelope'' operations line) (\<lambda>_.
         bindR (finite_numbers envelope) (\<lambda>_.
         bindR (field envelope ''usage'' line) (\<lambda>usage.
         let observations = values_of (jget envelope ''observations'') in
         bindR (generation_open evidence envelope hash (length observations) line usage) (\<lambda>g.
           if (case gn_output_scope g of Conversation (Some parent) \<Rightarrow> parent \<noteq> og_scope (gn_origin g) | _ \<Rightarrow> False)
           then Err (generation_refusal ''conversation tool parent differs from the generation invocation'')
           else
             bindR (seed_for_origin (gn_origin g)) (\<lambda>seed.
             bindR (foldR (observe_observation line json)
                      \<lparr>rd_generation = g, rd_raw_ids = {}, rd_used_ids = set seed, rd_normalized_ids = {},
                       rd_preparations = [], rd_reservations = [], rd_observed_usage = None,
                       rd_observed_finish = None, rd_previous_plain_nonempty = False\<rparr> observations) (\<lambda>r.
               if gn_usage (rd_generation r) \<noteq> rd_observed_usage r \<or> gn_finish (rd_generation r) \<noteq> rd_observed_finish r
               then Err (generation_refusal ''summary contradicts complete observations'')
               else Ok (rd_generation r)))))))))))))"

section \<open>What a settled turn shows\<close>

definition require_refused :: "generation \<Rightarrow> bool \<Rightarrow> unit contract_result" where
  "require_refused g by_backend =
     (let limit = (\<not> by_backend \<and> gn_usage g \<noteq> None \<and> gn_finish g = Some ''MAX_TOKENS'');
          backend = (by_backend \<and> gn_usage g = None \<and> gn_finish g = None \<and> gn_incomplete g = [])
      in if \<not> (limit \<or> backend) \<or> gn_calls g \<noteq> []
         then Err (generation_refusal ''a refused draw must stop at its output limit, or end in its backend's refusal, without a call'')
         else Ok ())"

definition thinking_block :: "(string \<Rightarrow> string) \<Rightarrow> string \<Rightarrow> string" where
  "thinking_block quote s = ''{\"type\":\"thinking\",\"thinking\":'' @ quote s @ ''}''"

definition text_block :: "(string \<Rightarrow> string) \<Rightarrow> string \<Rightarrow> string" where
  "text_block quote s = ''{\"type\":\"text\",\"text\":'' @ quote s @ ''}''"

definition tool_use_block :: "(string \<Rightarrow> string) \<Rightarrow> string \<Rightarrow> string \<Rightarrow> string \<Rightarrow> string" where
  "tool_use_block quote ident name arguments =
     ''{\"type\":\"tool_use\",\"id\":'' @ quote ident @ '',\"name\":'' @ quote name @ '',\"input\":'' @ arguments @ ''}''"

definition incomplete_block :: "(string \<Rightarrow> string) \<Rightarrow> incomplete_call \<Rightarrow> string" where
  "incomplete_block quote call =
     ''{\"type\":\"incomplete_tool_use\",\"name\":'' @ (case ic_name call of None \<Rightarrow> ''null'' | Some name \<Rightarrow> quote name)
       @ '',\"arguments\":'' @ quote (ic_arguments call) @ ''}''"

fun shown_block :: "(string \<Rightarrow> string) \<Rightarrow> call list \<Rightarrow> bool \<Rightarrow> (string \<times> string) list \<Rightarrow> shown
    \<Rightarrow> (string \<times> string) list contract_result" where
  "shown_block quote calls refused blocks (ShownText t) =
     Ok (if t = [] then blocks else blocks @ [(''text'', text_block quote t)])"
| "shown_block quote calls refused blocks (ShownCall index) =
     bindR (ok_or (get_at calls index) ContractPanic) (\<lambda>call.
       case (cl_name call, refused) of
         (Some name, False) \<Rightarrow>
           Ok (blocks @ [(''tool_use'', tool_use_block quote (cl_id call) name (cl_arguments call))])
       | _ \<Rightarrow> Err (generation_refusal ''a displayed turn carries a call it cannot have made''))"
| "shown_block quote calls refused blocks Unshowable =
     Err (generation_refusal ''a displayed turn carries a model part no assistant block represents'')"

text \<open>The loop over the blocks: a block joins the last group when that group has its kind.\<close>

definition group_block :: "(string \<times> string) list list \<Rightarrow> string \<times> string \<Rightarrow> (string \<times> string) list list contract_result" where
  "group_block groups block =
     (if groups = [] then Ok [[block]]
      else bindR (ok_or (get_at (last groups) 0) ContractPanic) (\<lambda>first.
        Ok (if fst first = fst block then butlast groups @ [last groups @ [block]] else groups @ [[block]])))"

fun join_comma :: "string list \<Rightarrow> string" where
  "join_comma [] = []"
| "join_comma [x] = x"
| "join_comma (x # xs) = x @ '','' @ join_comma xs"

definition display_blocks :: "(string \<Rightarrow> string) \<Rightarrow> generation \<Rightarrow> bool \<Rightarrow> (string \<times> string) list contract_result" where
  "display_blocks quote g refused =
     bindR (foldR (shown_block quote (gn_calls g) refused)
              (if gn_shown_thinking g = [] then [] else [(''thinking'', thinking_block quote (gn_shown_thinking g))])
              (gn_shown g)) (\<lambda>blocks.
       Ok (blocks @ map (\<lambda>call. (''incomplete_tool_use'', incomplete_block quote call)) (gn_incomplete g)))"

text \<open>The message of one group: its blocks, whether all of them are calls, and the usage on the last one.\<close>

definition group_message :: "served_usage option \<Rightarrow> nat \<Rightarrow> nat \<Rightarrow> (string \<times> string) list \<Rightarrow> display_message" where
  "group_message usage final index blocks =
     \<lparr>dm_content_json = ''['' @ join_comma (map snd blocks) @ '']'',
      dm_tool_use_only = (blocks \<noteq> [] \<and> list_all (\<lambda>(kind, _). kind = ''tool_use'') blocks),
      dm_usage = (if index = final then usage else None)\<rparr>"

definition display :: "(string \<Rightarrow> string) \<Rightarrow> generation \<Rightarrow> bool \<Rightarrow> display_message list contract_result" where
  "display quote g refused =
     bindR (display_blocks quote g refused) (\<lambda>blocks.
     bindR (foldR group_block [] blocks) (\<lambda>groups.
       let groups = (if groups = [] then [[]] else groups); final = length groups - 1 in
       Ok (map (\<lambda>(index, blocks). group_message (gn_usage g) final index blocks) (enumerate 0 groups))))"

definition shown_reasoning :: "generation \<Rightarrow> string" where
  "shown_reasoning g = gn_shown_thinking g"

definition shown_text :: "generation \<Rightarrow> string" where
  "shown_text g = concat (map (\<lambda>s. case s of ShownText t \<Rightarrow> t | _ \<Rightarrow> []) (gn_shown g))"

definition require_accepted :: "generation \<Rightarrow> unit contract_result" where
  "require_accepted g =
     (if gn_usage g = None \<or> gn_finish g = None \<or> gn_finish g = Some ''MAX_TOKENS'' \<or> gn_incomplete g \<noteq> []
      then Err (generation_refusal ''accepted history lacks a complete usable generation'')
      else if \<not> gn_accepted_images_valid g
      then Err (generation_refusal ''accepted history has an invalid image reference'')
      else if 1 < length (gn_calls g)
        \<or> list_ex (\<lambda>call. \<not> (case cl_name call of Some name \<Rightarrow> name \<noteq> [] | None \<Rightarrow> False)) (gn_calls g)
      then Err (generation_refusal ''accepted generation has invalid executable calls'')
      else Ok ())"

section \<open>Identities are fresh and always found\<close>

lemma normalized_search_fresh: "normalized_search candidate used suffix = Ok i \<Longrightarrow> i \<notin> used \<and> (\<exists>n. i = candidate n)"
  by (induction candidate used suffix rule: normalized_search.induct)
     (auto simp: normalized_search.simps [of _ _ suffix for suffix] split: if_splits)

lemma normalized_search_exhausted:
  "normalized_search candidate used suffix = Err e \<Longrightarrow> candidate ` {suffix..unat SAFE_INTEGER} \<subseteq> used"
proof (induction candidate used suffix rule: normalized_search.induct)
  case (1 candidate used suffix)
  show ?case
  proof (cases "suffix \<le> unat SAFE_INTEGER")
    case True
    with 1 have "candidate suffix \<in> used" "candidate ` {suffix + 1..unat SAFE_INTEGER} \<subseteq> used"
      by (auto simp: normalized_search.simps [of candidate used suffix] split: if_splits)
    moreover have "{suffix..unat SAFE_INTEGER} = Set.insert suffix {suffix + 1..unat SAFE_INTEGER}"
      using True by auto
    ultimately show ?thesis by simp
  qed simp
qed

lemma nat_to_string_inject: "nat_to_string m = nat_to_string n \<longleftrightarrow> m = n"
  using nat_to_string_digits by metis

lemma normalized_search_found:
  assumes inj: "inj candidate" and fin: "finite used" and room: "card used < unat SAFE_INTEGER + 1 - suffix"
  shows "\<exists>i. normalized_search candidate used suffix = Ok i"
proof (rule ccontr)
  assume "\<not> ?thesis"
  then obtain e where "normalized_search candidate used suffix = Err e"
    by (cases "normalized_search candidate used suffix") auto
  then have "card (candidate ` {suffix..unat SAFE_INTEGER}) \<le> card used"
    using normalized_search_exhausted fin by (blast intro: card_mono)
  moreover have "card (candidate ` {suffix..unat SAFE_INTEGER}) = unat SAFE_INTEGER + 1 - suffix"
    using inj by (simp add: card_image inj_on_subset)
  ultimately show False using room by simp
qed

lemma next_normalized_id_fresh: "next_normalized_id raw used = Ok i \<Longrightarrow> i \<notin> used \<and> i \<noteq> []"
  by (auto simp: next_normalized_id_def dest!: normalized_search_fresh split: option.splits list.splits if_splits)

text \<open>
  C24: A call always gets an identity: while fewer than \<open>2 ^ 53 - 2\<close> identities are used, normalisation returns
  one that is not empty and not used, and it returns the identity the provider served when that one is free.
\<close>

theorem next_normalized_id_found:
  assumes "finite used" and "card used < unat SAFE_INTEGER - 1"
  shows "\<exists>i. next_normalized_id raw used = Ok i \<and> i \<notin> used \<and> i \<noteq> []
    \<and> (\<forall>p. raw = Some p \<longrightarrow> p \<noteq> [] \<longrightarrow> p \<notin> used \<longrightarrow> i = p)"
proof -
  have "\<exists>i. next_normalized_id raw used = Ok i"
    using assms
    by (auto simp: next_normalized_id_def inj_on_def nat_to_string_inject intro!: normalized_search_found split: option.splits list.splits)
  then obtain i where i: "next_normalized_id raw used = Ok i" by blast
  moreover have "i = p" if "raw = Some p" "p \<noteq> []" "p \<notin> used" for p
    using i that by (cases p) (simp_all add: next_normalized_id_def)
  ultimately show ?thesis using next_normalized_id_fresh by blast
qed

theorem next_normalized_id_found_witness:
  "\<exists>i. next_normalized_id (Some ''a'') {''a''} = Ok i \<and> i \<notin> {''a''} \<and> i \<noteq> []"
  using next_normalized_id_found [of "{''a''}" "Some ''a''"] by (simp add: SAFE_INTEGER_def)

section \<open>The calls of a generation\<close>

fun all_finite :: "jvalue \<Rightarrow> bool" where
  "all_finite (JNumber n) = f64_finite n"
| "all_finite (JArray items) = list_all all_finite items"
| "all_finite (JObject ms) = list_all (\<lambda>(_, v). all_finite v) ms"
| "all_finite _ = True"

lemma finite_numbers_loop_exact: "finite_numbers_loop pending = Ok () \<longleftrightarrow> list_all all_finite pending"
proof (induction pending rule: finite_numbers_loop.induct)
  case (2 v pending)
  then show ?case by (cases v) (auto simp: list_all_iff Ball_def split_beta)
qed simp

lemma finite_numbers_exact: "finite_numbers v = Ok () \<longleftrightarrow> all_finite v"
  unfolding finite_numbers_def finite_numbers_loop_exact by simp

text \<open>The text of a call's arguments: one JSON object of finite numbers within the limits.\<close>

definition arguments_object :: "limits \<Rightarrow> string \<Rightarrow> bool" where
  "arguments_object json s \<longleftrightarrow> (\<exists>d ms. document_decode s json = Ok d \<and> document_tree d = JObject ms \<and> all_finite (JObject ms))"

lemma served_arguments_Ok: "served_arguments call json = Ok s \<Longrightarrow> arguments_object json s \<and> str_at call ''arguments'' = Some s"
  by (auto simp: served_arguments_def arguments_object_def finite_numbers_exact split: if_splits)

fun shown_calls :: "shown list \<Rightarrow> nat list" where
  "shown_calls [] = []"
| "shown_calls (ShownCall i # xs) = i # shown_calls xs"
| "shown_calls (_ # xs) = shown_calls xs"

lemma shown_calls_append [simp]: "shown_calls (xs @ ys) = shown_calls xs @ shown_calls ys"
  by (induction xs rule: shown_calls.induct) auto

lemma shown_calls_extend [simp]: "shown_calls (extend_last s xs) = shown_calls xs"
  by (cases xs rule: rev_cases) (auto simp: extend_last_def split: shown.splits)

definition calls_ok :: "limits \<Rightarrow> string set \<Rightarrow> generation \<Rightarrow> bool" where
  "calls_ok json seed g \<longleftrightarrow> distinct (map cl_id (gn_calls g))
     \<and> (\<forall>call \<in> set (gn_calls g). cl_id call \<noteq> [] \<and> cl_id call \<notin> seed \<and> arguments_object json (cl_arguments call))
     \<and> shown_calls (gn_shown g) = [0..<length (gn_calls g)]"

definition ids_ok :: "string set \<Rightarrow> reading \<Rightarrow> bool" where
  "ids_ok seed r \<longleftrightarrow> seed \<subseteq> rd_used_ids r \<and> rd_normalized_ids r \<inter> seed = {} \<and> rd_normalized_ids r \<subseteq> rd_used_ids r
     \<and> (\<forall>p i n. btree_get (rd_preparations r) p = Some (i, n) \<longrightarrow> i \<notin> seed \<and> i \<noteq> [])"

definition reading_ok :: "limits \<Rightarrow> string set \<Rightarrow> reading \<Rightarrow> bool" where
  "reading_ok json seed r \<longleftrightarrow> ids_ok seed r \<and> calls_ok json seed (rd_generation r)
     \<and> cl_id ` set (gn_calls (rd_generation r)) \<subseteq> rd_normalized_ids r"

text \<open>The steps that keep the identities and the calls as they are.\<close>

definition keeps_calls :: "reading \<Rightarrow> reading \<Rightarrow> bool" where
  "keeps_calls r r' \<longleftrightarrow> rd_used_ids r' = rd_used_ids r \<and> rd_normalized_ids r' = rd_normalized_ids r
     \<and> rd_preparations r' = rd_preparations r \<and> gn_calls (rd_generation r') = gn_calls (rd_generation r)
     \<and> shown_calls (gn_shown (rd_generation r')) = shown_calls (gn_shown (rd_generation r))"

lemma keeps_calls_ok: "keeps_calls r r' \<Longrightarrow> reading_ok json seed r \<Longrightarrow> reading_ok json seed r'"
  unfolding keeps_calls_def reading_ok_def ids_ok_def calls_ok_def by simp

lemma keeps_calls_refl [simp]: "keeps_calls r r"
  by (simp add: keeps_calls_def)

lemma keeps_calls_trans: "keeps_calls r s \<Longrightarrow> keeps_calls s t \<Longrightarrow> keeps_calls r t"
  by (simp add: keeps_calls_def)

lemma observe_usage_keeps: "keeps_calls r (observe_usage response line r)"
  by (auto simp: observe_usage_def keeps_calls_def split: option.splits result.splits)

lemma observe_finish_keeps: "keeps_calls r (observe_finish response r)"
proof -
  have "keeps_calls s (fold (\<lambda>candidate r. if rd_observed_finish r = None
             then r\<lparr>rd_observed_finish := nonempty (str_at candidate ''finishReason'')\<rparr> else r) vs s)" for vs s
  proof (induction vs arbitrary: s)
    case (Cons v vs)
    show ?case
      using Cons.IH [of "s\<lparr>rd_observed_finish := nonempty (str_at v ''finishReason'')\<rparr>"] Cons.IH [of s]
      by (auto simp: keeps_calls_def)
  qed simp
  then show ?thesis by (simp add: observe_finish_def)
qed

lemma observe_text_keeps: "observe_text r part = Ok r' \<Longrightarrow> keeps_calls r r'"
  by (auto simp: observe_text_def keeps_calls_def update_generation_def Let_def split: if_splits)

lemma observe_incomplete_keeps: "observe_incomplete line r v = Ok r' \<Longrightarrow> keeps_calls r r'"
  by (auto simp: observe_incomplete_def keeps_calls_def update_generation_def)

lemma observe_preparation_ok:
  assumes "observe_preparation line r v = Ok r'" and "reading_ok json seed r"
  shows "reading_ok json seed r'"
proof -
  obtain provider ident name where r': "r' = r\<lparr>rd_preparations := btree_insert provider (ident, name) (rd_preparations r),
        rd_reservations := btree_insert ident provider (rd_reservations r), rd_used_ids := Set.insert ident (rd_used_ids r)\<rparr>"
    and ident: "(case btree_get (rd_preparations r) provider of Some (reserved, _) \<Rightarrow> Ok reserved
       | None \<Rightarrow> next_normalized_id (Some provider) (rd_used_ids r)) = Ok ident"
    using assms(1) by (auto simp: observe_preparation_def split: if_splits)
  have "ident \<notin> seed \<and> ident \<noteq> []"
    using ident assms(2) next_normalized_id_fresh by (fastforce simp: reading_ok_def ids_ok_def split: option.splits)
  then show ?thesis
    using assms(2) unfolding r' reading_ok_def ids_ok_def by auto
qed

text \<open>What resolving a call of a part leaves: the calls untouched, and a mapped identity fresh.\<close>

fun call_fresh :: "limits \<Rightarrow> string set \<Rightarrow> reading \<Rightarrow> part_call \<Rightarrow> bool" where
  "call_fresh json seed r (MappedCall call ident served) \<longleftrightarrow> ident \<noteq> [] \<and> ident \<notin> seed \<and> ident \<in> rd_normalized_ids r
     \<and> ident \<notin> cl_id ` set (gn_calls (rd_generation r)) \<and> arguments_object json served"
| "call_fresh json seed r _ \<longleftrightarrow> True"

lemma expected_id_fresh: "expected_id provider r = Ok ident \<Longrightarrow> ids_ok seed r \<Longrightarrow> ident \<notin> seed"
proof (cases "Option.bind (nonempty provider) (btree_get (rd_preparations r))")
  case None
  assume "expected_id provider r = Ok ident" "ids_ok seed r"
  with None show ?thesis
    using next_normalized_id_fresh [of provider "rd_used_ids r" ident] by (auto simp: expected_id_def ids_ok_def)
next
  case (Some q)
  assume "expected_id provider r = Ok ident" and ok: "ids_ok seed r"
  with Some have "fst q = ident" by (auto simp: expected_id_def split: prod.splits)
  moreover obtain p where "btree_get (rd_preparations r) p = Some q" using Some by (cases "nonempty provider") auto
  ultimately have "btree_get (rd_preparations r) p = Some (ident, snd q)" by auto
  then show ?thesis using ok unfolding ids_ok_def by blast
qed

lemma accept_call_ok:
  assumes "accept_call line mapping call r = Ok (r', ident)" and ok: "reading_ok json seed r"
  shows "reading_ok json seed r' \<and> ident \<noteq> [] \<and> ident \<notin> seed \<and> ident \<in> rd_normalized_ids r'
    \<and> ident \<notin> cl_id ` set (gn_calls (rd_generation r')) \<and> rd_generation r' = rd_generation r"
proof -
  obtain raw where new: "ident \<notin> rd_normalized_ids r" "ident \<noteq> []" "expected_id (str_at call ''id'') r = Ok ident"
    and r': "r' = r\<lparr>rd_used_ids := Set.insert ident (rd_used_ids r),
                rd_normalized_ids := Set.insert ident (rd_normalized_ids r), rd_raw_ids := raw\<rparr>"
    using assms(1) by (simp add: accept_call_def Let_def text_field_Ok_iff split: if_splits) blast
  moreover have "ident \<notin> seed" using expected_id_fresh [OF new(3)] ok by (simp add: reading_ok_def)
  ultimately show ?thesis using ok unfolding reading_ok_def ids_ok_def by auto
qed

lemma resolve_call_cases:
  assumes "resolve_call line json mappings position part r mapped = Ok (r', mapped', found)"
  shows "(r' = r \<and> (found = NoCall \<or> found = DuplicateCall))
    \<or> (\<exists>mapping call ident served. found = MappedCall call ident served
        \<and> served_arguments call json = Ok served \<and> accept_call line mapping call r = Ok (r', ident))"
  using assms by (simp add: resolve_call_def Let_def split: if_splits) blast+

lemma resolve_call_ok:
  assumes "resolve_call line json mappings position part r mapped = Ok (r', mapped', found)"
    and ok: "reading_ok json seed r"
  shows "reading_ok json seed r' \<and> call_fresh json seed r' found"
  using resolve_call_cases [OF assms(1)] accept_call_ok [OF _ ok] served_arguments_Ok ok by fastforce

lemma shown_of_calls:
  "gn_calls (shown_of part found g) = gn_calls g @ (case found of MappedCall call ident served \<Rightarrow>
       [\<lparr>cl_id = ident, cl_name = str_at call ''name'', cl_arguments = served\<rparr>] | _ \<Rightarrow> [])"
  "shown_calls (gn_shown (shown_of part found g)) = shown_calls (gn_shown g)
     @ (case found of MappedCall _ _ _ \<Rightarrow> [length (gn_calls g)] | _ \<Rightarrow> [])"
  by (cases found; auto simp: Let_def split: option.splits)+

lemma show_part_ok:
  assumes ok: "reading_ok json seed r" and fresh: "call_fresh json seed r found"
  shows "reading_ok json seed (show_part part found r)"
proof -
  let ?f = "\<lambda>g. shown_of part found (g\<lparr>gn_accepted_images_valid := gn_accepted_images_valid g \<and> valid_image_references part\<rparr>)"
  let ?r = "update_generation ?f (r\<lparr>rd_previous_plain_nonempty := plain_text part \<and> truthy (jget part ''text'')\<rparr>)"
  have "reading_ok json seed ?r"
  proof (cases found)
    case (MappedCall call ident served)
    with fresh ok show ?thesis
      unfolding reading_ok_def calls_ok_def ids_ok_def
      by (simp add: update_generation_def)
  next
    case NoCall
    have "keeps_calls r ?r" by (simp add: keeps_calls_def update_generation_def shown_of_calls NoCall del: shown_of.simps)
    then show ?thesis using ok by (rule keeps_calls_ok)
  next
    case DuplicateCall
    have "keeps_calls r ?r" by (simp add: keeps_calls_def update_generation_def shown_of_calls DuplicateCall del: shown_of.simps)
    then show ?thesis using ok by (rule keeps_calls_ok)
  qed
  moreover have "keeps_calls r (update_generation (\<lambda>g. g\<lparr>gn_shown_thinking := gn_shown_thinking g @ text_of part\<rparr>) r)"
    and "keeps_calls r (update_generation (\<lambda>g. g\<lparr>gn_shown := extend_last (text_of part) (gn_shown g)\<rparr>) r)"
    by (simp_all add: keeps_calls_def update_generation_def)
  ultimately show ?thesis
    unfolding show_part_def using ok keeps_calls_ok by presburger
qed

lemma observe_part_ok:
  assumes "observe_part line json mappings s indexed = Ok s'" and "reading_ok json seed (fst s)"
  shows "reading_ok json seed (fst s')"
proof -
  obtain r mapped position part where s: "s = (r, mapped)" "indexed = (position, part)" by (cases s; cases indexed) auto
  with assms(1) obtain r' mapped' found where "resolve_call line json mappings position part r mapped = Ok (r', mapped', found)"
    and "s' = (show_part part found r', mapped')"
    by (auto simp: observe_part_def)
  with resolve_call_ok [of line json mappings position part r mapped r' mapped' found seed] show_part_ok assms(2) s
  show ?thesis by simp
qed

lemma foldR_keeps:
  "foldR f s xs = Ok s' \<Longrightarrow> P s \<Longrightarrow> (\<And>s x s'. f s x = Ok s' \<Longrightarrow> P s \<Longrightarrow> P s') \<Longrightarrow> P s'"
  by (rule foldR_invariant [where P = P])

lemma observe_parts_ok:
  assumes "observe_parts line json mappings response parts r = Ok (r', mapped)" and ok: "reading_ok json seed r"
  shows "reading_ok json seed r'"
proof (cases "valid_response response parts")
  case True
  with assms(1) have "foldR (observe_part line json mappings) (r, 0) (enumerate 0 parts) = Ok (r', mapped)"
    by (simp add: observe_parts_def)
  then have "reading_ok json seed (fst (r', mapped))"
    by (rule foldR_invariant [where P = "\<lambda>s. reading_ok json seed (fst s)", rotated 2]) (use ok observe_part_ok in auto)
  then show ?thesis by simp
next
  case False
  then show ?thesis using assms by (simp add: observe_parts_def)
qed

lemma observe_observation_ok:
  assumes "observe_observation line json r observation = Ok r'" and ok: "reading_ok json seed r"
  shows "reading_ok json seed r'"
proof -
  obtain source response r1 r2 r3 mapped where
    1: "foldR (observe_preparation line) (observe_finish response (observe_usage response line
          (update_generation (\<lambda>g. g\<lparr>gn_source_requests := gn_source_requests g @ [source]\<rparr>) r)))
        (values_of (jget observation ''tool_call_preparations'')) = Ok r1"
    and 2: "foldR observe_text r1 (primary_parts response) = Ok r2"
    and 3: "observe_parts line json (values_of (jget observation ''call_ids'')) response (primary_parts response) r2 = Ok (r3, mapped)"
    and 4: "foldR (observe_incomplete line) r3 (values_of (jget observation ''incomplete_tool_calls'')) = Ok r'"
    using assms(1) by (auto simp: observe_observation_def Let_def split: if_splits)
  let ?P = "reading_ok json seed"
  let ?r = "update_generation (\<lambda>g. g\<lparr>gn_source_requests := gn_source_requests g @ [source]\<rparr>) r"
  have "keeps_calls r ?r" by (simp add: keeps_calls_def update_generation_def)
  then have "keeps_calls r (observe_finish response (observe_usage response line ?r))"
    by (rule keeps_calls_trans [OF keeps_calls_trans [OF _ observe_usage_keeps] observe_finish_keeps])
  then have "?P (observe_finish response (observe_usage response line ?r))" using ok by (rule keeps_calls_ok)
  with 1 have "?P r1" by (rule foldR_keeps) (rule observe_preparation_ok)
  with 2 have "?P r2" by (rule foldR_keeps) (rule keeps_calls_ok [OF observe_text_keeps])
  with 3 have "?P r3" by (rule observe_parts_ok)
  with 4 show ?thesis by (rule foldR_keeps) (rule keeps_calls_ok [OF observe_incomplete_keeps])
qed

section \<open>The texts of a generation\<close>

text \<open>The fields no observation changes, and those only the texts of the parts change.\<close>

definition header :: "generation \<Rightarrow> origin \<times> output_scope \<times> string \<times> string" where
  "header g = (gn_origin g, gn_output_scope g, gn_hash g, gn_model g)"

definition keeps_texts :: "generation \<Rightarrow> generation \<Rightarrow> bool" where
  "keeps_texts g g' \<longleftrightarrow> header g' = header g \<and> gn_text g' = gn_text g \<and> gn_display_text g' = gn_display_text g
     \<and> gn_thinking g' = gn_thinking g \<and> gn_source_requests g' = gn_source_requests g"

abbreviation keeps_reading :: "reading \<Rightarrow> reading \<Rightarrow> bool" where
  "keeps_reading r r' \<equiv> keeps_texts (rd_generation r) (rd_generation r')"

lemma keeps_texts_refl [simp]: "keeps_texts g g"
  by (simp add: keeps_texts_def)

lemma keeps_texts_trans: "keeps_texts f g \<Longrightarrow> keeps_texts g h \<Longrightarrow> keeps_texts f h"
  by (simp add: keeps_texts_def)

lemma foldR_texts:
  assumes "foldR f s xs = Ok s'" and "\<And>s x s'. f s x = Ok s' \<Longrightarrow> keeps_texts (p s) (p s')"
  shows "keeps_texts (p s) (p s')"
  using assms(1)
  by (rule foldR_keeps [where P = "\<lambda>t. keeps_texts (p s) (p t)"]) (blast intro: keeps_texts_trans assms(2) keeps_texts_refl)+

lemma observe_usage_generation [simp]: "rd_generation (observe_usage response line r) = rd_generation r"
  by (auto simp: observe_usage_def split: option.splits result.splits)

lemma observe_finish_generation [simp]: "rd_generation (observe_finish response r) = rd_generation r"
proof -
  have "rd_generation (fold (\<lambda>candidate r. if rd_observed_finish r = None
             then r\<lparr>rd_observed_finish := nonempty (str_at candidate ''finishReason'')\<rparr> else r) vs s) = rd_generation s" for vs s
  proof (induction vs arbitrary: s)
    case (Cons v vs)
    show ?case using Cons.IH [of "s\<lparr>rd_observed_finish := nonempty (str_at v ''finishReason'')\<rparr>"] Cons.IH [of s] by simp
  qed simp
  then show ?thesis by (simp add: observe_finish_def)
qed

lemma observe_preparation_texts: "observe_preparation line r v = Ok r' \<Longrightarrow> keeps_reading r r'"
  by (auto simp: observe_preparation_def split: if_splits)

lemma observe_incomplete_texts: "observe_incomplete line r v = Ok r' \<Longrightarrow> keeps_reading r r'"
  by (auto simp: observe_incomplete_def update_generation_def keeps_texts_def header_def)

lemma shown_of_texts: "keeps_texts g (shown_of part found g)"
  by (cases found) (simp_all add: keeps_texts_def header_def Let_def)

lemma show_part_texts: "keeps_reading r (show_part part found r)"
proof -
  have "keeps_texts g (shown_of part found (g\<lparr>gn_accepted_images_valid := b\<rparr>))" for g b
    by (rule keeps_texts_trans [OF _ shown_of_texts]) (simp add: keeps_texts_def header_def)
  then show ?thesis
    by (auto simp: show_part_def update_generation_def keeps_texts_def header_def)
qed

lemma resolve_call_generation:
  "resolve_call line json mappings position part r mapped = Ok (r', mapped', found) \<Longrightarrow> rd_generation r' = rd_generation r"
  using resolve_call_cases [of line json mappings position part r mapped r' mapped' found]
  by (auto simp: accept_call_def Let_def split: if_splits)

lemma observe_part_texts:
  assumes "observe_part line json mappings s indexed = Ok s'"
  shows "keeps_reading (fst s) (fst s')"
proof -
  obtain r' found where "rd_generation r' = rd_generation (fst s)" "fst s' = show_part (snd indexed) found r'"
    using assms by (cases s; cases indexed) (auto simp: observe_part_def dest: resolve_call_generation)
  then show ?thesis using show_part_texts [of r' "snd indexed" found] by simp
qed

lemma observe_parts_texts:
  assumes "observe_parts line json mappings response parts r = Ok (r', mapped)"
  shows "keeps_reading r r'"
  using assms foldR_texts [where p = "\<lambda>s. rd_generation (fst s)" and s = "(r, 0)" and s' = "(r', mapped)"] observe_part_texts
  by (fastforce simp: observe_parts_def split: if_splits)

text \<open>What the parts say, in order.\<close>

definition spoken :: "jvalue list \<Rightarrow> string" where
  "spoken parts = concat (map text_of (filter (\<lambda>p. \<not> truthy (jget p ''functionCall'') \<and> \<not> truthy (jget p ''thought'')) parts))"

definition thought :: "jvalue list \<Rightarrow> string" where
  "thought parts = concat (map text_of (filter (\<lambda>p. \<not> truthy (jget p ''functionCall'') \<and> truthy (jget p ''thought'')) parts))"

definition displayed :: "jvalue list \<Rightarrow> string" where
  "displayed parts = concat (map text_of (filter (\<lambda>p. \<not> truthy (jget p ''thought'')) parts))"

definition adds_texts :: "generation \<Rightarrow> jvalue list \<Rightarrow> generation \<Rightarrow> bool" where
  "adds_texts g parts g' \<longleftrightarrow> header g' = header g \<and> gn_source_requests g' = gn_source_requests g
     \<and> gn_text g' = gn_text g @ spoken parts \<and> gn_thinking g' = gn_thinking g @ thought parts
     \<and> gn_display_text g' = gn_display_text g @ displayed parts"

lemma observe_text_adds: "observe_text r part = Ok r' \<Longrightarrow> adds_texts (rd_generation r) [part] (rd_generation r')"
  by (auto simp: observe_text_def adds_texts_def update_generation_def header_def spoken_def thought_def displayed_def Let_def
        split: if_splits)

lemma adds_texts_Nil [simp]: "adds_texts g [] g"
  by (simp add: adds_texts_def spoken_def thought_def displayed_def)

lemma adds_texts_trans: "adds_texts f ps g \<Longrightarrow> adds_texts g qs h \<Longrightarrow> adds_texts f (ps @ qs) h"
  by (simp add: adds_texts_def spoken_def thought_def displayed_def)

lemma foldR_observe_text: "foldR observe_text r parts = Ok r' \<Longrightarrow> adds_texts (rd_generation r) parts (rd_generation r')"
proof (induction parts arbitrary: r)
  case (Cons p parts)
  then obtain s where s: "observe_text r p = Ok s" "foldR observe_text s parts = Ok r'" by auto
  show ?case using adds_texts_trans [OF observe_text_adds [OF s(1)] Cons.IH [OF s(2)]] by simp
qed simp

definition observed_parts :: "jvalue \<Rightarrow> jvalue list" where
  "observed_parts observation = (case jget observation ''response'' of Some response \<Rightarrow> primary_parts response | None \<Rightarrow> [])"

lemma observe_observation_texts:
  assumes "observe_observation line json r observation = Ok r'"
  shows "\<exists>source. str_at observation ''source_request_id'' = Some source
    \<and> header (rd_generation r') = header (rd_generation r)
    \<and> gn_source_requests (rd_generation r') = gn_source_requests (rd_generation r) @ [source]
    \<and> gn_text (rd_generation r') = gn_text (rd_generation r) @ spoken (observed_parts observation)
    \<and> gn_thinking (rd_generation r') = gn_thinking (rd_generation r) @ thought (observed_parts observation)
    \<and> gn_display_text (rd_generation r') = gn_display_text (rd_generation r) @ displayed (observed_parts observation)"
proof -
  obtain source response r1 r2 r3 mapped where
    0: "jget observation ''source_request_id'' = Some (JString source)" "jget observation ''response'' = Some response"
    and 1: "foldR (observe_preparation line) (observe_finish response (observe_usage response line
          (update_generation (\<lambda>g. g\<lparr>gn_source_requests := gn_source_requests g @ [source]\<rparr>) r)))
        (values_of (jget observation ''tool_call_preparations'')) = Ok r1"
    and 2: "foldR observe_text r1 (primary_parts response) = Ok r2"
    and 3: "observe_parts line json (values_of (jget observation ''call_ids'')) response (primary_parts response) r2 = Ok (r3, mapped)"
    and 4: "foldR (observe_incomplete line) r3 (values_of (jget observation ''incomplete_tool_calls'')) = Ok r'"
    using assms by (auto simp: observe_observation_def text_field_Ok_iff Let_def split: if_splits)
  have "keeps_texts ((rd_generation r)\<lparr>gn_source_requests := gn_source_requests (rd_generation r) @ [source]\<rparr>) (rd_generation r1)"
    using foldR_texts [where p = rd_generation, OF 1 observe_preparation_texts] by (simp add: update_generation_def)
  moreover have "keeps_reading r2 r'"
    using keeps_texts_trans [OF observe_parts_texts [OF 3] foldR_texts [where p = rd_generation, OF 4 observe_incomplete_texts]] .
  ultimately show ?thesis
    using 0 foldR_observe_text [OF 2]
    by (auto simp: keeps_texts_def adds_texts_def header_def observed_parts_def str_at_def)
qed

lemma observations_texts:
  "foldR (observe_observation line json) r observations = Ok r' \<Longrightarrow>
     header (rd_generation r') = header (rd_generation r)
    \<and> map Some (gn_source_requests (rd_generation r')) =
        map Some (gn_source_requests (rd_generation r)) @ map (\<lambda>v. str_at v ''source_request_id'') observations
    \<and> gn_text (rd_generation r') = gn_text (rd_generation r) @ spoken (concat (map observed_parts observations))
    \<and> gn_thinking (rd_generation r') = gn_thinking (rd_generation r) @ thought (concat (map observed_parts observations))
    \<and> gn_display_text (rd_generation r') = gn_display_text (rd_generation r) @ displayed (concat (map observed_parts observations))"
proof (induction observations arbitrary: r)
  case Nil
  then show ?case by (simp add: spoken_def thought_def displayed_def)
next
  case (Cons v vs)
  then obtain s where s: "observe_observation line json r v = Ok s" "foldR (observe_observation line json) s vs = Ok r'" by auto
  show ?case using observe_observation_texts [OF s(1)] Cons.IH [OF s(2)]
    by (auto simp: spoken_def thought_def displayed_def)
qed

text \<open>A generation that is read opens from its envelope and folds its observations.\<close>

lemma generation_read_Ok:
  assumes "generation_read sha256 c evidence line json operations seed_for_origin = Ok g"
  obtains raw d g0 seed r where "jget evidence ''generation_json'' = Some (JString raw)" "document_decode raw json = Ok d"
    "sha256 raw = gn_hash g0" "all_finite (document_tree d)" "seed_for_origin (gn_origin g0) = Ok seed"
    "gn_text g0 = []" "gn_thinking g0 = []" "gn_display_text g0 = []" "gn_source_requests g0 = []" "gn_calls g0 = []" "gn_shown g0 = []"
    "foldR (observe_observation line json)
        \<lparr>rd_generation = g0, rd_raw_ids = {}, rd_used_ids = set seed, rd_normalized_ids = {},
         rd_preparations = [], rd_reservations = [], rd_observed_usage = None,
         rd_observed_finish = None, rd_previous_plain_nonempty = False\<rparr> (values_of (jget (document_tree d) ''observations'')) = Ok r"
    "g = rd_generation r" "gn_usage g = rd_observed_usage r" "gn_finish g = rd_observed_finish r"
proof -
  obtain raw hash d usage g0 seed r where
    1: "text_field evidence ''generation_json'' line = Ok raw" "\<not> (sha256 raw \<noteq> hash)" "document_decode raw json = Ok d"
      "finite_numbers (document_tree d) = Ok ()"
    and g0: "generation_open evidence (document_tree d) hash (length (values_of (jget (document_tree d) ''observations''))) line usage = Ok g0"
    and 2: "seed_for_origin (gn_origin g0) = Ok seed" "g = rd_generation r" "gn_usage g = rd_observed_usage r" "gn_finish g = rd_observed_finish r"
      "foldR (observe_observation line json)
        \<lparr>rd_generation = g0, rd_raw_ids = {}, rd_used_ids = set seed, rd_normalized_ids = {},
         rd_preparations = [], rd_reservations = [], rd_observed_usage = None,
         rd_observed_finish = None, rd_previous_plain_nonempty = False\<rparr> (values_of (jget (document_tree d) ''observations'')) = Ok r"
    using assms unfolding generation_read_def Let_def by (simp split: if_splits) blast
  moreover have "gn_text g0 = []" "gn_thinking g0 = []" "gn_display_text g0 = []" "gn_source_requests g0 = []" "gn_calls g0 = []"
      "gn_shown g0 = []" "gn_hash g0 = hash"
    using g0 by (auto simp: generation_open_def)
  ultimately show thesis by (intro that) (auto simp: text_field_Ok_iff finite_numbers_exact)
qed

lemma generation_read_calls:
  assumes "generation_read sha256 c evidence line json operations seed_for_origin = Ok g"
  shows "\<exists>seed. seed_for_origin (gn_origin g) = Ok seed \<and> distinct (map cl_id (gn_calls g))
    \<and> list_all (\<lambda>call. cl_id call \<noteq> [] \<and> cl_id call \<notin> set seed \<and> arguments_object json (cl_arguments call)) (gn_calls g)
    \<and> shown_calls (gn_shown g) = [0..<length (gn_calls g)]"
proof -
  obtain raw d g0 seed r where seed: "seed_for_origin (gn_origin g0) = Ok seed" and empty: "gn_calls g0 = []" "gn_shown g0 = []"
    and fold: "foldR (observe_observation line json)
        \<lparr>rd_generation = g0, rd_raw_ids = {}, rd_used_ids = set seed, rd_normalized_ids = {},
         rd_preparations = [], rd_reservations = [], rd_observed_usage = None,
         rd_observed_finish = None, rd_previous_plain_nonempty = False\<rparr> (values_of (jget (document_tree d) ''observations'')) = Ok r"
    and g: "g = rd_generation r"
    using generation_read_Ok [OF assms] by metis
  have "reading_ok json (set seed) r"
    by (rule foldR_keeps [where P = "reading_ok json (set seed)", OF fold _ observe_observation_ok])
       (simp_all add: empty reading_ok_def ids_ok_def calls_ok_def)
  moreover have "gn_origin g = gn_origin g0" using observations_texts [OF fold] g by (simp add: header_def)
  ultimately show ?thesis using seed g by (auto simp: reading_ok_def calls_ok_def list_all_iff)
qed


text \<open>
  C23: A generation that is read says what its observations say: under the hash of the retained envelope, its text,
  its thoughts and its displayed text are the texts of the parts of all responses in order, each filtered by
  whether the part is a thought or a call, and its source requests are those of the observations in order.
\<close>

theorem generation_text_exact:
  assumes "generation_read sha256 c evidence line json operations seed_for_origin = Ok g"
  shows "\<exists>raw d observations parts. jget evidence ''generation_json'' = Some (JString raw) \<and> document_decode raw json = Ok d
    \<and> gn_hash g = sha256 raw \<and> all_finite (document_tree d)
    \<and> observations = values_of (jget (document_tree d) ''observations'') \<and> parts = concat (map observed_parts observations)
    \<and> gn_text g = spoken parts \<and> gn_thinking g = thought parts \<and> gn_display_text g = displayed parts
    \<and> map Some (gn_source_requests g) = map (\<lambda>v. str_at v ''source_request_id'') observations"
proof -
  obtain raw d g0 seed r where raw: "jget evidence ''generation_json'' = Some (JString raw)" "document_decode raw json = Ok d"
      "sha256 raw = gn_hash g0" "all_finite (document_tree d)"
    and empty: "gn_text g0 = []" "gn_thinking g0 = []" "gn_display_text g0 = []" "gn_source_requests g0 = []"
    and fold: "foldR (observe_observation line json)
        \<lparr>rd_generation = g0, rd_raw_ids = {}, rd_used_ids = set seed, rd_normalized_ids = {},
         rd_preparations = [], rd_reservations = [], rd_observed_usage = None,
         rd_observed_finish = None, rd_previous_plain_nonempty = False\<rparr> (values_of (jget (document_tree d) ''observations'')) = Ok r"
    and g: "g = rd_generation r"
    using generation_read_Ok [OF assms] by metis
  show ?thesis
    using raw empty g observations_texts [OF fold] by (auto simp: header_def)
qed

text \<open>An envelope without observations, under a contract that accepts every evidence.\<close>

definition sample_generation_contract :: compilation where
  "sample_generation_contract = \<lparr>cp_schema_id = ''s'', cp_table = [\<lparr>sn_path = [], sn_rules = []\<rparr>],
     cp_entries = [(''ModelGenerationEvidence'', 0), (''GenerationEnvelope'', 0)], cp_event_kinds = [], cp_system_kinds = [],
     cp_partial_kinds = [], cp_terminal_outcomes = [], cp_success_subtype = [], cp_error_subtypes = []\<rparr>"

definition sample_envelope_text :: string where
  "sample_envelope_text = ''{\"finish_reason\":0,\"model\":\"m\",\"origin\":{\"attempt_id\":\"a\",\"kind\":\"model\",\"kv_scope\":\"s\"},\"output_scope\":{\"kind\":\"internal\"},\"usage\":null}''"

definition sample_envelope_limits :: limits where
  "sample_envelope_limits = \<lparr>lim_bytes = 140, lim_nodes = 20, lim_depth = 4\<rparr>"

definition sample_envelope :: jvalue where
  "sample_envelope = JObject
     [(''finish_reason'', JNumber \<lparr>jn_token = ''0'', jn_value = DZero\<rparr>), (''model'', JString ''m''),
      (''origin'', JObject [(''attempt_id'', JString ''a''), (''kind'', JString ''model''), (''kv_scope'', JString ''s'')]),
      (''output_scope'', JObject [(''kind'', JString ''internal'')]), (''usage'', JNull)]"

definition sample_evidence_value :: "json_number \<Rightarrow> jvalue" where
  "sample_evidence_value n = JObject
     [(''generation_bytes'', JNumber n), (''generation_id'', JString ''g''), (''generation_json'', JString sample_envelope_text),
      (''generation_sha256'', JString ''h''), (''journal_id'', JString ''j'')]"

lemma sample_envelope_decodes: "map_ok document_tree (document_decode sample_envelope_text sample_envelope_limits) = Ok sample_envelope"
  by code_simp

lemma sample_generation_validates:
  "validate sample_generation_contract v ''ModelGenerationEvidence'' 10 1 = Ok ()"
  "validate sample_generation_contract v ''GenerationEnvelope'' 10 1 = Ok ()"
  by code_simp+

lemma sample_generation_reads:
  "\<exists>n g. generation_read (\<lambda>_. ''h'') sample_generation_contract (sample_evidence_value n) 1 sample_envelope_limits 10 (\<lambda>_. Ok [''used'']) = Ok g"
proof -
  obtain n where n: "json_number_parse (nat_to_string (length sample_envelope_text)) = Ok n"
    using parse_complete [OF nat_to_string_grammar] by blast
  have some: "sample_envelope_text \<noteq> []" and size: "length sample_envelope_text \<le> 200"
    by (simp_all add: sample_envelope_text_def)
  then have bytes: "unsigned (JNumber n) ''generation bytes'' SAFE_INTEGER = Ok (word_of_nat (length sample_envelope_text))"
    using derived_count_unsigned [OF n, of SAFE_INTEGER] by (simp add: unsigned_def SAFE_INTEGER_def)
  have unat: "unat (word_of_nat (length sample_envelope_text) :: u64) = length sample_envelope_text"
    using size by (simp add: unat_of_nat)
  obtain d where d: "document_decode sample_envelope_text sample_envelope_limits = Ok d" "document_tree d = sample_envelope"
    using sample_envelope_decodes by auto
  have finite: "finite_numbers sample_envelope = Ok ()"
    unfolding finite_numbers_exact by (simp add: sample_envelope_def f64_finite_def json_number_val_def)
  have "\<exists>g. generation_read (\<lambda>_. ''h'') sample_generation_contract (sample_evidence_value n) 1 sample_envelope_limits 10 (\<lambda>_. Ok [''used'']) = Ok g"
    unfolding generation_read_def sample_generation_validates
    using bytes unat d(1) finite some
    by (simp add: sample_evidence_value_def text_field_def field_def d(2) sample_generation_validates generation_open_def
        sample_envelope_def origin_read_def output_scope_read_def values_of_def)
  then show ?thesis by blast
qed


theorem generation_text_exact_witness:
  "\<exists>n g. generation_read (\<lambda>_. ''h'') sample_generation_contract (sample_evidence_value n) 1 sample_envelope_limits 10
      (\<lambda>_. Ok [''used'']) = Ok g \<and> gn_hash g = ''h''"
  using sample_generation_reads generation_text_exact by blast

section \<open>Messages of a turn\<close>

text \<open>Maximal runs of one kind: what the grouping of the blocks is meant to be.\<close>

definition runs_ok :: "('k \<times> 'b) list list \<Rightarrow> bool" where
  "runs_ok groups \<longleftrightarrow> list_all (\<lambda>g. g \<noteq> [] \<and> list_all (\<lambda>b. fst b = fst (hd g)) g) groups
     \<and> successively (\<lambda>g h. fst (hd g) \<noteq> fst (hd h)) groups"

lemma runs_ok_Nil [simp]: "runs_ok []"
  by (simp add: runs_ok_def)

lemma runs_ok_snoc_new:
  assumes "runs_ok groups" and "groups \<noteq> [] \<Longrightarrow> fst (hd (last groups)) \<noteq> fst b"
  shows "runs_ok (groups @ [[b]])"
  using assms unfolding runs_ok_def
  by (auto simp: successively_append_iff)

lemma runs_ok_extend:
  assumes "runs_ok (groups @ [g])" and "fst (hd g) = fst b"
  shows "runs_ok (groups @ [g @ [b]])"
  using assms unfolding runs_ok_def by (auto simp: successively_append_iff hd_append)

lemma group_block_step:
  assumes "runs_ok groups"
  shows "\<exists>groups'. group_block groups b = Ok groups' \<and> runs_ok groups' \<and> concat groups' = concat groups @ [b]"
proof (cases groups rule: rev_cases)
  case Nil
  then show ?thesis using runs_ok_snoc_new [of "[]" b] by (simp add: group_block_def)
next
  case (snoc gs g)
  with assms have "g \<noteq> []" by (simp add: runs_ok_def)
  then obtain f rest where "g = f # rest" by (cases g) auto
  with snoc assms show ?thesis
    using runs_ok_extend [of gs g b] runs_ok_snoc_new [of groups b] by (simp add: group_block_def)
qed

lemma group_blocks:
  "runs_ok groups \<Longrightarrow> \<exists>groups'. foldR group_block groups blocks = Ok groups' \<and> runs_ok groups' \<and> concat groups' = concat groups @ blocks"
proof (induction blocks arbitrary: groups)
  case (Cons b blocks)
  obtain gs where gs: "group_block groups b = Ok gs" "runs_ok gs" "concat gs = concat groups @ [b]"
    using group_block_step [OF Cons.prems] by blast
  show ?case using Cons.IH [OF gs(2)] gs by auto
qed simp

lemma shown_block_no_panic:
  "foldR (shown_block quote calls refused) blocks shown = Err ContractPanic \<Longrightarrow> \<exists>i \<in> set (shown_calls shown). length calls \<le> i"
proof (induction shown arbitrary: blocks)
  case (Cons s shown)
  show ?case
  proof (cases s)
    case (ShownText t)
    with Cons show ?thesis by (auto simp: bindR_Err_iff)
  next
    case (ShownCall i)
    with Cons show ?thesis
      by (cases "i < length calls") (auto simp: bindR_Err_iff split: option.splits bool.splits)
  next
    case Unshowable
    with Cons show ?thesis by simp
  qed
qed simp



end
