(* ===== verification/Partial_Stream.thy ===== *)
theory Partial_Stream
  imports Generation "HOL-Library.Sublist"
begin

text \<open>
  \<^verbatim>\<open>protocol/engine/src/partial_stream.rs\<close>: the partial events of one display scope, checked against the
  generation that produced them. The SHA-256 digest is the argument \<open>digest\<close>, and the state of an incremental
  digest is the bytes it absorbed. An error of an operation ends the admission of the record, whose
  state is a copy that is then dropped, so the model returns no state with an error.
\<close>

section \<open>State\<close>

datatype output_origin = Runtime | Model origin

record observed_text =
  ot_bytes :: nat
  ot_absorbed :: string

definition observed_text_default :: observed_text where
  "observed_text_default = \<lparr>ot_bytes = 0, ot_absorbed = []\<rparr>"

definition append_text :: "observed_text \<Rightarrow> string \<Rightarrow> string option \<Rightarrow> observed_text contract_result" where
  "append_text t delta authority =
     bindR (ok_or (checked_add_usize (ot_bytes t) (length delta)) (generation_refusal ''partial text length overflows'')) (\<lambda>end_at.
       if (case authority of Some expected \<Rightarrow> get_range expected (ot_bytes t) end_at \<noteq> Some delta | None \<Rightarrow> False)
       then Err (generation_refusal ''partial text changes or repeats observed generation bytes'')
       else Ok \<lparr>ot_bytes = end_at, ot_absorbed = ot_absorbed t @ delta\<rparr>)"

definition bind_text :: "(string \<Rightarrow> 'd) \<Rightarrow> observed_text \<Rightarrow> string \<Rightarrow> unit contract_result" where
  "bind_text digest t authority =
     bindR (ok_or (get_range authority 0 (ot_bytes t)) (generation_refusal ''partial text exceeds observed generation bytes'')) (\<lambda>prefix.
       if digest prefix \<noteq> digest (ot_absorbed t)
       then Err (generation_refusal ''partial text changes or repeats observed generation bytes'')
       else Ok ())"

record partial_call =
  pc_expected :: string
  pc_observed :: nat

record block =
  bk_kind :: string
  bk_open :: bool
  bk_call :: "partial_call option"

record partial_stream_state =
  pt_origin :: "output_origin option"
  pt_authority :: "generation option"
  pt_accepted :: "bool option"
  pt_group_open :: bool
  pt_runtime_group_seen :: bool
  pt_runtime_message_seen :: bool
  pt_text :: observed_text
  pt_thinking :: observed_text
  pt_called :: "string set"
  pt_incomplete :: "incomplete_call list"
  pt_blocks :: "(u64, block) btree"

definition partial_stream_default :: partial_stream_state where
  "partial_stream_default = \<lparr>pt_origin = None, pt_authority = None, pt_accepted = None, pt_group_open = False,
     pt_runtime_group_seen = False, pt_runtime_message_seen = False, pt_text = observed_text_default,
     pt_thinking = observed_text_default, pt_called = {}, pt_incomplete = [], pt_blocks = []\<rparr>"

definition is_model :: "partial_stream_state \<Rightarrow> bool" where
  "is_model s = (case pt_origin s of Some (Model _) \<Rightarrow> True | _ \<Rightarrow> False)"

definition any_open :: "partial_stream_state \<Rightarrow> bool" where
  "any_open s = list_ex (\<lambda>(_, b). bk_open b) (pt_blocks s)"

section \<open>Operations\<close>

definition finish :: "partial_stream_state \<Rightarrow> unit contract_result" where
  "finish s =
     (if pt_group_open s \<or> any_open s then Err (generation_refusal ''scope has unfinished partial groups'')
      else if is_model s \<and> (pt_authority s = None \<or> pt_accepted s = None)
      then Err (generation_refusal ''model partials have no completed generation authority'')
      else Ok ())"

definition set_origin :: "partial_stream_state \<Rightarrow> output_origin \<Rightarrow> partial_stream_state contract_result" where
  "set_origin s origin =
     (if pt_origin s = Some origin then Ok s
      else bindR (if pt_origin s \<noteq> None then finish s else Ok ()) (\<lambda>_.
        Ok (partial_stream_default\<lparr>pt_origin := Some origin\<rparr>)))"

definition observe_generation :: "(string \<Rightarrow> 'd) \<Rightarrow> partial_stream_state \<Rightarrow> generation \<Rightarrow> partial_stream_state contract_result" where
  "observe_generation digest s g =
     bindR (set_origin s (Model (gn_origin g))) (\<lambda>s.
       if pt_authority s \<noteq> None then Err (generation_refusal ''repeated partial generation authority'')
       else bindR (bind_text digest (pt_text s) (gn_text g)) (\<lambda>_.
            bindR (bind_text digest (pt_thinking s) (gn_thinking g)) (\<lambda>_.
              if length (gn_incomplete g) < length (pt_incomplete s)
                \<or> list_ex (\<lambda>(actual, expected). actual \<noteq> expected) (zip (pt_incomplete s) (gn_incomplete g))
              then Err (generation_refusal ''incomplete call contradicts the observed generation'')
              else Ok (s\<lparr>pt_authority := Some g\<rparr>))))"

definition observe_completion :: "partial_stream_state \<Rightarrow> origin \<Rightarrow> bool \<Rightarrow> partial_stream_state contract_result" where
  "observe_completion s origin accepted =
     (if pt_authority s = None \<or> pt_origin s \<noteq> Some (Model origin) \<or> pt_accepted s \<noteq> None
      then Err (generation_refusal ''completion has no unique matching partial authority'')
      else Ok (s\<lparr>pt_accepted := Some accepted\<rparr>))"

definition message_start :: "partial_stream_state \<Rightarrow> bool \<Rightarrow> partial_stream_state contract_result" where
  "message_start s root_scope =
     (if \<not> root_scope then Err (generation_refusal ''a subagent scope has no message group'')
      else if pt_group_open s \<or> pt_blocks s \<noteq> [] then Err (generation_refusal ''message group is already open'')
      else let s = s\<lparr>pt_group_open := True\<rparr> in
        Ok (if is_model s then s else s\<lparr>pt_runtime_group_seen := True, pt_runtime_message_seen := False\<rparr>))"

definition start_tool :: "partial_stream_state \<Rightarrow> jvalue \<Rightarrow> nat \<Rightarrow> (partial_stream_state \<times> partial_call option) contract_result" where
  "start_tool s content line =
     (if \<not> is_model s \<or> pt_accepted s \<noteq> Some True
      then Err (generation_refusal ''tool claim precedes accepted generation completion'')
      else
        bindR (text_field content ''id'' line) (\<lambda>ident.
        bindR (text_field content ''name'' line) (\<lambda>name.
        bindR (ok_or (pt_authority s) ContractPanic) (\<lambda>authority.
        bindR (ok_or (find (\<lambda>call. cl_id call = ident) (gn_calls authority))
                 (generation_refusal ''tool claim has no normalized generation call'')) (\<lambda>call.
          if ident \<in> pt_called s \<or> cl_name call \<noteq> Some name
          then Err (generation_refusal ''tool claim has no unique normalized generation call'')
          else bindR (field content ''input'' line) (\<lambda>input.
            if members input \<noteq> Some []
            then Err (generation_refusal ''streamed tool must start with an empty argument placeholder'')
            else Ok (s\<lparr>pt_called := Set.insert ident (pt_called s)\<rparr>,
                     Some \<lparr>pc_expected = cl_arguments call, pc_observed = 0\<rparr>)))))))"

definition start_incomplete :: "partial_stream_state \<Rightarrow> jvalue \<Rightarrow> nat \<Rightarrow> partial_stream_state contract_result" where
  "start_incomplete s content line =
     (if \<not> is_model s then Err (generation_refusal ''runtime presentation cannot claim incomplete model calls'')
      else bindR (incomplete_read content line) (\<lambda>call.
        if (case pt_authority s of
              Some authority \<Rightarrow> get_at (gn_incomplete authority) (length (pt_incomplete s)) \<noteq> Some call
            | None \<Rightarrow> False)
        then Err (generation_refusal ''incomplete call contradicts observed generation'')
        else Ok (s\<lparr>pt_incomplete := pt_incomplete s @ [call]\<rparr>)))"

definition start_content :: "partial_stream_state \<Rightarrow> jvalue \<Rightarrow> string \<Rightarrow> nat
    \<Rightarrow> (partial_stream_state \<times> partial_call option) contract_result" where
  "start_content s content kind line =
     (if kind = ''text'' then
        bindR (field content ''text'' line) (\<lambda>t.
        bindR (append_text (pt_text s) (case as_str t of Some x \<Rightarrow> x | None \<Rightarrow> []) (map_option gn_text (pt_authority s))) (\<lambda>t.
          Ok (s\<lparr>pt_text := t\<rparr>, None)))
      else if kind = ''thinking'' then
        if \<not> is_model s then Err (generation_refusal ''runtime presentation cannot claim model thought'')
        else bindR (field content ''thinking'' line) (\<lambda>t.
             bindR (append_text (pt_thinking s) (case as_str t of Some x \<Rightarrow> x | None \<Rightarrow> []) (map_option gn_thinking (pt_authority s))) (\<lambda>t.
               Ok (s\<lparr>pt_thinking := t\<rparr>, None)))
      else if kind = ''tool_use'' then start_tool s content line
      else if kind = ''incomplete_tool_use'' then
        bindR (start_incomplete s content line) (\<lambda>s. Ok (s, None))
      else Err (generation_refusal ''unsupported partial content block''))"

definition restart_blocks :: "u64 \<Rightarrow> partial_stream_state \<Rightarrow> partial_stream_state" where
  "restart_blocks index s = (if index = 0 \<and> \<not> any_open s then s\<lparr>pt_blocks := []\<rparr> else s)"

definition block_start :: "partial_stream_state \<Rightarrow> jvalue \<Rightarrow> bool \<Rightarrow> nat \<Rightarrow> partial_stream_state contract_result" where
  "block_start s event root_scope line =
     (if root_scope \<and> \<not> pt_group_open s then Err (generation_refusal ''content block precedes its message group'')
      else
        bindR (field event ''index'' line) (\<lambda>index.
        bindR (unsigned index ''partial index'' SAFE_INTEGER) (\<lambda>index.
        let s = restart_blocks index s in
          if unat index \<noteq> length (pt_blocks s)
          then Err (generation_refusal ''content block index is not the next message index'')
          else bindR (field event ''content_block'' line) (\<lambda>content.
               bindR (text_field content ''type'' line) (\<lambda>kind.
               bindR (start_content s content kind line) (\<lambda>(s, call).
                 Ok (s\<lparr>pt_blocks := btree_insert index \<lparr>bk_kind = kind, bk_open = True, bk_call = call\<rparr> (pt_blocks s)\<rparr>)))))))"

definition argument_delta :: "partial_call \<Rightarrow> string \<Rightarrow> partial_call contract_result" where
  "argument_delta call chunk =
     bindR (ok_or (checked_add_usize (pc_observed call) (length chunk)) (generation_refusal ''partial argument length overflows'')) (\<lambda>end_at.
       if get_range (pc_expected call) (pc_observed call) end_at \<noteq> Some chunk
       then Err (generation_refusal ''tool argument bytes contradict the generation'')
       else Ok (call\<lparr>pc_observed := end_at\<rparr>))"

definition block_delta :: "partial_stream_state \<Rightarrow> jvalue \<Rightarrow> u64 \<Rightarrow> block \<Rightarrow> nat \<Rightarrow> partial_stream_state contract_result" where
  "block_delta s event index block line =
     bindR (field event ''delta'' line) (\<lambda>delta.
     bindR (text_field delta ''type'' line) (\<lambda>kind.
       if bk_kind block = ''text'' \<and> kind = ''text_delta'' then
         bindR (field delta ''text'' line) (\<lambda>t.
         bindR (ok_or (as_str t) ContractPanic) (\<lambda>t.
         bindR (append_text (pt_text s) t (map_option gn_text (pt_authority s))) (\<lambda>t.
           Ok (s\<lparr>pt_text := t\<rparr>))))
       else if bk_kind block = ''thinking'' \<and> kind = ''thinking_delta'' then
         bindR (field delta ''thinking'' line) (\<lambda>t.
         bindR (ok_or (as_str t) ContractPanic) (\<lambda>t.
         bindR (append_text (pt_thinking s) t (map_option gn_thinking (pt_authority s))) (\<lambda>t.
           Ok (s\<lparr>pt_thinking := t\<rparr>))))
       else if bk_kind block = ''tool_use'' \<and> kind = ''input_json_delta'' then
         bindR (ok_or (bk_call block) ContractPanic) (\<lambda>call.
         bindR (field delta ''partial_json'' line) (\<lambda>chunk.
         bindR (ok_or (as_str chunk) ContractPanic) (\<lambda>chunk.
         bindR (argument_delta call chunk) (\<lambda>call.
           Ok (s\<lparr>pt_blocks := btree_insert index (block\<lparr>bk_call := Some call\<rparr>) (pt_blocks s)\<rparr>)))))
       else Err (generation_refusal ''delta type contradicts its content block'')))"

definition block_stop :: "partial_stream_state \<Rightarrow> u64 \<Rightarrow> block \<Rightarrow> partial_stream_state contract_result" where
  "block_stop s index block =
     (if (case bk_call block of Some call \<Rightarrow> pc_observed call \<noteq> length (pc_expected call) | None \<Rightarrow> False)
      then Err (generation_refusal ''tool arguments omit or change generation bytes'')
      else Ok (s\<lparr>pt_blocks := btree_insert index (block\<lparr>bk_open := False\<rparr>) (pt_blocks s)\<rparr>))"

definition open_block :: "partial_stream_state \<Rightarrow> jvalue \<Rightarrow> nat \<Rightarrow> (u64 \<times> block) contract_result" where
  "open_block s event line =
     bindR (field event ''index'' line) (\<lambda>index.
     bindR (unsigned index ''partial index'' SAFE_INTEGER) (\<lambda>index.
       case btree_get (pt_blocks s) index of
         Some block \<Rightarrow> if bk_open block then Ok (index, block) else Err (generation_refusal ''content block is absent or closed'')
       | None \<Rightarrow> Err (generation_refusal ''content block is absent or closed'')))"

definition message_stop :: "partial_stream_state \<Rightarrow> bool \<Rightarrow> partial_stream_state contract_result" where
  "message_stop s root_scope =
     (if \<not> root_scope \<or> \<not> pt_group_open s \<or> any_open s
      then Err (generation_refusal ''message group stops before all its blocks close'')
      else if \<not> is_model s \<and> \<not> pt_runtime_message_seen s
      then Err (generation_refusal ''runtime partial group has no full assistant message'')
      else let r = s\<lparr>pt_group_open := False, pt_blocks := []\<rparr> in
        Ok (if is_model s then r else r\<lparr>pt_text := observed_text_default, pt_runtime_message_seen := False\<rparr>))"

definition observe :: "partial_stream_state \<Rightarrow> partial_record \<Rightarrow> bool \<Rightarrow> nat \<Rightarrow> partial_stream_state contract_result" where
  "observe s partial root_scope line =
     (if pr_kind partial \<in> {PkGoalState, PkActiveGoal, PkToolProgress} then Ok s
      else if pt_origin s = None then Err (generation_refusal ''message group has no producing origin'')
      else case pr_kind partial of
        PkMessageStart \<Rightarrow> message_start s root_scope
      | PkContentBlockStart \<Rightarrow> block_start s (pr_value partial) root_scope line
      | PkContentBlockDelta \<Rightarrow>
          bindR (open_block s (pr_value partial) line) (\<lambda>(index, block). block_delta s (pr_value partial) index block line)
      | PkContentBlockStop \<Rightarrow>
          bindR (open_block s (pr_value partial) line) (\<lambda>(index, block). block_stop s index block)
      | PkMessageStop \<Rightarrow> message_stop s root_scope
      | _ \<Rightarrow> Err ContractPanic)"

definition complete_message :: "(string \<Rightarrow> 'd) \<Rightarrow> partial_stream_state \<Rightarrow> string \<Rightarrow> partial_stream_state contract_result" where
  "complete_message digest s message =
     (if pt_origin s \<noteq> Some Runtime then Err (generation_refusal ''model output requires generation and completion records'')
      else if any_open s then Err (generation_refusal ''runtime presentation has an unclosed partial block'')
      else if pt_runtime_group_seen s then
        if \<not> pt_group_open s \<or> pt_runtime_message_seen s \<or> ot_bytes (pt_text s) \<noteq> length message
        then Err (generation_refusal ''runtime partial text has no matching full assistant message'')
        else bindR (bind_text digest (pt_text s) message) (\<lambda>_. Ok (s\<lparr>pt_runtime_message_seen := True\<rparr>))
      else Ok s)"

section \<open>Shown text follows its generation\<close>

text \<open>
  The bytes shown so far agree with an authority: up to some length by their digest, which was compared when
  the authority arrived, and from there on byte by byte.
\<close>

definition text_ok :: "observed_text \<Rightarrow> bool" where
  "text_ok t \<longleftrightarrow> ot_bytes t = length (ot_absorbed t)"

definition follows :: "(string \<Rightarrow> 'd) \<Rightarrow> string \<Rightarrow> string \<Rightarrow> bool" where
  "follows digest shown authority \<longleftrightarrow> length shown \<le> length authority
     \<and> (\<exists>n \<le> length shown. digest (take n authority) = digest (take n shown) \<and> drop n shown = slice authority n (length shown))"

lemma follows_prefix:
  assumes "follows digest shown authority"
    and "\<And>n. digest (take n authority) = digest (take n shown) \<Longrightarrow> take n authority = take n shown"
  shows "prefix shown authority"
proof -
  obtain n where n: "n \<le> length shown" "take n authority = take n shown" "drop n shown = slice authority n (length shown)"
    using assms by (auto simp: follows_def)
  have "shown = slice authority 0 n @ slice authority n (length shown)"
    using n by (metis append_take_drop_id slice_0)
  also have "\<dots> = slice authority 0 (length shown)" using n(1) by (intro slice_append_adjacent) auto
  finally have "shown = take (length shown) authority" by simp
  then show ?thesis by (metis take_is_prefix)
qed

lemma append_text_ok:
  assumes "append_text t delta authority = Ok t'" and "text_ok t"
  shows "text_ok t' \<and> ot_absorbed t' = ot_absorbed t @ delta"
  using assms by (auto simp: append_text_def text_ok_def split: if_splits)

lemma append_text_follows:
  assumes "append_text t delta (Some authority) = Ok t'" and ok: "text_ok t" and "follows digest (ot_absorbed t) authority"
  shows "follows digest (ot_absorbed t') authority"
proof -
  let ?m = "ot_bytes t" and ?e = "ot_bytes t + length delta"
  have t': "ot_absorbed t' = ot_absorbed t @ delta" using append_text_ok assms by blast
  have range: "get_range authority ?m ?e = Some delta" using assms(1) by (auto simp: append_text_def split: if_splits)
  obtain n where n: "n \<le> ?m" "digest (take n authority) = digest (take n (ot_absorbed t))"
      "drop n (ot_absorbed t) = slice authority n ?m"
    using assms(3) ok by (auto simp: follows_def text_ok_def)
  have "drop n (ot_absorbed t @ delta) = slice authority n ?m @ slice authority ?m ?e"
    using n(1,3) ok range by (simp add: text_ok_def get_range_Some_iff)
  also have "\<dots> = slice authority n ?e" using n(1) by (simp add: slice_append_adjacent)
  finally show ?thesis
    using n ok range unfolding follows_def t' by (auto simp: text_ok_def get_range_Some_iff intro!: exI [of _ n])
qed

lemma bind_text_follows:
  assumes "bind_text digest t authority = Ok ()" and "text_ok t"
  shows "follows digest (ot_absorbed t) authority"
proof -
  have "ot_bytes t \<le> length authority" "digest (take (ot_bytes t) authority) = digest (ot_absorbed t)"
    using assms(1) by (auto simp: bind_text_def get_range_Some_iff split: if_splits)
  then show ?thesis
    using assms(2) by (auto simp: follows_def text_ok_def slice_def intro!: exI [of _ "length (ot_absorbed t)"])
qed

section \<open>Blocks\<close>

lemma btree_insert_end: "(\<And>k'. k' \<in> fst ` set m \<Longrightarrow> k' < k) \<Longrightarrow> btree_insert k v m = m @ [(k, v)]"
proof (induction m)
  case (Cons p m)
  from Cons.prems [of "fst p"] have "fst p < k" by simp
  then have "\<not> k < fst p" "k \<noteq> fst p" by auto
  then show ?case using Cons by (cases p) simp
qed simp

lemma btree_insert_keys: "btree_ok m \<Longrightarrow> k \<in> fst ` set m \<Longrightarrow> map fst (btree_insert k v m) = map fst m"
proof (induction m)
  case (Cons p m)
  show ?case
  proof (cases "fst p = k")
    case False
    with Cons.prems have "k \<in> fst ` set m" by auto
    moreover from this Cons.prems have "fst p < k" by (auto simp: btree_ok_def)
    ultimately show ?thesis using Cons by (cases p) (auto simp: btree_ok_def)
  qed (cases p; simp)
qed simp

definition block_ok :: "block \<Rightarrow> bool" where
  "block_ok b \<longleftrightarrow> (bk_call b = None \<longleftrightarrow> bk_kind b \<noteq> ''tool_use'')
     \<and> (\<forall>c. bk_call b = Some c \<longrightarrow> pc_observed c \<le> length (pc_expected c)
          \<and> (\<not> bk_open b \<longrightarrow> pc_observed c = length (pc_expected c)))"

definition indices :: "nat \<Rightarrow> u64 list" where
  "indices n = map word_of_nat [0..<n]"

text \<open>The blocks of the current message are numbered from zero without a gap.\<close>

definition blocks_ok :: "(u64, block) btree \<Rightarrow> bool" where
  "blocks_ok m \<longleftrightarrow> map fst m = indices (length m) \<and> length m \<le> unat SAFE_INTEGER + 1
     \<and> (\<forall>i b. btree_get m i = Some b \<longrightarrow> block_ok b)"

lemma blocks_ok_Nil [simp]: "blocks_ok []"
  by (simp add: blocks_ok_def indices_def)

lemma unat_index: "i \<le> unat SAFE_INTEGER + 1 \<Longrightarrow> unat (word_of_nat i :: u64) = i"
  by (simp add: SAFE_INTEGER_def unat_of_nat)

lemma indices_sorted: "n \<le> unat SAFE_INTEGER + 1 \<Longrightarrow> sorted_wrt (<) (indices n)"
  unfolding indices_def sorted_wrt_map
  by (rule sorted_wrt_mono_rel [OF _ sorted_wrt_upt]) (auto simp: word_less_nat_alt unat_index)

lemma blocks_ok_btree: "blocks_ok m \<Longrightarrow> btree_ok m"
  by (simp add: blocks_ok_def btree_ok_def indices_sorted)

lemma blocks_ok_push:
  assumes "blocks_ok m" and i: "unat i = length m" "i \<le> SAFE_INTEGER" and "block_ok b"
  shows "blocks_ok (btree_insert i b m)"
proof -
  have len: "length m \<le> unat SAFE_INTEGER" using i by (simp add: word_le_nat_alt)
  have "k < i" if "k \<in> fst ` set m" for k
  proof -
    have "k \<in> set (indices (length m))" using that assms(1) by (metis blocks_ok_def list.set_map)
    then show ?thesis using len i by (auto simp: indices_def word_less_nat_alt unat_index)
  qed
  then have ins: "btree_insert i b m = m @ [(i, b)]" by (rule btree_insert_end)
  moreover have "i = word_of_nat (length m)" using i(1) len by (simp add: word_unat_eq_iff unat_index)
  ultimately have "map fst (btree_insert i b m) = indices (length (btree_insert i b m))"
    using assms(1) by (simp add: blocks_ok_def indices_def)
  moreover have "length (btree_insert i b m) = Suc (length m)" using ins by simp
  ultimately show ?thesis
    using assms len unfolding blocks_ok_def by (auto split: if_splits)
qed

lemma blocks_ok_update:
  assumes "blocks_ok m" and "btree_get m i = Some b" and "block_ok b'"
  shows "blocks_ok (btree_insert i b' m)"
proof -
  have "i \<in> fst ` set m" using assms(2) by (force simp: btree_get_map_of dest: map_of_SomeD)
  then have keys: "map fst (btree_insert i b' m) = map fst m"
    using btree_insert_keys [OF blocks_ok_btree [OF assms(1)]] by blast
  then have "length (btree_insert i b' m) = length m" by (metis length_map)
  then show ?thesis using assms keys unfolding blocks_ok_def by (auto split: if_splits)
qed

section \<open>The invariant of a scope\<close>

text \<open>What the calls of the blocks and the claims so far owe to the generation.\<close>

definition claims_ok :: "generation \<Rightarrow> partial_stream_state \<Rightarrow> bool" where
  "claims_ok g s \<longleftrightarrow> prefix (pt_incomplete s) (gn_incomplete g) \<and> pt_called s \<subseteq> cl_id ` set (gn_calls g)
     \<and> (\<forall>i b c. btree_get (pt_blocks s) i = Some b \<longrightarrow> bk_call b = Some c \<longrightarrow>
          (\<exists>call \<in> set (gn_calls g). cl_id call \<in> pt_called s \<and> pc_expected c = cl_arguments call))"

definition authority_ok :: "(string \<Rightarrow> 'd) \<Rightarrow> partial_stream_state \<Rightarrow> bool" where
  "authority_ok digest s = (case pt_authority s of
       None \<Rightarrow> pt_accepted s = None \<and> pt_called s = {} \<and> (\<forall>i b. btree_get (pt_blocks s) i = Some b \<longrightarrow> bk_call b = None)
     | Some g \<Rightarrow> pt_origin s = Some (Model (gn_origin g)) \<and> claims_ok g s
         \<and> follows digest (ot_absorbed (pt_text s)) (gn_text g) \<and> follows digest (ot_absorbed (pt_thinking s)) (gn_thinking g))"

definition stream_ok :: "(string \<Rightarrow> 'd) \<Rightarrow> partial_stream_state \<Rightarrow> bool" where
  "stream_ok digest s \<longleftrightarrow> text_ok (pt_text s) \<and> text_ok (pt_thinking s) \<and> blocks_ok (pt_blocks s) \<and> authority_ok digest s
     \<and> (pt_called s \<noteq> {} \<longrightarrow> pt_accepted s = Some True)
     \<and> (\<not> is_model s \<longrightarrow> ot_absorbed (pt_thinking s) = [] \<and> pt_incomplete s = []
          \<and> (\<forall>i b. btree_get (pt_blocks s) i = Some b \<longrightarrow> bk_kind b \<noteq> ''thinking''))"

lemma stream_ok_default: "stream_ok digest (partial_stream_default\<lparr>pt_origin := origin\<rparr>)"
  by (simp add: stream_ok_def partial_stream_default_def observed_text_default_def text_ok_def authority_ok_def)

lemma set_origin_ok: "set_origin s origin = Ok s' \<Longrightarrow> stream_ok digest s \<Longrightarrow> stream_ok digest s' \<and> pt_origin s' = Some origin"
  using stream_ok_default [of digest "Some origin"]
  by (auto simp: set_origin_def partial_stream_default_def split: if_splits)

lemma zip_prefix: "length xs \<le> length ys \<Longrightarrow> list_all (\<lambda>(x, y). x = y) (zip xs ys) \<Longrightarrow> prefix xs ys"
proof (induction xs arbitrary: ys)
  case (Cons x xs)
  then show ?case by (cases ys) auto
qed simp

lemma observe_generation_ok:
  assumes "observe_generation digest s g = Ok s'" and ok: "stream_ok digest s"
  shows "stream_ok digest s'"
proof -
  obtain r where r: "set_origin s (Model (gn_origin g)) = Ok r" "pt_authority r = None"
      "bind_text digest (pt_text r) (gn_text g) = Ok ()" "bind_text digest (pt_thinking r) (gn_thinking g) = Ok ()"
      "length (pt_incomplete r) \<le> length (gn_incomplete g)" "list_all (\<lambda>(x, y). x = y) (zip (pt_incomplete r) (gn_incomplete g))"
      and s': "s' = r\<lparr>pt_authority := Some g\<rparr>"
    using assms(1) by (auto simp: observe_generation_def list_ex_iff list_all_iff not_less split: if_splits)
  have rok: "stream_ok digest r" "pt_origin r = Some (Model (gn_origin g))" using set_origin_ok [OF r(1) ok] by auto
  then have "claims_ok g s'"
    using zip_prefix [OF r(5,6)] r(2) unfolding s' claims_ok_def stream_ok_def authority_ok_def by auto
  moreover have "follows digest (ot_absorbed (pt_text r)) (gn_text g)" "follows digest (ot_absorbed (pt_thinking r)) (gn_thinking g)"
    using bind_text_follows r(3,4) rok(1) by (auto simp: stream_ok_def)
  ultimately show ?thesis
    using rok r(2) unfolding s' stream_ok_def authority_ok_def is_model_def by simp
qed

lemma observe_completion_ok: "observe_completion s origin accepted = Ok s' \<Longrightarrow> stream_ok digest s \<Longrightarrow> stream_ok digest s'"
  by (auto simp: observe_completion_def stream_ok_def authority_ok_def claims_ok_def is_model_def split: if_splits option.splits)

lemma complete_message_ok: "complete_message digest s message = Ok s' \<Longrightarrow> stream_ok digest s \<Longrightarrow> stream_ok digest s'"
  by (auto simp: complete_message_def stream_ok_def authority_ok_def claims_ok_def is_model_def split: if_splits option.splits)

lemma message_start_ok: "message_start s root_scope = Ok s' \<Longrightarrow> stream_ok digest s \<Longrightarrow> stream_ok digest s'"
  by (auto simp: message_start_def Let_def stream_ok_def authority_ok_def claims_ok_def is_model_def split: if_splits option.splits)

lemma clear_blocks_ok: "stream_ok digest s \<Longrightarrow> stream_ok digest (s\<lparr>pt_blocks := []\<rparr>)"
  by (auto simp: stream_ok_def authority_ok_def claims_ok_def is_model_def split: option.splits)

lemma message_stop_ok:
  assumes "message_stop s root_scope = Ok s'" and ok: "stream_ok digest s"
  shows "stream_ok digest s'"
proof -
  have "pt_authority s = None" if "\<not> is_model s"
    using ok that by (auto simp: stream_ok_def authority_ok_def is_model_def split: option.splits)
  then show ?thesis
    using assms by (auto simp: message_stop_def Let_def stream_ok_def authority_ok_def claims_ok_def is_model_def
        observed_text_default_def text_ok_def split: if_splits option.splits)
qed

lemma set_text_ok:
  assumes "append_text (pt_text s) delta (map_option gn_text (pt_authority s)) = Ok t" and ok: "stream_ok digest s"
  shows "stream_ok digest (s\<lparr>pt_text := t\<rparr>)"
proof (cases "pt_authority s")
  case None
  then show ?thesis
    using assms append_text_ok [of "pt_text s" delta None t]
    by (auto simp: stream_ok_def authority_ok_def is_model_def)
next
  case (Some g)
  then show ?thesis
    using assms append_text_ok [of "pt_text s" delta "Some (gn_text g)" t] append_text_follows [of "pt_text s" delta "gn_text g" t digest]
    by (auto simp: stream_ok_def authority_ok_def claims_ok_def is_model_def)
qed

lemma set_thinking_ok:
  assumes "append_text (pt_thinking s) delta (map_option gn_thinking (pt_authority s)) = Ok t" and ok: "stream_ok digest s" and "is_model s"
  shows "stream_ok digest (s\<lparr>pt_thinking := t\<rparr>)"
proof (cases "pt_authority s")
  case None
  then show ?thesis
    using assms append_text_ok [of "pt_thinking s" delta None t]
    by (auto simp: stream_ok_def authority_ok_def is_model_def)
next
  case (Some g)
  then show ?thesis
    using assms append_text_ok [of "pt_thinking s" delta "Some (gn_thinking g)" t]
      append_text_follows [of "pt_thinking s" delta "gn_thinking g" t digest]
    by (auto simp: stream_ok_def authority_ok_def claims_ok_def is_model_def)
qed

lemma prefix_get_at: "prefix xs ys \<Longrightarrow> get_at ys (length xs) = Some y \<Longrightarrow> prefix (xs @ [y]) ys"
  by (auto simp: prefix_def get_at_def nth_append split: if_splits) (metis Cons_nth_drop_Suc drop0 length_greater_0_conv)

lemma start_incomplete_ok:
  assumes "start_incomplete s content line = Ok s'" and ok: "stream_ok digest s"
  shows "stream_ok digest s'"
proof -
  obtain call where model: "is_model s" and s': "s' = s\<lparr>pt_incomplete := pt_incomplete s @ [call]\<rparr>"
    and next_call: "\<And>g. pt_authority s = Some g \<Longrightarrow> get_at (gn_incomplete g) (length (pt_incomplete s)) = Some call"
    using assms(1) by (auto simp: start_incomplete_def split: if_splits option.splits)
  have "prefix (pt_incomplete s @ [call]) (gn_incomplete g)" if "pt_authority s = Some g" for g
    using ok that next_call by (intro prefix_get_at) (auto simp: stream_ok_def authority_ok_def claims_ok_def)
  then show ?thesis
    using ok model unfolding s' stream_ok_def authority_ok_def claims_ok_def is_model_def
    by (auto split: option.splits)
qed

text \<open>What starting the content of a block leaves, with the call of the block.\<close>

definition started :: "generation option \<Rightarrow> partial_stream_state \<Rightarrow> partial_call option \<Rightarrow> bool" where
  "started authority s call = (case call of None \<Rightarrow> True
     | Some c \<Rightarrow> pc_observed c = 0 \<and> (\<exists>g. authority = Some g \<and>
         (\<exists>cl \<in> set (gn_calls g). cl_id cl \<in> pt_called s \<and> pc_expected c = cl_arguments cl)))"

lemma start_tool_ok:
  assumes "start_tool s content line = Ok (s', call)" and ok: "stream_ok digest s"
  shows "stream_ok digest s' \<and> pt_blocks s' = pt_blocks s \<and> started (pt_authority s') s' call \<and> call \<noteq> None"
proof -
  obtain g cl where g: "pt_authority s = Some g" "find (\<lambda>call. cl_id call = cl_id cl) (gn_calls g) = Some cl" "is_model s" "pt_accepted s = Some True"
    and s': "s' = s\<lparr>pt_called := Set.insert (cl_id cl) (pt_called s)\<rparr>"
    and call: "call = Some \<lparr>pc_expected = cl_arguments cl, pc_observed = 0\<rparr>"
    using assms(1) by (auto simp: start_tool_def find_Some_iff split: if_splits)
  from g(2) have "cl \<in> set (gn_calls g)" by (auto simp: find_Some_iff)
  moreover have "claims_ok g s'" using ok g(1) \<open>cl \<in> set (gn_calls g)\<close>
    unfolding s' stream_ok_def authority_ok_def claims_ok_def by simp blast
  ultimately show ?thesis
    using ok g unfolding s' call stream_ok_def authority_ok_def is_model_def started_def by auto
qed

lemma start_content_ok:
  assumes "start_content s content kind line = Ok (s', call)" and ok: "stream_ok digest s"
  shows "stream_ok digest s' \<and> pt_blocks s' = pt_blocks s \<and> started (pt_authority s') s' call \<and> (call = None \<longleftrightarrow> kind \<noteq> ''tool_use'')
    \<and> (kind = ''thinking'' \<longrightarrow> is_model s')"
proof -
  consider (shown) "kind = ''text''" | (thinking) "kind = ''thinking''" | (tool) "kind = ''tool_use''"
    | (incomplete) "kind = ''incomplete_tool_use''"
    using assms(1) by (auto simp: start_content_def split: if_splits)
  then show ?thesis
  proof cases
    case shown
    then show ?thesis using assms set_text_ok [of s _ _ digest] by (auto simp: start_content_def started_def)
  next
    case thinking
    then show ?thesis using assms set_thinking_ok [of s _ _ digest]
      by (auto simp: start_content_def started_def is_model_def split: if_splits)
  next
    case tool
    then show ?thesis using assms start_tool_ok [of s content line s' call digest] by (auto simp: start_content_def)
  next
    case incomplete
    then obtain r where r: "start_incomplete s content line = Ok r" "s' = r" "call = None" using assms(1) by (auto simp: start_content_def)
    then have "pt_blocks s' = pt_blocks s" by (auto simp: start_incomplete_def split: if_splits)
    then show ?thesis using r start_incomplete_ok [OF r(1) ok] incomplete by (auto simp: started_def)
  qed
qed

lemma insert_block_ok:
  assumes ok: "stream_ok digest s" and blocks: "blocks_ok (btree_insert i b (pt_blocks s))"
    and call: "\<And>c. bk_call b = Some c \<Longrightarrow> \<exists>g. pt_authority s = Some g \<and>
         (\<exists>cl \<in> set (gn_calls g). cl_id cl \<in> pt_called s \<and> pc_expected c = cl_arguments cl)"
    and kind: "bk_kind b = ''thinking'' \<Longrightarrow> is_model s"
  shows "stream_ok digest (s\<lparr>pt_blocks := btree_insert i b (pt_blocks s)\<rparr>)"
proof (cases "pt_authority s")
  case None
  then have "bk_call b = None" using call by (cases "bk_call b") auto
  then show ?thesis using ok blocks None kind unfolding stream_ok_def authority_ok_def is_model_def by auto
next
  case (Some g)
  then have "claims_ok g s" using ok by (simp add: stream_ok_def authority_ok_def)
  then have "claims_ok g (s\<lparr>pt_blocks := btree_insert i b (pt_blocks s)\<rparr>)"
    using call Some unfolding claims_ok_def by simp
  then show ?thesis using ok blocks Some kind unfolding stream_ok_def authority_ok_def is_model_def by simp
qed

lemma block_start_ok:
  assumes "block_start s event root_scope line = Ok s'" and ok: "stream_ok digest s"
  shows "stream_ok digest s'"
proof -
  obtain v index kind content s1 call where v: "unsigned v ''partial index'' SAFE_INTEGER = Ok index"
    and index: "unat index = length (pt_blocks (restart_blocks index s))"
    and s1: "start_content (restart_blocks index s) content kind line = Ok (s1, call)"
    and s': "s' = s1\<lparr>pt_blocks := btree_insert index \<lparr>bk_kind = kind, bk_open = True, bk_call = call\<rparr> (pt_blocks s1)\<rparr>"
    using assms(1) by (auto simp: block_start_def Let_def split: if_splits)
  have "stream_ok digest (restart_blocks index s)" using ok clear_blocks_ok [OF ok] by (simp add: restart_blocks_def)
  note s1_ok = start_content_ok [OF s1 this]
  have "blocks_ok (btree_insert index \<lparr>bk_kind = kind, bk_open = True, bk_call = call\<rparr> (pt_blocks s1))"
    using s1_ok index unsigned_bound [OF v] by (intro blocks_ok_push) (auto simp: stream_ok_def block_ok_def started_def split: option.splits)
  then show ?thesis
    unfolding s' using s1_ok by (intro insert_block_ok) (auto simp: started_def)
qed

lemma open_block_get: "open_block s event line = Ok (index, block) \<Longrightarrow> btree_get (pt_blocks s) index = Some block \<and> bk_open block"
  by (auto simp: open_block_def split: option.splits if_splits)

lemma replaced_call:
  assumes ok: "stream_ok digest s" and "btree_get (pt_blocks s) i = Some b" and "bk_call b = Some c" and "pc_expected c' = pc_expected c"
  shows "\<exists>g. pt_authority s = Some g \<and> (\<exists>cl \<in> set (gn_calls g). cl_id cl \<in> pt_called s \<and> pc_expected c' = cl_arguments cl)"
proof (cases "pt_authority s")
  case None
  then show ?thesis using assms unfolding stream_ok_def authority_ok_def by auto
next
  case (Some g)
  then show ?thesis using assms unfolding stream_ok_def authority_ok_def claims_ok_def by auto
qed

lemma get_block_ok: "stream_ok digest s \<Longrightarrow> btree_get (pt_blocks s) i = Some b \<Longrightarrow> block_ok b"
  unfolding stream_ok_def blocks_ok_def by blast

lemma get_block_model: "stream_ok digest s \<Longrightarrow> btree_get (pt_blocks s) i = Some b \<Longrightarrow> bk_kind b = ''thinking'' \<Longrightarrow> is_model s"
  unfolding stream_ok_def by blast

lemma block_stop_ok:
  assumes "block_stop s index b = Ok s'" and get: "btree_get (pt_blocks s) index = Some b" and ok: "stream_ok digest s"
  shows "stream_ok digest s'"
proof -
  have s': "s' = s\<lparr>pt_blocks := btree_insert index (b\<lparr>bk_open := False\<rparr>) (pt_blocks s)\<rparr>"
    and full: "\<And>c. bk_call b = Some c \<Longrightarrow> pc_observed c = length (pc_expected c)"
    using assms(1) by (auto simp: block_stop_def split: if_splits option.splits)
  have "block_ok (b\<lparr>bk_open := False\<rparr>)" using get_block_ok [OF ok get] full by (auto simp: block_ok_def)
  then have "blocks_ok (btree_insert index (b\<lparr>bk_open := False\<rparr>) (pt_blocks s))"
    using ok get by (intro blocks_ok_update) (auto simp: stream_ok_def)
  then show ?thesis
    unfolding s' using ok replaced_call [OF ok get] get_block_model [OF ok get] by (intro insert_block_ok) auto
qed

lemma argument_delta_Ok:
  assumes "argument_delta call chunk = Ok call'"
  shows "pc_expected call' = pc_expected call \<and> pc_observed call' = pc_observed call + length chunk
    \<and> pc_observed call' \<le> length (pc_expected call)
    \<and> slice (pc_expected call) (pc_observed call) (pc_observed call') = chunk"
  using assms by (auto simp: argument_delta_def get_range_Some_iff split: if_splits)

lemma block_delta_ok:
  assumes "block_delta s event index b line = Ok s'" and get: "btree_get (pt_blocks s) index = Some b" and "bk_open b"
    and ok: "stream_ok digest s"
  shows "stream_ok digest s'"
proof -
  consider (shown) t delta where "append_text (pt_text s) delta (map_option gn_text (pt_authority s)) = Ok t" "s' = s\<lparr>pt_text := t\<rparr>"
    | (thinking) t delta where "bk_kind b = ''thinking''" "append_text (pt_thinking s) delta (map_option gn_thinking (pt_authority s)) = Ok t" "s' = s\<lparr>pt_thinking := t\<rparr>"
    | (tool) c c' chunk where "bk_call b = Some c" "argument_delta c chunk = Ok c'"
        "s' = s\<lparr>pt_blocks := btree_insert index (b\<lparr>bk_call := Some c'\<rparr>) (pt_blocks s)\<rparr>"
    using assms(1) unfolding block_delta_def bindR_Ok_iff by (elim exE conjE) (simp split: if_splits, blast+)
  then show ?thesis
  proof cases
    case shown
    then show ?thesis using set_text_ok [OF _ ok] by blast
  next
    case thinking
    then show ?thesis using set_thinking_ok [OF _ ok] get_block_model [OF ok get] by blast
  next
    case tool
    note c' = argument_delta_Ok [OF tool(2)]
    have "block_ok (b\<lparr>bk_call := Some c'\<rparr>)"
      using get_block_ok [OF ok get] tool(1) c' \<open>bk_open b\<close> by (auto simp: block_ok_def)
    then have "blocks_ok (btree_insert index (b\<lparr>bk_call := Some c'\<rparr>) (pt_blocks s))"
      using ok get by (intro blocks_ok_update) (auto simp: stream_ok_def)
    then show ?thesis
      unfolding tool(3) using ok replaced_call [OF ok get tool(1), of c'] c' get_block_model [OF ok get] by (intro insert_block_ok) auto
  qed
qed

lemma observe_ok:
  assumes "observe s partial root_scope line = Ok s'" and ok: "stream_ok digest s"
  shows "stream_ok digest s'"
proof (cases "pr_kind partial")
  case PkContentBlockDelta
  then obtain index b where "open_block s (pr_value partial) line = Ok (index, b)" "block_delta s (pr_value partial) index b line = Ok s'"
    using assms(1) by (auto simp: observe_def split: if_splits)
  then show ?thesis using open_block_get block_delta_ok ok by metis
next
  case PkContentBlockStop
  then obtain index b where "open_block s (pr_value partial) line = Ok (index, b)" "block_stop s index b = Ok s'"
    using assms(1) by (auto simp: observe_def split: if_splits)
  then show ?thesis using open_block_get block_stop_ok ok by metis
qed (use assms message_start_ok block_start_ok message_stop_ok in \<open>auto simp: observe_def split: if_splits\<close>)

section \<open>Histories of a scope\<close>

text \<open>The states a scope reaches; \<open>root_scope\<close> tells the root scope from that of a subagent.\<close>

inductive stream_reachable :: "(string \<Rightarrow> 'd) \<Rightarrow> bool \<Rightarrow> partial_stream_state \<Rightarrow> bool" for digest root_scope where
  start: "stream_reachable digest root_scope partial_stream_default"
| origin: "stream_reachable digest root_scope s \<Longrightarrow> set_origin s origin = Ok s' \<Longrightarrow> stream_reachable digest root_scope s'"
| generation: "stream_reachable digest root_scope s \<Longrightarrow> observe_generation digest s g = Ok s' \<Longrightarrow> stream_reachable digest root_scope s'"
| completion: "stream_reachable digest root_scope s \<Longrightarrow> observe_completion s origin accepted = Ok s' \<Longrightarrow> stream_reachable digest root_scope s'"
| partial: "stream_reachable digest root_scope s \<Longrightarrow> observe s record root_scope line = Ok s' \<Longrightarrow> stream_reachable digest root_scope s'"
| message: "stream_reachable digest root_scope s \<Longrightarrow> complete_message digest s text = Ok s' \<Longrightarrow> stream_reachable digest root_scope s'"

lemma stream_reachable_ok: "stream_reachable digest root_scope s \<Longrightarrow> stream_ok digest s"
proof (induction rule: stream_reachable.induct)
  case start
  show ?case using stream_ok_default [of digest None] by (simp add: partial_stream_default_def)
qed (blast intro: set_origin_ok [THEN conjunct1] observe_generation_ok observe_completion_ok observe_ok complete_message_ok)+

text \<open>
  C26: What a scope shows is what its generation produced: in every reachable state with a generation as authority,
  the origin is that of the generation, the text and the thoughts shown agree with the generation's bytes (and are
  a prefix of them unless the digest collides on the compared texts), the incomplete calls are the first ones of the generation,
  a claimed call is one of its calls and was claimed after acceptance, and a tool block expects the
  arguments of a claimed call.
\<close>

theorem scope_shows_generation:
  assumes "stream_reachable digest root_scope s" and "pt_authority s = Some g"
  shows "pt_origin s = Some (Model (gn_origin g))
    \<and> follows digest (ot_absorbed (pt_text s)) (gn_text g) \<and> follows digest (ot_absorbed (pt_thinking s)) (gn_thinking g)
    \<and> ((\<forall>n. digest (take n (gn_text g)) = digest (take n (ot_absorbed (pt_text s))) \<longrightarrow>
          take n (gn_text g) = take n (ot_absorbed (pt_text s))) \<longrightarrow> prefix (ot_absorbed (pt_text s)) (gn_text g))
    \<and> prefix (pt_incomplete s) (gn_incomplete g)
    \<and> pt_called s \<subseteq> cl_id ` set (gn_calls g) \<and> (pt_called s \<noteq> {} \<longrightarrow> pt_accepted s = Some True)
    \<and> (\<forall>i b c. btree_get (pt_blocks s) i = Some b \<longrightarrow> bk_call b = Some c \<longrightarrow>
          (\<exists>call \<in> set (gn_calls g). cl_id call \<in> pt_called s \<and> pc_expected c = cl_arguments call))"
proof -
  have ok: "stream_ok digest s" using stream_reachable_ok [OF assms(1)] .
  then have shown: "follows digest (ot_absorbed (pt_text s)) (gn_text g)" using assms(2) by (simp add: stream_ok_def authority_ok_def)
  show ?thesis
    using ok assms(2) shown follows_prefix [OF shown] unfolding stream_ok_def authority_ok_def claims_ok_def by simp
qed

text \<open>
  C27: A scope that finishes is complete: no message group and no block is open, the blocks are numbered from zero,
  every tool block has received the bytes of its call's arguments to the end, and the output of a
  model has an authority with a recorded completion.
\<close>

theorem finished_scope_complete:
  assumes "stream_reachable digest root_scope s" and "finish s = Ok ()"
  shows "\<not> pt_group_open s \<and> map fst (pt_blocks s) = indices (length (pt_blocks s))
    \<and> (\<forall>i b. btree_get (pt_blocks s) i = Some b \<longrightarrow> \<not> bk_open b
         \<and> (\<forall>c. bk_call b = Some c \<longrightarrow> pc_observed c = length (pc_expected c)))
    \<and> (\<forall>origin. pt_origin s = Some (Model origin) \<longrightarrow>
         (\<exists>g accepted. pt_authority s = Some g \<and> gn_origin g = origin \<and> pt_accepted s = Some accepted))"
proof -
  have ok: "stream_ok digest s" using stream_reachable_ok [OF assms(1)] .
  have closed: "\<not> bk_open b" if "btree_get (pt_blocks s) i = Some b" for i b
    using assms(2) that by (auto simp: finish_def any_open_def list_ex_iff btree_get_map_of dest!: map_of_SomeD split: if_splits)
  then have "\<not> bk_open b \<and> (\<forall>c. bk_call b = Some c \<longrightarrow> pc_observed c = length (pc_expected c))"
    if "btree_get (pt_blocks s) i = Some b" for i b
    using that get_block_ok [OF ok that] unfolding block_ok_def by blast
  moreover have "\<exists>g accepted. pt_authority s = Some g \<and> gn_origin g = origin \<and> pt_accepted s = Some accepted"
    if "pt_origin s = Some (Model origin)" for origin
    using assms(2) that ok by (auto simp: finish_def is_model_def stream_ok_def authority_ok_def split: if_splits)
  ultimately show ?thesis
    using assms(2) ok by (auto simp: finish_def stream_ok_def blocks_ok_def split: if_splits)
qed

text \<open>The strings the schema of a partial event admits where the code expects them.\<close>

definition string_or_absent :: "jvalue \<Rightarrow> string \<Rightarrow> bool" where
  "string_or_absent v key = (case jget v key of None \<Rightarrow> True | Some w \<Rightarrow> as_str w \<noteq> None)"

definition admitted_event :: "jvalue \<Rightarrow> bool" where
  "admitted_event event \<longleftrightarrow>
     (\<forall>delta. jget event ''delta'' = Some delta \<longrightarrow>
        string_or_absent delta ''text'' \<and> string_or_absent delta ''thinking'' \<and> string_or_absent delta ''partial_json'')
     \<and> (\<forall>content. jget event ''content_block'' = Some content \<longrightarrow> string_or_absent content ''arguments'')"

abbreviation no_panic :: "'a contract_result \<Rightarrow> bool" where
  "no_panic \<equiv> ensures (\<lambda>e. e \<noteq> ContractPanic) (\<lambda>_. True)"

lemma no_panic_bind: "no_panic m \<Longrightarrow> (\<And>x. m = Ok x \<Longrightarrow> no_panic (f x)) \<Longrightarrow> no_panic (bindR m f)"
  by (cases m) auto

lemma no_panic_ok_or: "m \<noteq> None \<or> e \<noteq> ContractPanic \<Longrightarrow> no_panic (ok_or m e)"
  by (cases m) auto

lemma field_no_panic: "no_panic (field v key line)"
  by (cases "jget v key") (simp_all add: field_def)

lemma record_errors_no_panic: "record_errors m \<Longrightarrow> no_panic m"
  by (cases m) auto

lemma unsigned_no_panic: "no_panic (unsigned v name m)"
  by (cases "as_number v"; cases "as_unsigned (the (as_number v)) m") (auto simp: unsigned_def)

lemma append_text_no_panic: "no_panic (append_text t delta authority)"
  by (auto simp: append_text_def intro!: no_panic_bind no_panic_ok_or)

lemma argument_delta_no_panic: "no_panic (argument_delta c chunk)"
  by (auto simp: argument_delta_def intro!: no_panic_bind no_panic_ok_or)

lemmas no_panic_intros = no_panic_bind no_panic_ok_or field_no_panic unsigned_no_panic append_text_no_panic
  argument_delta_no_panic record_errors_no_panic [OF text_field_fault]

lemma string_field_no_panic:
  "string_or_absent v key \<Longrightarrow> (\<And>x. no_panic (f x)) \<Longrightarrow> no_panic (bindR (field v key line) (\<lambda>t. bindR (ok_or (as_str t) ContractPanic) f))"
  by (cases "jget v key") (auto simp: string_or_absent_def field_def)

lemma no_panic_if: "(b \<Longrightarrow> no_panic m) \<Longrightarrow> (\<not> b \<Longrightarrow> no_panic n) \<Longrightarrow> no_panic (if b then m else n)"
  by simp

lemma incomplete_read_no_panic: "string_or_absent v ''arguments'' \<Longrightarrow> no_panic (incomplete_read v line)"
  unfolding incomplete_read_def by (intro no_panic_intros) (auto simp: string_or_absent_def)

lemma start_content_no_panic:
  assumes ok: "stream_ok digest s" and "string_or_absent content ''arguments''"
  shows "no_panic (start_content s content kind line)"
proof -
  have "pt_authority s \<noteq> None" if "pt_accepted s = Some True" using ok that
    by (cases "pt_authority s") (auto simp: stream_ok_def authority_ok_def)
  then have "no_panic (start_tool s content line)"
    unfolding start_tool_def by (intro no_panic_if no_panic_intros) auto
  moreover have "no_panic (start_incomplete s content line)"
    unfolding start_incomplete_def
    by (intro no_panic_if no_panic_bind [OF incomplete_read_no_panic [OF assms(2)]]) auto
  ultimately show ?thesis
    unfolding start_content_def by (intro no_panic_if no_panic_bind [OF field_no_panic] no_panic_bind [OF append_text_no_panic])
      (auto intro: no_panic_bind)
qed

lemma block_delta_no_panic:
  assumes ok: "stream_ok digest s" and get: "btree_get (pt_blocks s) index = Some b" and "admitted_event event"
  shows "no_panic (block_delta s event index b line)"
proof -
  have tool: "bk_call b \<noteq> None" if "bk_kind b = ''tool_use''" using get_block_ok [OF ok get] that by (auto simp: block_ok_def)
  show ?thesis
    unfolding block_delta_def
  proof (rule no_panic_bind [OF field_no_panic], rule no_panic_bind [OF record_errors_no_panic [OF text_field_fault]],
      intro no_panic_if string_field_no_panic no_panic_bind [OF append_text_no_panic]
        no_panic_bind [OF argument_delta_no_panic] no_panic_bind [OF no_panic_ok_or])
  qed (use assms(3) tool in \<open>auto simp: admitted_event_def\<close>)
qed

lemma block_start_no_panic:
  assumes ok: "stream_ok digest s" and "admitted_event event"
  shows "no_panic (block_start s event root_scope line)"
proof -
  have "stream_ok digest (restart_blocks index s)" for index
    using ok clear_blocks_ok [OF ok] by (simp add: restart_blocks_def)
  then have content: "no_panic (start_content (restart_blocks index s) content kind line)" if "field event ''content_block'' line = Ok content" for index content kind
    using assms(2) that by (intro start_content_no_panic) (auto simp: admitted_event_def)
  show ?thesis
    unfolding block_start_def Let_def
    by (intro no_panic_if no_panic_bind [OF field_no_panic] no_panic_bind [OF unsigned_no_panic]
          no_panic_bind [OF record_errors_no_panic [OF text_field_fault]] no_panic_bind [OF content]) auto
qed

lemma open_block_no_panic: "no_panic (open_block s event line)"
  unfolding open_block_def
  by (intro no_panic_bind [OF field_no_panic] no_panic_bind [OF unsigned_no_panic]) (auto split: option.split)

text \<open>
  C28: Observing a partial event never panics: in every reachable state, for an event whose strings are those the
  schema admits, the answer is a new state or a refusal of the record; the accepted authority is there when a tool is
  claimed, and an open tool block has its call.
\<close>

theorem observe_no_panic:
  assumes "stream_reachable digest root_scope s" and "admitted_event (pr_value partial)"
  shows "observe s partial root_scope line \<noteq> Err ContractPanic"
proof -
  have ok: "stream_ok digest s" using stream_reachable_ok [OF assms(1)] .
  have delta: "no_panic (bindR (open_block s (pr_value partial) line) (\<lambda>(index, block). block_delta s (pr_value partial) index block line))"
    using block_delta_no_panic [OF ok _ assms(2)] open_block_get
    by (intro no_panic_bind [OF open_block_no_panic]) (auto split: prod.splits)
  have stop: "no_panic (bindR (open_block s (pr_value partial) line) (\<lambda>(index, block). block_stop s index block))"
    by (intro no_panic_bind [OF open_block_no_panic]) (auto simp: block_stop_def split: prod.splits)
  have "no_panic (observe s partial root_scope line)"
    using delta stop block_start_no_panic [OF ok assms(2)]
    by (cases "pr_kind partial") (simp_all add: observe_def message_start_def message_stop_def Let_def)
  then show ?thesis by (auto simp: ensures_iff)
qed

section \<open>A scope that shows one text\<close>

definition sample_generation :: generation where
  "sample_generation = \<lparr>gn_journal = ''j'', gn_id = ''g'', gn_hash = ''h'', gn_origin = \<lparr>og_attempt = ''a'', og_scope = ''s''\<rparr>,
     gn_output_scope = Conversation None, gn_model = ''m'', gn_usage = None, gn_finish = None, gn_observation_count = 1,
     gn_source_requests = [''q''], gn_text = ''hello'', gn_display_text = ''hello'', gn_thinking = [],
     gn_calls = [], gn_incomplete = [], gn_accepted_images_valid = True, gn_shown_thinking = [], gn_shown = [ShownText ''hello'']\<rparr>"

definition sample_partial :: "partial_kind \<Rightarrow> partial_record" where
  "sample_partial kind = \<lparr>pr_value = JObject
     [(''content_block'', JObject [(''text'', JString ''hel''), (''type'', JString ''text'')]),
      (''index'', JNumber \<lparr>jn_token = ''0'', jn_value = DZero\<rparr>)], pr_kind = kind\<rparr>"

definition sample_history :: "partial_stream_state contract_result" where
  "sample_history =
     bindR (observe_generation (\<lambda>s. s) partial_stream_default sample_generation) (\<lambda>s.
     bindR (observe_completion s (gn_origin sample_generation) True) (\<lambda>s.
     bindR (observe s (sample_partial PkMessageStart) True 1) (\<lambda>s.
     bindR (observe s (sample_partial PkContentBlockStart) True 2) (\<lambda>s.
     bindR (observe s (sample_partial PkContentBlockStop) True 3) (\<lambda>s.
       observe s (sample_partial PkMessageStop) True 4)))))"

lemma sample_history_reaches:
  "\<exists>s. sample_history = Ok s \<and> stream_reachable (\<lambda>s. s) True s \<and> pt_authority s = Some sample_generation
     \<and> ot_absorbed (pt_text s) = ''hel'' \<and> finish s = Ok ()"
proof -
  have run: "\<exists>s. sample_history = Ok s \<and> pt_authority s = Some sample_generation \<and> ot_absorbed (pt_text s) = ''hel'' \<and> finish s = Ok ()"
    by (simp add: sample_history_def observe_generation_def set_origin_def partial_stream_default_def bind_text_def get_range_def
        observed_text_default_def sample_generation_def observe_completion_def observe_def sample_partial_def message_start_def
        is_model_def block_start_def field_def unsigned_def as_unsigned_def restart_blocks_def any_open_def text_field_def
        start_content_def append_text_def checked_add_usize_def slice_def open_block_def block_stop_def message_stop_def finish_def)
  then obtain s where s: "sample_history = Ok s" and facts: "pt_authority s = Some sample_generation \<and> ot_absorbed (pt_text s) = ''hel'' \<and> finish s = Ok ()"
    by blast
  have "stream_reachable (\<lambda>s. s) True s"
    using s stream_reachable.start stream_reachable.generation stream_reachable.completion stream_reachable.partial
    unfolding sample_history_def bindR_Ok_iff by metis
  with s facts show ?thesis by blast
qed

theorem scope_shows_generation_witness:
  "\<exists>s. sample_history = Ok s \<and> pt_authority s = Some sample_generation \<and> prefix (ot_absorbed (pt_text s)) (gn_text sample_generation)"
proof -
  obtain s where s: "sample_history = Ok s" "stream_reachable (\<lambda>s. s) True s" "pt_authority s = Some sample_generation"
    using sample_history_reaches by blast
  with scope_shows_generation [OF s(2,3)] show ?thesis by auto
qed

theorem finished_scope_complete_witness:
  "\<exists>s. sample_history = Ok s \<and> finish s = Ok () \<and> (\<exists>accepted. pt_accepted s = Some accepted)"
proof -
  obtain s where s: "sample_history = Ok s" "stream_reachable (\<lambda>s. s) True s" "pt_authority s = Some sample_generation" "finish s = Ok ()"
    using sample_history_reaches by blast
  then have "pt_origin s = Some (Model (gn_origin sample_generation))"
    using stream_reachable_ok [OF s(2)] by (simp add: stream_ok_def authority_ok_def)
  with s finished_scope_complete [OF s(2,4)] show ?thesis by auto
qed

theorem observe_no_panic_witness:
  "\<exists>s. sample_history = Ok s \<and> observe s (sample_partial PkContentBlockDelta) True 5 \<noteq> Err ContractPanic"
proof -
  obtain s where s: "sample_history = Ok s" "stream_reachable (\<lambda>s. s) True s" using sample_history_reaches by blast
  have "admitted_event (pr_value (sample_partial PkContentBlockDelta))"
    by (simp add: sample_partial_def admitted_event_def string_or_absent_def)
  with s observe_no_panic [OF s(2)] show ?thesis by auto
qed

end
