(* ===== verification/Serde.thy ===== *)
theory Serde
  imports Prelude
begin

text \<open>
  What the code uses of the JSON library \<^verbatim>\<open>serde_json\<close>, as one argument: its value type is the type parameter, and
  reading a text, a value at a JSON pointer, a member, a string and the members of an object are its fields.
\<close>

record 'v serde =
  sj_from_str :: "string \<Rightarrow> 'v option"
  sj_pointer :: "'v \<Rightarrow> string \<Rightarrow> 'v option"
  sj_get :: "'v \<Rightarrow> string \<Rightarrow> 'v option"
  sj_as_str :: "'v \<Rightarrow> string option"
  sj_as_object :: "'v \<Rightarrow> (string \<times> 'v) list option"

end
