(* ===== verification/Authorship.thy ===== *)
theory Authorship
  imports Partial_Stream Serde "HOL-Library.Product_Lexorder" "HOL-Library.Multiset"
begin

text \<open>
  \<^verbatim>\<open>protocol/engine/src/authorship.rs\<close>: who wrote each byte of a recorded request body. The value type
  of \<^verbatim>\<open>serde_json\<close> and its operations (\<^verbatim>\<open>from_str\<close>, \<^verbatim>\<open>pointer\<close>, \<^verbatim>\<open>get\<close>, \<^verbatim>\<open>as_str\<close>) are the argument \<open>sj\<close>.
\<close>

abbreviation authorship_refusal :: "string \<Rightarrow> contract_fault" where
  "authorship_refusal detail \<equiv> Fault (InvalidRecord (AuthorshipEvidence detail))"

section \<open>Runs\<close>

datatype claim = Harness | World | Operator u64 | ModelClaim string string string u64

record run =
  rn_bytes :: nat
  rn_claim :: claim

definition read_claim :: "jvalue \<Rightarrow> nat \<Rightarrow> claim contract_result" where
  "read_claim item line =
     bindR (text_field item ''author'' line) (\<lambda>author.
       if author = ''harness'' then Ok Harness
       else if author = ''world'' then Ok World
       else if author = ''operator'' then
         bindR (field item ''offset'' line) (\<lambda>v.
         bindR (unsigned v ''operator offset'' SAFE_INTEGER) (\<lambda>offset. Ok (Operator offset)))
       else if author = ''model'' then
         bindR (field item ''source'' line) (\<lambda>source.
         bindR (text_field source ''kind'' line) (\<lambda>kind.
         bindR (text_field source ''id'' line) (\<lambda>ident.
         bindR (text_field source ''field'' line) (\<lambda>name.
         bindR (field source ''offset'' line) (\<lambda>v.
         bindR (unsigned v ''model source offset'' SAFE_INTEGER) (\<lambda>offset.
           Ok (ModelClaim kind ident name offset)))))))
       else Err (authorship_refusal ''names an unknown author''))"

definition read_run :: "nat \<Rightarrow> jvalue \<Rightarrow> run contract_result" where
  "read_run line item =
     bindR (field item ''bytes'' line) (\<lambda>v.
     bindR (unsigned v ''authored run bytes'' SAFE_INTEGER) (\<lambda>bytes.
       if unat bytes = 0 then Err (authorship_refusal ''has a run with no bytes'')
       else bindR (read_claim item line) (\<lambda>claim. Ok \<lparr>rn_bytes = unat bytes, rn_claim = claim\<rparr>)))"

definition read_runs :: "jvalue \<Rightarrow> nat \<Rightarrow> run list contract_result" where
  "read_runs v line =
     bindR (ok_or (elements v) (authorship_refusal ''lists its runs in something other than an array'')) (\<lambda>items.
       mapR (read_run line) items)"

record segment =
  sg_start :: nat
  sg_len :: nat
  sg_runs :: "run list"

section \<open>String values\<close>

record string_value =
  sv_content :: "nat \<times> nat"
  sv_boundaries :: "(nat \<times> nat) list"
  sv_decoded :: string

text \<open>\<^verbatim>\<open>u32::from_str_radix(digits, 16)\<close> on at most four bytes, which cannot overflow.\<close>

fun hex_digits :: "nat \<Rightarrow> string \<Rightarrow> nat option" where
  "hex_digits acc [] = Some acc"
| "hex_digits acc (c # cs) = Option.bind (hex_digit c) (\<lambda>d. hex_digits (acc * 16 + d) cs)"

definition from_str_radix_16 :: "string \<Rightarrow> nat option" where
  "from_str_radix_16 s =
     (case s of
        [] \<Rightarrow> None
      | c # cs \<Rightarrow> if c = CHR ''+'' then if cs = [] then None else hex_digits 0 cs else hex_digits 0 s)"

definition hex_at :: "string \<Rightarrow> nat \<Rightarrow> nat option" where
  "hex_at raw pos = Option.bind (get_range raw pos (pos + 4)) (\<lambda>digits.
     if utf8_valid digits then from_str_radix_16 digits else None)"

definition char_from_u32 :: "nat \<Rightarrow> string option" where
  "char_from_u32 n = (if is_scalar n then Some (utf8_encode n) else None)"

definition escaped_unicode :: "string \<Rightarrow> nat \<Rightarrow> (string \<times> nat) option" where
  "escaped_unicode raw pos =
     Option.bind (hex_at raw (pos + 2)) (\<lambda>first.
       if 55296 \<le> first \<and> first < 56320 then
         if get_range raw (pos + 6) (pos + 8) \<noteq> Some [CHR 0x5C, CHR ''u''] then None
         else Option.bind (hex_at raw (pos + 8)) (\<lambda>second.
           if \<not> (56320 \<le> second \<and> second < 57344) then None
           else Option.bind (char_from_u32 (65536 + (first - 55296) * 1024 + (second - 56320))) (\<lambda>c. Some (c, 12)))
       else Option.bind (char_from_u32 first) (\<lambda>c. Some (c, 6)))"

text \<open>The bytes of the character at an offset of the content, and its width there.\<close>

definition stored_char :: "string \<Rightarrow> nat \<Rightarrow> (string \<times> nat) option" where
  "stored_char raw pos =
     (if raw ! pos \<noteq> CHR 0x5C then
        if utf8_valid (drop pos raw) then
          Option.bind (utf8_head (drop pos raw)) (\<lambda>k. Some (take k (drop pos raw), k))
        else None
      else Option.bind (get_at raw (pos + 1)) (\<lambda>escape.
        if escape = CHR ''u'' then escaped_unicode raw pos
        else Option.bind (simple_escape escape) (\<lambda>n. Some (utf8_encode n, 2))))"

lemma stored_char_width: "stored_char raw pos = Some (c, w) \<Longrightarrow> 0 < w"
  by (auto simp: stored_char_def escaped_unicode_def bind_eq_Some_conv dest: utf8_head_bounds split: if_splits)

function string_value_loop :: "string \<Rightarrow> nat \<Rightarrow> nat \<Rightarrow> (nat \<times> nat) list \<Rightarrow> string \<Rightarrow> ((nat \<times> nat) list \<times> string) option" where
  "string_value_loop raw start pos boundaries decoded =
     (if pos < length raw then
        case stored_char raw pos of
          Some (c, w) \<Rightarrow> string_value_loop raw start (pos + w) (boundaries @ [(start + pos, length decoded)]) (decoded @ c)
        | None \<Rightarrow> None
      else Some (boundaries, decoded))"
  by pat_completeness auto
termination
  by (relation "measure (\<lambda>(raw, _, pos, _). length raw - pos)") (auto dest!: stored_char_width)

declare string_value_loop.simps [simp del]

definition string_value_read :: "string \<Rightarrow> nat \<times> nat \<Rightarrow> string_value option contract_result" where
  "string_value_read source content =
     bindR (ok_or (get_range source (fst content) (snd content)) ContractPanic) (\<lambda>raw.
       Ok (map_option (\<lambda>(boundaries, decoded).
             \<lparr>sv_content = content, sv_boundaries = boundaries @ [(snd content, length decoded)], sv_decoded = decoded\<rparr>)
           (string_value_loop raw (fst content) 0 [] [])))"

text \<open>\<^verbatim>\<open>binary_search_by_key\<close> on offsets that strictly increase finds the one entry with the key.\<close>

definition decoded_offset :: "string_value \<Rightarrow> nat \<Rightarrow> nat option" where
  "decoded_offset v stored = map_of (sv_boundaries v) stored"

text \<open>
  The stack of \<^verbatim>\<open>string_values\<close>, its top first. An entry of a decoded document refers only to entries before
  it, so the guard that lets the loop end never drops one.
\<close>

definition child_ids :: "document \<Rightarrow> nat \<Rightarrow> nat list" where
  "child_ids d i =
     (case value_node d i of
        NArray ids \<Rightarrow> ids
      | NObject ms \<Rightarrow> map snd ms
      | _ \<Rightarrow> [])"

function string_values_loop :: "document \<Rightarrow> nat list \<Rightarrow> (nat, nat \<times> nat) btree \<Rightarrow> (nat, nat \<times> nat) btree" where
  "string_values_loop d [] strings = strings"
| "string_values_loop d (i # pending) strings =
     string_values_loop d (rev (filter (\<lambda>j. j < i) (child_ids d i)) @ pending)
       (case value_node d i of
          NString _ \<Rightarrow> btree_insert (fst (byte_range d i) + 1) (fst (byte_range d i) + 1, snd (byte_range d i) - 1) strings
        | _ \<Rightarrow> strings)"
  by pat_completeness auto
termination
proof (relation "inv_image (mult less_than) (\<lambda>(d, pending, _). mset pending)")
  fix d i pending and strings :: "(nat, nat \<times> nat) btree"
  have "(mset pending + mset (filter (\<lambda>j. j < i) (child_ids d i)), mset pending + {#i#}) \<in> mult less_than"
    by (rule one_step_implies_mult) auto
  then show "((d, rev (filter (\<lambda>j. j < i) (child_ids d i)) @ pending, case value_node d i of
          NString _ \<Rightarrow> btree_insert (fst (byte_range d i) + 1) (fst (byte_range d i) + 1, snd (byte_range d i) - 1) strings
        | _ \<Rightarrow> strings), d, i # pending, strings) \<in> inv_image (mult less_than) (\<lambda>(d, pending, _). mset pending)"
    by (simp add: union_commute)
qed (simp add: wf_mult)

declare string_values_loop.simps [simp del]

definition string_values :: "document \<Rightarrow> (nat, nat \<times> nat) btree" where
  "string_values d = string_values_loop d [doc_root d] []"

section \<open>Outputs a run may cite\<close>

record 'v draw_output =
  do_reasoning :: string
  do_text :: string
  do_calls :: "'v list"

record 'v model_outputs =
  mo_generations :: "(string, generation) btree"
  mo_draws :: "(string, 'v draw_output) btree"

definition pointed :: "'v serde \<Rightarrow> 'v \<Rightarrow> string \<Rightarrow> string option" where
  "pointed sj arguments pointer = Option.bind (sj_pointer sj arguments pointer) (sj_as_str sj)"

definition served_text :: "'v serde \<Rightarrow> 'v \<Rightarrow> string option" where
  "served_text sj call =
     (if sj_get sj call ''args'' \<noteq> None then None
      else Option.bind (sj_get sj call ''arguments'') (sj_as_str sj))"

definition served_value :: "'v serde \<Rightarrow> 'v \<Rightarrow> (string \<times> 'v) list option" where
  "served_value sj call =
     Option.bind (served_text sj call) (\<lambda>served.
     Option.bind (sj_from_str sj served) (sj_as_object sj))"

definition strip_prefix :: "string \<Rightarrow> string \<Rightarrow> string option" where
  "strip_prefix p s = (if take (length p) s = p then Some (drop (length p) s) else None)"

text \<open>\<^verbatim>\<open>str::parse::<usize>()\<close>: an optional plus sign, then decimal digits that fit 64 bits.\<close>

definition parse_usize :: "string \<Rightarrow> nat option" where
  "parse_usize s =
     (let digits = (case s of c # cs \<Rightarrow> if c = CHR ''+'' then cs else s | [] \<Rightarrow> [])
      in if digits \<noteq> [] \<and> list_all is_ascii_digit digits \<and> nat_of_digits digits < 2 ^ 64
         then Some (nat_of_digits digits) else None)"

definition call_field :: "string \<Rightarrow> (nat \<times> string) option" where
  "call_field name =
     Option.bind (strip_prefix ''/calls/'' name) (\<lambda>rest.
       if CHR ''/'' \<notin> set rest then None
       else let index = takeWhile (\<lambda>c. c \<noteq> CHR ''/'') rest; tail = dropWhile (\<lambda>c. c \<noteq> CHR ''/'') rest in
         if index = [] \<or> (1 < length index \<and> hd index = CHR ''0'') then None
         else Option.bind (parse_usize index) (\<lambda>n. Some (n, tail)))"

definition argument_field :: "'v serde \<Rightarrow> string \<Rightarrow> string \<Rightarrow> string option" where
  "argument_field sj served rest =
     Option.bind (strip_prefix ''/args'' rest) (\<lambda>pointer.
     Option.bind (sj_from_str sj served) (\<lambda>arguments. pointed sj arguments pointer))"

definition generation_field :: "'v serde \<Rightarrow> generation \<Rightarrow> string \<Rightarrow> string option" where
  "generation_field sj g name =
     (if name = ''/reasoning'' then Some (shown_reasoning g)
      else if name = ''/text'' then Some (shown_text g)
      else Option.bind (call_field name) (\<lambda>(index, rest).
           Option.bind (get_at (gn_calls g) index) (\<lambda>call.
             if rest = ''/name'' then cl_name call
             else if rest = ''/arguments'' then Some (cl_arguments call)
             else argument_field sj (cl_arguments call) rest)))"

definition draw_field :: "'v serde \<Rightarrow> 'v draw_output \<Rightarrow> string \<Rightarrow> string option" where
  "draw_field sj draw name =
     (if name = ''/reasoning'' then Some (do_reasoning draw)
      else if name = ''/text'' then Some (do_text draw)
      else Option.bind (call_field name) (\<lambda>(index, rest).
           Option.bind (get_at (do_calls draw) index) (\<lambda>call.
             if rest = ''/name'' then Option.bind (sj_get sj call ''name'') (sj_as_str sj)
             else Option.bind (served_text sj call) (\<lambda>served.
               if rest = ''/arguments'' then Some served else argument_field sj served rest))))"

definition output_field :: "'v serde \<Rightarrow> 'v model_outputs \<Rightarrow> string \<Rightarrow> string \<Rightarrow> string \<Rightarrow> string contract_result" where
  "output_field sj outputs kind ident name =
     (let missing = Fault (InvalidRecord (AuthorshipCites kind ident name)) in
      if kind = ''generation'' then
        ok_or (Option.bind (btree_get (mo_generations outputs) ident) (\<lambda>g. generation_field sj g name)) missing
      else if kind = ''compaction_draw'' then
        ok_or (Option.bind (btree_get (mo_draws outputs) ident) (\<lambda>draw. draw_field sj draw name)) missing
      else Err (authorship_refusal ''cites an unknown kind of model output''))"

section \<open>The check of a body\<close>

record citation =
  ct_stored :: nat
  ct_string :: nat
  ct_place :: nat
  ct_kind :: string
  ct_id :: string
  ct_field :: string
  ct_from :: nat
  ct_to :: nat

fun message_segments :: "nat \<Rightarrow> jvalue list \<Rightarrow> nat \<Rightarrow> nat \<Rightarrow> nat \<Rightarrow> nat list \<Rightarrow> segment list contract_result" where
  "message_segments line tables first index pos [] = Ok []"
| "message_segments line tables first index pos (len # messages) =
     bindR (if first \<le> index then
              bindR (ok_or (get_at tables (index - first)) ContractPanic) (\<lambda>table.
              bindR (read_runs table line) (\<lambda>runs. Ok [\<lparr>sg_start = pos, sg_len = len, sg_runs = runs\<rparr>]))
            else Ok []) (\<lambda>segments.
     bindR (message_segments line tables first (index + 1) (pos + len + 1) messages) (\<lambda>others.
       Ok (segments @ others)))"

definition delta_segments :: "jvalue \<Rightarrow> jvalue \<Rightarrow> string \<Rightarrow> nat list \<Rightarrow> nat \<Rightarrow> segment list contract_result" where
  "delta_segments body authors json messages line =
     bindR (text_field body ''prefix'' line) (\<lambda>prefix.
     bindR (text_field body ''suffix'' line) (\<lambda>suffix.
     bindR (field body ''added_messages'' line) (\<lambda>v.
     let added = (case elements v of Some items \<Rightarrow> length items | None \<Rightarrow> 0) in
     bindR (field authors ''added_messages'' line) (\<lambda>v.
     bindR (ok_or (elements v) (authorship_refusal ''lists its added messages' runs in something other than an array'')) (\<lambda>tables.
       if length tables \<noteq> added \<or> length messages < added
       then Err (authorship_refusal ''does not give one table to every message the record adds'')
       else
         bindR (field authors ''prefix'' line) (\<lambda>v.
         bindR (read_runs v line) (\<lambda>runs.
         bindR (message_segments line tables (length messages - added) 0 (length prefix) messages) (\<lambda>segments.
         bindR (if length suffix \<le> length json then Ok () else Err ContractPanic) (\<lambda>_.
         bindR (field authors ''suffix'' line) (\<lambda>v.
         bindR (read_runs v line) (\<lambda>suffix_runs.
           Ok ([\<lparr>sg_start = 0, sg_len = length prefix, sg_runs = runs\<rparr>] @ segments
             @ [\<lparr>sg_start = length json - length suffix, sg_len = length suffix, sg_runs = suffix_runs\<rparr>]))))))))))))"

definition body_segments :: "jvalue \<Rightarrow> string \<Rightarrow> nat list \<Rightarrow> nat \<Rightarrow> segment list contract_result" where
  "body_segments body json messages line =
     bindR (field body ''authors'' line) (\<lambda>authors.
     bindR (text_field body ''kind'' line) (\<lambda>kind.
       if kind = ''full'' then
         bindR (read_runs authors line) (\<lambda>runs. Ok [\<lparr>sg_start = 0, sg_len = length json, sg_runs = runs\<rparr>])
       else if kind = ''delta'' then delta_segments body authors json messages line
       else Err (authorship_refusal ''belongs to an unknown body representation'')))"

record check_state =
  ck_decoded :: "(nat, string_value) btree"
  ck_citations :: "citation list"
  ck_pos :: nat
  ck_previous :: "(claim \<times> nat) option"

abbreviation outside_refusal :: contract_fault where
  "outside_refusal \<equiv> authorship_refusal ''attributes bytes outside a string value to an author other than the harness''"

abbreviation adjacent_refusal :: contract_fault where
  "adjacent_refusal \<equiv> authorship_refusal ''splits one author's bytes into adjacent runs''"

text \<open>\<^verbatim>\<open>strings.range(..=start).next_back()\<close>\<close>

definition last_up_to :: "('k::linorder, 'v) btree \<Rightarrow> 'k \<Rightarrow> ('k \<times> 'v) option" where
  "last_up_to m k = (let xs = filter (\<lambda>(k', _). k' \<le> k) m in if xs = [] then None else Some (last xs))"

text \<open>The decoded string value of a content, read at most once.\<close>

definition cached_value :: "string \<Rightarrow> (nat, string_value) btree \<Rightarrow> nat \<Rightarrow> nat \<times> nat
    \<Rightarrow> ((nat, string_value) btree \<times> string_value) contract_result" where
  "cached_value json decoded content_start content =
     bindR (if btree_get decoded content_start \<noteq> None then Ok decoded
            else bindR (string_value_read json content) (\<lambda>found.
                 bindR (ok_or found (authorship_refusal ''covers a string value it cannot decode'')) (\<lambda>v.
                   Ok (btree_insert content_start v decoded)))) (\<lambda>decoded.
     bindR (ok_or (btree_get decoded content_start) ContractPanic) (\<lambda>v. Ok (decoded, v)))"

text \<open>The decoded text of a run, the string value it lies in and where it starts there.\<close>

definition place_run :: "string \<Rightarrow> (nat, nat \<times> nat) btree \<Rightarrow> (nat, string_value) btree \<Rightarrow> nat \<Rightarrow> nat
    \<Rightarrow> ((nat, string_value) btree \<times> string \<times> nat \<times> nat) contract_result" where
  "place_run json strings decoded start stop =
     bindR (ok_or (last_up_to strings start) outside_refusal) (\<lambda>(content_start, content).
       if snd content < stop then Err outside_refusal
       else
         bindR (cached_value json decoded content_start content) (\<lambda>(decoded, v).
         bindR (ok_or (decoded_offset v start) (authorship_refusal ''starts or ends a run inside a character'')) (\<lambda>from.
         bindR (ok_or (decoded_offset v stop) (authorship_refusal ''starts or ends a run inside a character'')) (\<lambda>til.
         bindR (ok_or (get_range (sv_decoded v) from til) ContractPanic) (\<lambda>written.
           Ok (decoded, written, content_start, from))))))"

definition contiguous :: "(claim \<times> nat) option \<Rightarrow> claim \<Rightarrow> u64 \<Rightarrow> bool" where
  "contiguous previous claim offset =
     (case previous of
        None \<Rightarrow> False
      | Some (before, len) \<Rightarrow>
          (case (before, claim) of
             (Operator o', Operator _) \<Rightarrow> o' + word_of_nat len = offset
           | (ModelClaim kind ident name o', ModelClaim k i f _) \<Rightarrow>
               kind = k \<and> ident = i \<and> name = f \<and> o' + word_of_nat len = offset
           | _ \<Rightarrow> False))"

text \<open>What the claim of a run that is not the harness's must satisfy, and the citation it gives.\<close>

definition check_claim :: "'v serde \<Rightarrow> 'v model_outputs \<Rightarrow> string \<Rightarrow> (claim \<times> nat) option \<Rightarrow> claim \<Rightarrow> string \<Rightarrow> nat \<Rightarrow> nat \<Rightarrow> nat
    \<Rightarrow> citation list contract_result" where
  "check_claim sj outputs operator previous claim written start str place =
     (case claim of
        Harness \<Rightarrow> Err ContractPanic
      | World \<Rightarrow>
          if (case previous of Some (World, _) \<Rightarrow> True | _ \<Rightarrow> False) then Err adjacent_refusal else Ok []
      | Operator offset \<Rightarrow>
          if contiguous previous claim offset then Err adjacent_refusal
          else if get_range operator (unat offset) (unat offset + length written) \<noteq> Some written
          then Err (Fault (InvalidRecord (AuthorshipOperator (length written) offset)))
          else Ok []
      | ModelClaim kind ident name offset \<Rightarrow>
          if contiguous previous claim offset then Err adjacent_refusal
          else bindR (output_field sj outputs kind ident name) (\<lambda>source.
            if get_range source (unat offset) (unat offset + length written) \<noteq> Some written
            then Err (Fault (InvalidRecord (AuthorshipModel (length written) kind ident name offset)))
            else Ok [\<lparr>ct_stored = start, ct_string = str, ct_place = place, ct_kind = kind, ct_id = ident, ct_field = name,
                      ct_from = unat offset, ct_to = unat offset + length written\<rparr>]))"

definition check_run :: "'v serde \<Rightarrow> 'v model_outputs \<Rightarrow> string \<Rightarrow> string \<Rightarrow> (nat, nat \<times> nat) btree \<Rightarrow> nat \<Rightarrow> check_state \<Rightarrow> run
    \<Rightarrow> check_state contract_result" where
  "check_run sj outputs operator json strings limit s run =
     bindR (ok_or (case checked_add_usize (ck_pos s) (rn_bytes run) of
                     Some stop \<Rightarrow> if stop \<le> limit then Some stop else None | None \<Rightarrow> None)
              (authorship_refusal ''has runs that reach past the bytes they describe'')) (\<lambda>stop.
       if rn_claim run = Harness then
         if (case ck_previous s of Some (Harness, _) \<Rightarrow> True | _ \<Rightarrow> False) then Err adjacent_refusal
         else Ok (s\<lparr>ck_pos := stop, ck_previous := Some (Harness, 0)\<rparr>)
       else
         bindR (place_run json strings (ck_decoded s) (ck_pos s) stop) (\<lambda>(decoded, written, str, place).
         bindR (check_claim sj outputs operator (ck_previous s) (rn_claim run) written (ck_pos s) str place) (\<lambda>citations.
           Ok \<lparr>ck_decoded = decoded, ck_citations = ck_citations s @ citations, ck_pos = stop,
               ck_previous = Some (rn_claim run, length written)\<rparr>)))"

definition check_segment :: "'v serde \<Rightarrow> 'v model_outputs \<Rightarrow> string \<Rightarrow> string \<Rightarrow> (nat, nat \<times> nat) btree \<Rightarrow> check_state \<Rightarrow> segment
    \<Rightarrow> check_state contract_result" where
  "check_segment sj outputs operator json strings s segment =
     bindR (foldR (check_run sj outputs operator json strings (sg_start segment + sg_len segment))
              (s\<lparr>ck_pos := sg_start segment, ck_previous := None\<rparr>) (sg_runs segment)) (\<lambda>s.
       if ck_pos s \<noteq> sg_start segment + sg_len segment
       then Err (Fault (InvalidRecord (AuthorshipUncovered (ck_pos s) (sg_start segment + sg_len segment))))
       else Ok s)"

definition check :: "'v serde \<Rightarrow> jvalue \<Rightarrow> string \<Rightarrow> document \<Rightarrow> nat list \<Rightarrow> 'v model_outputs \<Rightarrow> string \<Rightarrow> nat \<Rightarrow> citation list contract_result" where
  "check sj body json document messages outputs operator line =
     bindR (body_segments body json messages line) (\<lambda>segments.
       map_ok ck_citations (foldR (check_segment sj outputs operator json (string_values document))
         \<lparr>ck_decoded = [], ck_citations = [], ck_pos = 0, ck_previous = None\<rparr> segments))"

fun spans_chain :: "nat \<Rightarrow> (nat \<times> nat) list \<Rightarrow> nat option" where
  "spans_chain pos [] = Some pos"
| "spans_chain pos ((from, til) # spans) = (if from \<noteq> pos then None else spans_chain til spans)"

definition copies_in_full :: "citation list \<Rightarrow> string \<Rightarrow> string \<Rightarrow> string \<Rightarrow> string \<Rightarrow> bool" where
  "copies_in_full citations kind ident name text =
     (spans_chain 0 (sort (map (\<lambda>c. (ct_from c, ct_to c))
        (filter (\<lambda>c. ct_kind c = kind \<and> ct_id c = ident \<and> ct_field c = name) citations))) = Some (length text))"

section \<open>A string value decodes as the document did\<close>

lemma utf8_head_take: "utf8_head s = Some k \<Longrightarrow> k \<le> n \<Longrightarrow> utf8_head (take n s) = Some k"
proof -
  assume k: "utf8_head s = Some k" and "k \<le> n"
  have "utf8_head (take k s) = Some k"
    using k by (cases s) (auto simp: Let_def split: if_splits list.splits)
  then have "utf8_head (take k s @ drop k (take n s)) = Some k" by (rule utf8_head_append)
  moreover have "take k s @ drop k (take n s) = take n s"
    using \<open>k \<le> n\<close> by (metis append_take_drop_id min.absorb1 take_take)
  ultimately show ?thesis by simp
qed

text \<open>Cutting valid text before an ASCII byte leaves valid text.\<close>

lemma utf8_head_continuation: "utf8_head (c # cs) = Some k \<Longrightarrow> list_all is_continuation (take (k - 1) cs)"
  by (auto simp: Let_def split: if_splits list.splits)

lemma utf8_head_before_ascii:
  assumes "utf8_head s = Some k" and "n < length s" and "byte (s ! n) < 128" and "0 < n"
  shows "k \<le> n"
proof (rule ccontr)
  assume "\<not> k \<le> n"
  obtain c cs m where s: "s = c # cs" "n = Suc m" using assms by (cases s; cases n) auto
  with \<open>\<not> k \<le> n\<close> assms(2) have "m < length (take (k - 1) cs)" by auto
  moreover have "list_all is_continuation (take (k - 1) cs)" using assms(1) s utf8_head_continuation by blast
  ultimately have "is_continuation (cs ! m)" by (simp add: list_all_length)
  then show False using assms(3) s by (simp add: is_continuation_def)
qed

lemma utf8_valid_take_ascii:
  "utf8_valid s \<Longrightarrow> n < length s \<Longrightarrow> byte (s ! n) < 128 \<Longrightarrow> utf8_valid (take n s)"
proof (induction "length s" arbitrary: s n rule: less_induct)
  case less
  show ?case
  proof (cases "n = 0")
    case False
    obtain k where k: "utf8_head s = Some k" "utf8_valid (drop k s)"
      using less.prems utf8_valid_head [of s] by fastforce
    have kn: "k \<le> n" using utf8_head_before_ascii [OF k(1)] less.prems False by simp
    have "utf8_valid (take (n - k) (drop k s))"
      using less.hyps [of "drop k s" "n - k"] k less.prems kn utf8_head_bounds [OF k(1)] by simp
    then have "utf8_valid (drop k (take n s))" by (simp add: drop_take)
    moreover have "utf8_head (take n s) = Some k" using utf8_head_take [OF k(1) kn] .
    ultimately show ?thesis by (subst utf8_valid_iff_head) blast
  qed simp
qed

text \<open>The escapes of the two decoders read the same bytes, as long as they end inside the token.\<close>

lemma get_range_slice:
  assumes "st \<le> i" and "i \<le> j" and "j \<le> stop" and "stop \<le> length s"
  shows "get_range (slice s st stop) (i - st) (j - st) = Some (slice s i j)"
  using assms by (auto simp: get_range_def slice_def drop_take min_def)

lemma hex_digit_not_plus: "hex_digit c = Some d \<Longrightarrow> c \<noteq> CHR ''+'' \<and> byte c < 128"
  by (auto simp: hex_digit_def Let_def byte_def split: if_splits)

lemma hex_unit_loop_digits:
  "hex_unit_loop n s pos v = Ok (w, pos') \<Longrightarrow> pos \<le> length s \<Longrightarrow> pos + n \<le> length s \<and> hex_digits v (slice s pos (pos + n)) = Some w
     \<and> list_all (\<lambda>c. \<exists>d. hex_digit c = Some d) (slice s pos (pos + n))"
proof (induction n arbitrary: pos v)
  case (Suc n)
  then obtain d where d: "pos < length s" "hex_digit (s ! pos) = Some d" "hex_unit_loop n s (pos + 1) (v * 16 + d) = Ok (w, pos')"
    by (auto simp: parse_fail_def split: option.splits)
  have "slice s pos (pos + Suc n) = s ! pos # slice s (pos + 1) (pos + 1 + n)"
    using d(1) by (simp add: slice_def Cons_nth_drop_Suc [symmetric])
  with Suc.IH [OF d(3)] d show ?case by (simp add: Suc_le_eq)
qed (simp add: slice_def)

lemma hex_at_slice:
  assumes "hex_unit s pos = Ok (w, pos')" and "st \<le> pos" and "pos + 4 \<le> stop" and "stop \<le> length s"
  shows "hex_at (slice s st stop) (pos - st) = Some w"
proof -
  let ?d = "slice s pos (pos + 4)"
  have digits: "hex_digits 0 ?d = Some w" "list_all (\<lambda>c. \<exists>d. hex_digit c = Some d) ?d" and len: "pos + 4 \<le> length s"
    using hex_unit_loop_digits [of 4 s pos 0 w pos'] assms by (simp_all add: hex_unit_def)
  then have "utf8_valid ?d" by (intro ascii_valid) (auto simp: list_all_iff dest: hex_digit_not_plus)
  moreover have "from_str_radix_16 ?d = Some w"
  proof (cases ?d)
    case Nil
    then show ?thesis using len by (metis length_slice diff_add_inverse list.size(3) zero_neq_numeral)
  next
    case (Cons c cs)
    then have "c \<noteq> CHR ''+''" using digits(2) hex_digit_not_plus by auto
    with Cons digits(1) show ?thesis by (simp add: from_str_radix_16_def)
  qed
  moreover have "get_range (slice s st stop) (pos - st) (pos - st + 4) = Some ?d"
    using get_range_slice [of st pos "pos + 4" stop s] assms by simp
  ultimately show ?thesis by (simp add: hex_at_def)
qed

lemma escaped_unicode_slice:
  assumes esc: "unicode_escape s (pos + 2) = Ok (scalar, pos')" and sc: "is_scalar scalar" and st: "st \<le> pos" "pos' \<le> stop" "stop \<le> length s"
  shows "escaped_unicode (slice s st stop) (pos - st) = Some (utf8_encode scalar, pos' - pos)"
proof -
  obtain first mid where mid: "hex_unit s (pos + 2) = Ok (first, mid)" "unicode_scalar s first mid = Ok (scalar, pos')"
    using esc by (auto simp: unicode_escape_def)
  then have first: "hex_unit s (pos + 2) = Ok (first, pos + 6)" "unicode_scalar s first (pos + 6) = Ok (scalar, pos')"
    using hex_unit_advances [OF mid(1)] by (simp_all add: add.commute)
  have le: "pos + 6 \<le> pos'"
    using first(2) by (auto simp: unicode_scalar_def parse_fail_def dest!: hex_unit_advances split: if_splits)
  have one: "hex_at (slice s st stop) (pos - st + 2) = Some first"
    using hex_at_slice [OF first(1), of st stop] st le by (simp add: Suc_diff_le)
  show ?thesis
  proof (cases "55296 \<le> first \<and> first \<le> 56319")
    case True
    then obtain second where second: "starts_with (drop (pos + 6) s) [CHR 0x5C, CHR ''u'']" "hex_unit s (pos + 8) = Ok (second, pos')"
        "56320 \<le> second" "second \<le> 57343" "scalar = 65536 + (first - 55296) * 1024 + second - 56320"
      using first(2) by (auto simp: unicode_scalar_def parse_fail_def str_from_def add.commute split: if_splits)
    then have pos': "pos' = pos + 12" using hex_unit_advances by fastforce
    have two: "hex_at (slice s st stop) (pos - st + 8) = Some second"
      using hex_at_slice [OF second(2), of st stop] st pos' by simp
    have "slice s (pos + 6) (pos + 8) = [CHR 0x5C, CHR ''u'']"
      using second(1) by (simp add: starts_with_def slice_def numeral_2_eq_2)
    then have "get_range (slice s st stop) (pos - st + 6) (pos - st + 8) = Some [CHR 0x5C, CHR ''u'']"
      using get_range_slice [of st "pos + 6" "pos + 8" stop s] st pos' by simp
    with True one two second sc pos' show ?thesis by (simp add: escaped_unicode_def char_from_u32_def)
  next
    case False
    then have "scalar = first" "pos' = pos + 6" using first(2) by (auto simp: unicode_scalar_def parse_fail_def split: if_splits)
    with False one sc show ?thesis by (auto simp: escaped_unicode_def char_from_u32_def)
  qed
qed

lemma stored_char_slice:
  assumes char: "string_char s pos = Ok (bs, pos')" and ok: "suffix_ok s pos"
    and st: "st \<le> pos" "pos' \<le> stop" "stop < length s" "byte (s ! stop) < 128"
  shows "stored_char (slice s st stop) (pos - st) = Some (bs, pos' - pos)"
proof -
  let ?raw = "slice s st stop"
  have pos: "pos < pos'" using string_char_advances [OF char] .
  have raw: "?raw ! (i - st) = s ! i" "i - st < length ?raw" if "st \<le> i" "i < stop" for i
    using that st by (auto simp: slice_def)
  have c: "?raw ! (pos - st) = s ! pos" using raw(1) [of pos] pos st by simp
  show ?thesis
  proof (cases "s ! pos = CHR 0x5C")
    case True
    then obtain d where d: "pos + 1 < length s" "s ! (pos + 1) = d" "if d = CHR ''u'' then \<exists>scalar. unicode_escape s (pos + 2) = Ok (scalar, pos') \<and> is_scalar scalar \<and> bs = utf8_encode scalar
        else \<exists>n. simple_escape d = Some n \<and> bs = utf8_encode n \<and> pos' = pos + 2"
      using char string_char_in_range [OF char] by (auto simp: string_char_def parse_fail_def split: option.splits if_splits)
    then have "pos + 2 \<le> pos'" by (auto dest: unicode_escape_advances split: if_splits)
    then have "get_at ?raw (pos - st + 1) = Some d" using raw [of "pos + 1"] d(2) st by (simp add: Suc_diff_le)
    then show ?thesis using c True d(3) escaped_unicode_slice [of s pos _ pos' st stop] st
      by (auto simp: stored_char_def split: if_splits)
  next
    case False
    obtain k where k: "utf8_head (drop pos s) = Some k" "bs = take k (drop pos s)" "pos' = pos + k"
      using char False string_char_in_range [OF char] str_from_ok [OF ok]
      by (auto simp: string_char_def parse_fail_def split: option.splits if_splits)
    have rest: "drop (pos - st) ?raw = take (stop - pos) (drop pos s)" using st pos by (simp add: slice_def drop_take)
    have "utf8_valid (take (stop - pos) (drop pos s))"
      using ok st pos by (intro utf8_valid_take_ascii) (auto simp: suffix_ok_def)
    then show ?thesis
      using c False rest k st utf8_head_take [OF k(1), of "stop - pos"] by (simp add: stored_char_def min_def)
  qed
qed

text \<open>Offsets of characters: strictly increasing in the stored bytes, and never decreasing in the decoded text.\<close>

definition boundaries_ok :: "(nat \<times> nat) list \<Rightarrow> bool" where
  "boundaries_ok bs \<longleftrightarrow> sorted_wrt (\<lambda>(a, b) (a', b'). a < a' \<and> b \<le> b') bs"

lemma string_loop_stored:
  assumes "string_loop s pos decoded = Ok (t, stop')" and "suffix_ok s pos" and "st \<le> pos" and "stop' = Suc stop"
  shows "pos \<le> stop \<and> stop < length s \<and> s ! stop = CHR 0x22 \<and> (\<exists>bs'. string_value_loop (slice s st stop) st (pos - st) bs decoded = Some (bs @ bs', t)
     \<and> boundaries_ok (bs' @ [(stop, length t)]) \<and> (\<forall>(a, b) \<in> set (bs' @ [(stop, length t)]). pos \<le> a \<and> a \<le> stop \<and> length decoded \<le> b \<and> b \<le> length t))"
  using assms
proof (induction s pos decoded arbitrary: bs rule: string_loop.induct)
  case (1 s pos decoded)
  show ?case
  proof (cases "get_at s pos = Some CHR 0x22")
    case True
    then have "t = decoded" "stop = pos" using "1.prems"(1,4) by (auto simp: string_loop.simps [of s pos])
    then show ?thesis
      using True "1.prems"(3) string_value_loop.simps [of "slice s st pos" st "pos - st" bs decoded]
      by (intro conjI exI [of _ "[]"]) (auto simp: boundaries_ok_def)
  next
    case False
    then obtain b pos' where c: "string_char s pos = Ok (b, pos')" and loop: "string_loop s pos' (decoded @ b) = Ok (t, stop')"
      using "1.prems"(1) by (auto simp: string_loop.simps [of s pos] split: result.splits)
    have ok': "suffix_ok s pos'" using string_char_safe [OF "1.prems"(2)] c by simp
    have pos: "pos < pos'" using string_char_advances [OF c] .
    note IH = "1.IH" [OF False c refl loop ok' _ "1.prems"(4), of "bs @ [(st + (pos - st), length decoded)]"]
    have later: "pos' \<le> stop" "stop < length s" "s ! stop = CHR 0x22" using IH pos "1.prems"(3) by auto
    obtain bs' where bs': "string_value_loop (slice s st stop) st (pos' - st) (bs @ [(pos, length decoded)]) (decoded @ b) = Some ((bs @ [(pos, length decoded)]) @ bs', t)"
        "boundaries_ok (bs' @ [(stop, length t)])"
        "\<forall>(a, d) \<in> set (bs' @ [(stop, length t)]). pos' \<le> a \<and> a \<le> stop \<and> length (decoded @ b) \<le> d \<and> d \<le> length t"
      using IH pos "1.prems"(3) by auto
    have "byte (s ! stop) < 128" using later(3) by (simp add: byte_def)
    then have "stored_char (slice s st stop) (pos - st) = Some (b, pos' - pos)"
      using stored_char_slice [OF c "1.prems"(2,3) later(1,2)] by blast
    moreover have "pos - st < length (slice s st stop)" using pos later "1.prems"(3) by (simp add: slice_def)
    ultimately have "string_value_loop (slice s st stop) st (pos - st) bs decoded =
        string_value_loop (slice s st stop) st (pos' - st) (bs @ [(pos, length decoded)]) (decoded @ b)"
      using pos "1.prems"(3) by (simp add: string_value_loop.simps [of "slice s st stop" st "pos - st"])
    then show ?thesis
      using bs' later pos by (intro conjI exI [of _ "(pos, length decoded) # bs'"]) (fastforce simp: boundaries_ok_def)+
  qed
qed

lemma string_value_read_token:
  assumes "parse_string s p = Ok (t, e)" and "suffix_ok s p" and "get_at s p = Some CHR 0x22"
  shows "\<exists>v. string_value_read s (p + 1, e - 1) = Ok (Some v) \<and> sv_decoded v = t \<and> boundaries_ok (sv_boundaries v)
    \<and> sv_content v = (p + 1, e - 1) \<and> (\<forall>(a, b) \<in> set (sv_boundaries v). p + 1 \<le> a \<and> a \<le> e - 1 \<and> b \<le> length t)
    \<and> p + 1 \<le> e - 1 \<and> e - 1 < length s"
proof -
  have "suffix_ok s (Suc p)" using assms(2,3) by (intro suffix_ok_get_at) (auto simp: byte_def)
  moreover have "p < e" using assms(1) parse_string_advances by blast
  then obtain stop where e: "e = Suc stop" by (cases e) auto
  ultimately obtain bs' where loop: "string_value_loop (slice s (p + 1) stop) (p + 1) 0 [] [] = Some (bs', t)"
      "boundaries_ok (bs' @ [(stop, length t)])"
      "\<forall>(a, b) \<in> set (bs' @ [(stop, length t)]). p + 1 \<le> a \<and> a \<le> stop \<and> b \<le> length t"
      and stop: "p + 1 \<le> stop" "stop < length s"
    using string_loop_stored [of s "p + 1" "[]" t e "p + 1" stop "[]"] assms(1) by (auto simp: parse_string_def)
  then show ?thesis by (auto simp: string_value_read_def get_range_def e)
qed



section \<open>Authored bytes\<close>

text \<open>A string value of the document: its text and the span of its token.\<close>

definition value_string :: "document \<Rightarrow> nat \<Rightarrow> nat \<Rightarrow> string \<Rightarrow> bool" where
  "value_string d a e t \<longleftrightarrow> (\<exists>i < length (doc_entries d). value_node d i = NString t \<and> byte_range d i = (a, e))"

lemma value_string_token:
  assumes "document_decode json lims = Ok d" and "value_string d a e t"
  shows "parse_string json a = Ok (t, e)" and "suffix_ok json a" and "get_at json a = Some CHR 0x22"
proof -
  obtain i where i: "i < length (doc_entries d)" "value_node d i = NString t" "byte_range d i = (a, e)"
    using assms(2) by (auto simp: value_string_def)
  have "document_ok lims d" using document_decode_safe [of lims json] assms(1) by simp
  then have "entry_ok json i (doc_entries d ! i)"
    using i(1) document_decode_source [OF assms(1)] by (simp add: document_ok_def entries_ok_def)
  then show "parse_string json a = Ok (t, e)" and "suffix_ok json a" and "get_at json a = Some CHR 0x22"
    using i(2,3) by (auto simp: entry_ok_def byte_range_def value_node_def)
qed

lemma string_values_loop_strings:
  assumes "list_all (\<lambda>i. i < length (doc_entries d)) pending"
    and "\<forall>(k, c) \<in> set strings. \<exists>a e t. value_string d a e t \<and> k = a + 1 \<and> c = (a + 1, e - 1)"
  shows "\<forall>(k, c) \<in> set (string_values_loop d pending strings). \<exists>a e t. value_string d a e t \<and> k = a + 1 \<and> c = (a + 1, e - 1)"
  using assms
proof (induction d pending strings rule: string_values_loop.induct)
  case (2 d i pending strings)
  let ?strings = "case value_node d i of
          NString _ \<Rightarrow> btree_insert (fst (byte_range d i) + 1) (fst (byte_range d i) + 1, snd (byte_range d i) - 1) strings
        | _ \<Rightarrow> strings"
  have i: "i < length (doc_entries d)" using "2.prems"(1) by simp
  have "\<exists>a e t. value_string d a e t \<and> k = a + 1 \<and> c = (a + 1, e - 1)" if kc: "(k, c) \<in> set ?strings" for k c
  proof (cases "(k, c) \<in> set strings")
    case True
    then show ?thesis using "2.prems"(2) by auto
  next
    case False
    then obtain t where t: "value_node d i = NString t" "(k, c) = (fst (byte_range d i) + 1, (fst (byte_range d i) + 1, snd (byte_range d i) - 1))"
      using kc by (cases "value_node d i") (auto dest!: btree_insert_set)
    then have "value_string d (fst (byte_range d i)) (snd (byte_range d i)) t" using i by (auto simp: value_string_def)
    then show ?thesis using t(2) by auto
  qed
  moreover have "list_all (\<lambda>i. i < length (doc_entries d)) (rev (filter (\<lambda>j. j < i) (child_ids d i)) @ pending)"
    using i "2.prems"(1) by (auto simp: list_all_iff)
  ultimately show ?case
    unfolding string_values_loop.simps(2) using "2.IH" by blast
qed (simp add: string_values_loop.simps)

lemma string_values_strings:
  assumes "document_decode json lims = Ok d" and "(k, c) \<in> set (string_values d)"
  shows "\<exists>a e t. value_string d a e t \<and> k = a + 1 \<and> c = (a + 1, e - 1)"
proof -
  have "document_ok lims d" using document_decode_safe [of lims json] assms(1) by simp
  then have "doc_root d \<in># mset [0..<length (doc_entries d)]" by (metis document_ok_def union_single_eq_member)
  then have "list_all (\<lambda>i. i < length (doc_entries d)) [doc_root d]" by simp
  then show ?thesis using string_values_loop_strings [of d "[doc_root d]" "[]"] assms(2) by (fastforce simp: string_values_def)
qed

text \<open>What a run claims of the decoded text it stands for.\<close>

definition claim_true :: "'v serde \<Rightarrow> 'v model_outputs \<Rightarrow> string \<Rightarrow> claim \<Rightarrow> string \<Rightarrow> bool" where
  "claim_true sj outputs operator claim written =
     (case claim of
        Operator offset \<Rightarrow> get_range operator (unat offset) (unat offset + length written) = Some written
      | ModelClaim kind ident name offset \<Rightarrow>
          (\<exists>source. output_field sj outputs kind ident name = Ok source
             \<and> get_range source (unat offset) (unat offset + length written) = Some written)
      | _ \<Rightarrow> True)"

text \<open>
  A run other than the harness's stands inside the content of one string value, from one character boundary
  to another, and its claim holds of the text decoded between them.
\<close>

definition authored :: "'v serde \<Rightarrow> 'v model_outputs \<Rightarrow> string \<Rightarrow> string \<Rightarrow> document \<Rightarrow> nat \<Rightarrow> nat \<Rightarrow> claim \<Rightarrow> bool" where
  "authored sj outputs operator json d start stop claim \<longleftrightarrow> claim = Harness \<or>
     (\<exists>a e t v from til. value_string d a e t \<and> a < start \<and> stop < e
        \<and> string_value_read json (a + 1, e - 1) = Ok (Some v) \<and> sv_decoded v = t
        \<and> decoded_offset v start = Some from \<and> decoded_offset v stop = Some til \<and> from \<le> til \<and> til \<le> length t
        \<and> claim_true sj outputs operator claim (slice t from til))"

definition cache_ok :: "string \<Rightarrow> (nat, string_value) btree \<Rightarrow> bool" where
  "cache_ok json m \<longleftrightarrow> (\<forall>(k, v) \<in> set m. \<exists>a e t. k = a + 1 \<and> parse_string json a = Ok (t, e)
     \<and> string_value_read json (a + 1, e - 1) = Ok (Some v))"

lemma boundaries_offset_mono:
  assumes "boundaries_ok (sv_boundaries v)" and "decoded_offset v start = Some from" and "decoded_offset v stop = Some til" and "start \<le> stop"
  shows "from \<le> til"
proof -
  obtain i j where i: "i < length (sv_boundaries v)" "sv_boundaries v ! i = (start, from)"
    and j: "j < length (sv_boundaries v)" "sv_boundaries v ! j = (stop, til)"
    using assms(2,3) by (metis decoded_offset_def in_set_conv_nth map_of_SomeD)
  have "a < b \<Longrightarrow> b < length (sv_boundaries v) \<Longrightarrow> fst (sv_boundaries v ! a) < fst (sv_boundaries v ! b) \<and> snd (sv_boundaries v ! a) \<le> snd (sv_boundaries v ! b)" for a b
    using assms(1) by (auto simp: boundaries_ok_def sorted_wrt_iff_nth_less split_beta)
  from this [of i j] this [of j i] show ?thesis using i j assms(4) by (cases i j rule: linorder_cases) auto
qed

lemma last_up_to_Some: "last_up_to m k = Some (k', v) \<Longrightarrow> (k', v) \<in> set m \<and> k' \<le> k"
proof -
  assume *: "last_up_to m k = Some (k', v)"
  let ?xs = "filter (\<lambda>(k', _). k' \<le> k) m"
  have "?xs \<noteq> []" "last ?xs = (k', v)" using * by (auto simp: last_up_to_def Let_def split: if_splits)
  then have "(k', v) \<in> set ?xs" by (metis last_in_set)
  then show ?thesis by auto
qed

lemma place_run_authored:
  assumes doc: "document_decode json lims = Ok d" and place: "place_run json (string_values d) cache start stop = Ok (cache', written, str, place)"
    and cache: "cache_ok json cache" and "start \<le> stop"
  shows "cache_ok json cache' \<and> (\<exists>a e t v til. value_string d a e t \<and> str = a + 1 \<and> a < start \<and> stop < e
      \<and> string_value_read json (a + 1, e - 1) = Ok (Some v) \<and> sv_decoded v = t \<and> decoded_offset v start = Some place
      \<and> decoded_offset v stop = Some til \<and> place \<le> til \<and> til \<le> length t \<and> written = slice t place til)"
proof -
  obtain content v til where found: "last_up_to (string_values d) start = Some (str, content)" "stop \<le> snd content"
    and fetched: "cached_value json cache str content = Ok (cache', v)"
    and offsets: "decoded_offset v start = Some place" "decoded_offset v stop = Some til" "get_range (sv_decoded v) place til = Some written"
    using place by (auto simp: place_run_def split: if_splits)
  have cache': "cache' = cache \<and> btree_get cache str = Some v
        \<or> btree_get cache str = None \<and> string_value_read json content = Ok (Some v) \<and> cache' = btree_insert str v cache"
    using fetched by (auto simp: cached_value_def split: if_splits)
  obtain a e t where s: "value_string d a e t" "str = a + 1" "content = (a + 1, e - 1)" "str \<le> start"
    using string_values_strings [OF doc] last_up_to_Some [OF found(1)] by blast
  note token = value_string_token [OF doc s(1)]
  have read: "string_value_read json (a + 1, e - 1) = Ok (Some v)"
  proof (cases "btree_get cache str")
    case None
    then show ?thesis using cache' s(3) by auto
  next
    case (Some w)
    then have "(str, v) \<in> set cache" using cache' by (auto simp: btree_get_map_of map_of_SomeD)
    then obtain a' e' t' where "str = a' + 1" "parse_string json a' = Ok (t', e')" "string_value_read json (a' + 1, e' - 1) = Ok (Some v)"
      using cache unfolding cache_ok_def by blast
    then show ?thesis using s(2) token(1) by auto
  qed
  have cache_ok': "cache_ok json cache'"
    using cache' cache read token(1) s(2,3) unfolding cache_ok_def by (auto dest!: btree_insert_set)
  obtain v' where v': "string_value_read json (a + 1, e - 1) = Ok (Some v')" "sv_decoded v' = t" "boundaries_ok (sv_boundaries v')"
      "e - 1 < length json" "a + 1 \<le> e - 1"
    using string_value_read_token [OF token] by blast
  then have v: "sv_decoded v = t" "boundaries_ok (sv_boundaries v)" using read by auto
  have "place \<le> til" using boundaries_offset_mono [OF v(2) offsets(1,2) assms(4)] .
  moreover have "til \<le> length t" "written = slice t place til" using offsets(3) v(1) by (auto simp: get_range_Some_iff)
  moreover have "stop < e" "a < start" using found(2) s v'(5) by auto
  ultimately show ?thesis using cache_ok' s read v offsets by blast
qed

lemma check_claim_true:
  assumes "check_claim sj outputs operator previous claim written start str place = Ok citations"
  shows "claim_true sj outputs operator claim written"
  using assms by (cases claim) (auto simp: check_claim_def claim_true_def split: if_splits)

lemma check_run_authored:
  assumes doc: "document_decode json lims = Ok d" and run: "check_run sj outputs operator json (string_values d) limit s run = Ok s'"
    and cache: "cache_ok json (ck_decoded s)"
  shows "cache_ok json (ck_decoded s') \<and> ck_pos s' = ck_pos s + rn_bytes run \<and> ck_pos s' \<le> limit
    \<and> authored sj outputs operator json d (ck_pos s) (ck_pos s') (rn_claim run)"
proof -
  have stop: "ck_pos s' = ck_pos s + rn_bytes run" "ck_pos s' \<le> limit"
    using run by (auto simp: check_run_def split: if_splits option.splits)
  show ?thesis
  proof (cases "rn_claim run = Harness")
    case True
    then have "ck_decoded s' = ck_decoded s" using run by (auto simp: check_run_def split: if_splits option.splits)
    with True stop cache show ?thesis by (simp add: authored_def)
  next
    case False
    then obtain written str place citations where place: "place_run json (string_values d) (ck_decoded s) (ck_pos s) (ck_pos s') = Ok (ck_decoded s', written, str, place)"
      and claim: "check_claim sj outputs operator (ck_previous s) (rn_claim run) written (ck_pos s) str place = Ok citations"
      using run by (auto simp: check_run_def split: if_splits option.splits)
    show ?thesis
      using place_run_authored [OF doc place cache] stop check_claim_true [OF claim] unfolding authored_def by auto
  qed
qed

text \<open>The runs of a segment from a position: where each one starts, and where the last one ends.\<close>

fun tiled :: "(nat \<Rightarrow> nat \<Rightarrow> claim \<Rightarrow> bool) \<Rightarrow> nat \<Rightarrow> run list \<Rightarrow> nat \<Rightarrow> bool" where
  "tiled P pos [] stop \<longleftrightarrow> pos = stop"
| "tiled P pos (run # runs) stop \<longleftrightarrow> P pos (pos + rn_bytes run) (rn_claim run) \<and> tiled P (pos + rn_bytes run) runs stop"

lemma check_runs_tiled:
  assumes doc: "document_decode json lims = Ok d"
  shows "foldR (check_run sj outputs operator json (string_values d) limit) s runs = Ok s' \<Longrightarrow> cache_ok json (ck_decoded s) \<Longrightarrow>
    cache_ok json (ck_decoded s') \<and> tiled (authored sj outputs operator json d) (ck_pos s) runs (ck_pos s')"
proof (induction runs arbitrary: s)
  case (Cons run runs)
  then obtain r where r: "check_run sj outputs operator json (string_values d) limit s run = Ok r"
    "foldR (check_run sj outputs operator json (string_values d) limit) r runs = Ok s'" by auto
  note step = check_run_authored [OF doc r(1) Cons.prems(2)]
  then show ?case using Cons.IH [OF r(2)] by auto
qed simp

lemma check_segments_tiled:
  assumes doc: "document_decode json lims = Ok d"
  shows "foldR (check_segment sj outputs operator json (string_values d)) s segments = Ok s' \<Longrightarrow> cache_ok json (ck_decoded s) \<Longrightarrow>
    list_all (\<lambda>g. tiled (authored sj outputs operator json d) (sg_start g) (sg_runs g) (sg_start g + sg_len g)) segments"
proof (induction segments arbitrary: s)
  case (Cons g segments)
  then obtain r where r: "check_segment sj outputs operator json (string_values d) s g = Ok r"
    "foldR (check_segment sj outputs operator json (string_values d)) r segments = Ok s'" by auto
  then have fold: "foldR (check_run sj outputs operator json (string_values d) (sg_start g + sg_len g))
      (s\<lparr>ck_pos := sg_start g, ck_previous := None\<rparr>) (sg_runs g) = Ok r" and stop: "ck_pos r = sg_start g + sg_len g"
    by (auto simp: check_segment_def split: if_splits)
  show ?case using check_runs_tiled [OF doc fold] stop Cons.prems(2) Cons.IH [OF r(2)] by simp
qed simp

text \<open>
  C29: Every stored byte has one author: when the check of a body accepts, the runs of every segment follow each other
  from its first byte to its last without gap or overlap (the whole body for a full one), a run of any author but the
  harness lies inside the content of one string value between character boundaries, an
  operator's run decodes to exactly the task's bytes at its offset and a model's run to exactly the bytes of
  the output it cites.
\<close>

theorem authored_bytes_tiled:
  assumes "document_decode json lims = Ok d" and "check sj body json d messages outputs operator line = Ok citations"
  shows "\<exists>segments. body_segments body json messages line = Ok segments
    \<and> list_all (\<lambda>g. tiled (authored sj outputs operator json d) (sg_start g) (sg_runs g) (sg_start g + sg_len g)) segments
    \<and> (str_at body ''kind'' = Some ''full'' \<longrightarrow> (\<exists>runs. segments = [\<lparr>sg_start = 0, sg_len = length json, sg_runs = runs\<rparr>]))"
proof -
  obtain segments s where segments: "body_segments body json messages line = Ok segments"
    and fold: "foldR (check_segment sj outputs operator json (string_values d))
         \<lparr>ck_decoded = [], ck_citations = [], ck_pos = 0, ck_previous = None\<rparr> segments = Ok s"
    using assms(2) by (auto simp: check_def)
  have "list_all (\<lambda>g. tiled (authored sj outputs operator json d) (sg_start g) (sg_runs g) (sg_start g + sg_len g)) segments"
    using check_segments_tiled [OF assms(1) fold] by (simp add: cache_ok_def)
  moreover have "\<exists>runs. segments = [\<lparr>sg_start = 0, sg_len = length json, sg_runs = runs\<rparr>]" if "str_at body ''kind'' = Some ''full''"
  proof -
    have "text_field body ''kind'' line = Ok ''full''"
      using that by (cases "jget body ''kind''") (auto simp: str_at_def text_field_Ok_iff)
    then show ?thesis using segments by (auto simp: body_segments_def)
  qed
  ultimately show ?thesis using segments by blast
qed

definition sample_count :: "char \<Rightarrow> jvalue" where
  "sample_count c = JNumber \<lparr>jn_token = [c], jn_value = DNonzero False [c] 0\<rparr>"

definition sample_body :: jvalue where
  "sample_body = JObject
     [(''authors'', JArray
        [JObject [(''author'', JString ''harness''), (''bytes'', sample_count CHR ''1'')],
         JObject [(''author'', JString ''operator''), (''bytes'', sample_count CHR ''2''),
                  (''offset'', JNumber \<lparr>jn_token = ''0'', jn_value = DZero\<rparr>)],
         JObject [(''author'', JString ''harness''), (''bytes'', sample_count CHR ''1'')]]),
      (''kind'', JString ''full'')]"

definition sample_json :: string where
  "sample_json = [CHR 0x22, CHR ''h'', CHR ''i'', CHR 0x22]"

definition sample_runs :: "run list" where
  "sample_runs = [\<lparr>rn_bytes = 1, rn_claim = Harness\<rparr>, \<lparr>rn_bytes = 2, rn_claim = Operator 0\<rparr>, \<lparr>rn_bytes = 1, rn_claim = Harness\<rparr>]"

lemma sample_counts:
  "unsigned (sample_count CHR ''1'') name SAFE_INTEGER = Ok 1" "unsigned (sample_count CHR ''2'') name SAFE_INTEGER = Ok 2"
  "unsigned (JNumber \<lparr>jn_token = ''0'', jn_value = DZero\<rparr>) name SAFE_INTEGER = Ok 0"
  by (simp_all add: sample_count_def unsigned_def as_unsigned_def nat_of_digits_def digit_val_def byte_def SAFE_INTEGER_def)

lemma sample_segments: "body_segments sample_body sample_json [] 1 = Ok [\<lparr>sg_start = 0, sg_len = 4, sg_runs = sample_runs\<rparr>]"
  by (simp add: body_segments_def sample_body_def field_def text_field_def read_runs_def read_run_def read_claim_def sample_counts
      sample_json_def sample_runs_def)

lemma sample_strings: "map_ok string_values (document_decode sample_json sample_limits) = Ok [(1, (1, 3))]"
  by code_simp

lemma sample_value: "string_value_read sample_json (1, 3) =
    Ok (Some \<lparr>sv_content = (1, 3), sv_boundaries = [(1, 0), (2, 1), (3, 2)], sv_decoded = ''hi''\<rparr>)"
  by code_simp

lemma sample_check:
  assumes "string_values d = [(1, (1, 3))]"
  shows "check sj sample_body sample_json d [] outputs ''hi there'' 1 = Ok []"
  unfolding check_def sample_segments
  using sample_value assms
  by (simp add: sample_runs_def check_segment_def check_run_def place_run_def cached_value_def last_up_to_def decoded_offset_def
      checked_add_usize_def check_claim_def contiguous_def get_range_def slice_def)

definition sample_serde :: "nat serde" where
  "sample_serde = \<lparr>sj_from_str = (\<lambda>_. None), sj_pointer = (\<lambda>_ _. None), sj_get = (\<lambda>_ _. None), sj_as_str = (\<lambda>_. None),
     sj_as_object = (\<lambda>_. None)\<rparr>"

theorem authored_bytes_tiled_witness:
  "\<exists>d segments. body_segments sample_body sample_json [] 1 = Ok segments \<and> (\<exists>runs. segments = [\<lparr>sg_start = 0, sg_len = 4, sg_runs = runs\<rparr>])
     \<and> list_all (\<lambda>g. tiled (authored sample_serde \<lparr>mo_generations = [], mo_draws = []\<rparr> ''hi there'' sample_json d) (sg_start g) (sg_runs g) (sg_start g + sg_len g)) segments"
proof -
  obtain d where d: "document_decode sample_json sample_limits = Ok d" "string_values d = [(1, (1, 3))]" using sample_strings by auto
  have "str_at sample_body ''kind'' = Some ''full''" by (simp add: sample_body_def str_at_def)
  with authored_bytes_tiled [OF d(1) sample_check [OF d(2)], of sample_serde "\<lparr>mo_generations = [], mo_draws = []\<rparr>"] show ?thesis
    by (auto simp: sample_json_def)
qed

section \<open>Copies in full\<close>

definition covering :: "nat \<Rightarrow> (nat \<times> nat) list \<Rightarrow> nat" where
  "covering p spans = length (filter (\<lambda>(a, b). a \<le> p \<and> p < b) spans)"

lemma covering_simps [simp]:
  "covering p [] = 0" "covering p ((a, b) # spans) = (if a \<le> p \<and> p < b then 1 else 0) + covering p spans"
  by (simp_all add: covering_def)

lemma covering_mset: "covering p spans = size (filter_mset (\<lambda>(a, b). a \<le> p \<and> p < b) (mset spans))"
  by (simp add: covering_def flip: mset_filter)

lemma covering_before: "\<forall>(a, b) \<in> set spans. p < a \<Longrightarrow> covering p spans = 0"
  by (auto simp: covering_def filter_empty_conv)

lemma covering_member: "(a, b) \<in> set spans \<Longrightarrow> a < b \<Longrightarrow> 0 < covering a spans"
  by (auto simp: covering_def filter_empty_conv)

lemma spans_chain_covering:
  assumes "sorted (map fst spans)" and "\<forall>(a, b) \<in> set spans. a < b \<and> pos \<le> a"
  shows "spans_chain pos spans = Some n \<longleftrightarrow> pos \<le> n \<and> (\<forall>p \<ge> pos. covering p spans = (if p < n then 1 else 0))"
  using assms
proof (induction spans arbitrary: pos)
  case Nil
  show ?case by (auto simp: not_less) (metis le_neq_implies_less order_refl)
next
  case (Cons s spans)
  obtain a b where s: "s = (a, b)" by (cases s)
  have ab: "a < b" "pos \<le> a" and later: "\<forall>(c, e) \<in> set spans. a \<le> c \<and> c < e" and srt: "sorted (map fst spans)"
    using Cons.prems by (auto simp: s)
  show ?case
  proof (cases "a = pos")
    case False
    then have "\<forall>(c, e) \<in> set (s # spans). pos < c" using ab later by (auto simp: s)
    then have "covering pos (s # spans) = 0" by (rule covering_before)
    moreover have "0 < covering a (s # spans)" using ab by (auto simp: s)
    moreover have "n \<le> pos \<or> pos < n \<and> (a < n \<or> n \<le> a)" by linarith
    ultimately have "\<not> (pos \<le> n \<and> (\<forall>p \<ge> pos. covering p (s # spans) = (if p < n then 1 else 0)))"
      using False ab by (metis le_antisym nat_neq_iff not_le order_refl zero_neq_one)
    moreover have "spans_chain pos (s # spans) = None" using False by (simp add: s)
    ultimately show ?thesis by simp
  next
    case True
    show ?thesis
    proof (cases "\<forall>(c, e) \<in> set spans. c < e \<and> b \<le> c")
      case after: True
      have none: "covering p spans = 0" if "p < b" for p using after that by (intro covering_before) auto
      have split: "covering p (s # spans) = (if p < b then 1 else covering p spans)" if "pos \<le> p" for p
        using none [of p] True that by (simp add: s)
      have "pos \<le> n \<and> (\<forall>p \<ge> pos. covering p (s # spans) = (if p < n then 1 else 0))
          \<longleftrightarrow> b \<le> n \<and> (\<forall>p \<ge> b. covering p spans = (if p < n then 1 else 0))" (is "?all \<longleftrightarrow> ?rest")
      proof
        assume all: ?all
        have "\<not> n < b"
        proof
          assume "n < b"
          then show False using all split [of n] by simp
        qed
        moreover have "covering p spans = (if p < n then 1 else 0)" if "b \<le> p" for p
          using all split [of p] that ab by simp
        ultimately show ?rest by simp
      next
        assume rest: ?rest
        have "covering p (s # spans) = (if p < n then 1 else 0)" if "pos \<le> p" for p
          using rest split [OF that] by (cases "p < b") auto
        with rest ab show ?all by simp
      qed
      then show ?thesis using Cons.IH [OF srt after] True by (simp add: s)
    next
      case False
      then obtain c e where ce: "(c, e) \<in> set spans" "c < b" "a \<le> c" "c < e" using later by fastforce
      have "0 < covering c spans" using covering_member ce by blast
      then have two: "1 < covering c (s # spans)" using ce True by (auto simp: s)
      obtain f g rest where spans: "spans = (f, g) # rest" using ce(1) by (cases spans) auto
      then have "f < b" using srt ce by auto
      then have "spans_chain b spans = None" using spans by simp
      moreover have "\<not> (\<forall>p \<ge> pos. covering p (s # spans) = (if p < n then 1 else 0))"
        using two ce True by (auto intro!: exI [of _ c])
      ultimately show ?thesis using True by (simp add: s)
    qed
  qed
qed



end
