(* ===== verification/Service_Error.thy ===== *)
theory Service_Error
  imports Contract_Stream
begin

text \<open>
  \<^verbatim>\<open>src/error.rs\<close>: the errors of the service and how they are answered. The message of an error is a type parameter:
  a component keeps the literals and values of a message, not the sentence formatted of them.
\<close>

datatype 'm service_error =
    InvalidRequest 'm
  | EndpointNotFound 'm
  | MethodNotAllowed 'm
  | PayloadTooLarge 'm
  | UnsupportedMediaType 'm
  | NotFound string
  | IdempotencyConflict string 'm
  | AcceptanceDurabilityFailed string 'm
  | CancellationDurabilityFailed string 'm
  | SessionFinalizing string
  | SessionRunning string
  | BundleAbsent string
  | SessionDeleting string
  | ServiceShuttingDown
  | SourceChanged 'm
  | DockerUnavailable 'm
  | DockerCommand 'm
  | StagingFailed 'm
  | TimedOut 'm
  | AgentOutputMissing 'm
  | AgentRecordRefused 'm
  | Internal 'm

datatype contract_message = CauseMessage cause | ContractUnavailable cause

fun from_contract_error :: "contract_error \<Rightarrow> contract_message service_error" where
  "from_contract_error (InvalidRecord cause) = AgentRecordRefused (CauseMessage cause)"
| "from_contract_error (InvalidDefinition cause) = Internal (CauseMessage cause)"
| "from_contract_error (InvalidConfiguration cause) = Internal (CauseMessage cause)"
| "from_contract_error (ValidationUnavailable cause) = Internal (ContractUnavailable cause)"

fun http_status :: "'m service_error \<Rightarrow> nat" where
  "http_status (InvalidRequest _) = 400"
| "http_status (EndpointNotFound _) = 404"
| "http_status (MethodNotAllowed _) = 405"
| "http_status (PayloadTooLarge _) = 413"
| "http_status (UnsupportedMediaType _) = 415"
| "http_status (NotFound _) = 404"
| "http_status (BundleAbsent _) = 404"
| "http_status (IdempotencyConflict _ _) = 409"
| "http_status (SessionFinalizing _) = 409"
| "http_status (SessionRunning _) = 409"
| "http_status (SessionDeleting _) = 409"
| "http_status (SourceChanged _) = 409"
| "http_status (DockerUnavailable _) = 503"
| "http_status ServiceShuttingDown = 503"
| "http_status (DockerCommand _) = 502"
| "http_status (AgentOutputMissing _) = 502"
| "http_status (AgentRecordRefused _) = 502"
| "http_status (StagingFailed _) = 500"
| "http_status (AcceptanceDurabilityFailed _ _) = 500"
| "http_status (CancellationDurabilityFailed _ _) = 500"
| "http_status (Internal _) = 500"
| "http_status (TimedOut _) = 504"

fun kind_str :: "'m service_error \<Rightarrow> string" where
  "kind_str (InvalidRequest _) = ''invalid_request''"
| "kind_str (EndpointNotFound _) = ''endpoint_not_found''"
| "kind_str (MethodNotAllowed _) = ''method_not_allowed''"
| "kind_str (PayloadTooLarge _) = ''payload_too_large''"
| "kind_str (UnsupportedMediaType _) = ''unsupported_media_type''"
| "kind_str (NotFound _) = ''not_found''"
| "kind_str (IdempotencyConflict _ _) = ''idempotency_conflict''"
| "kind_str (AcceptanceDurabilityFailed _ _) = ''acceptance_durability_failed''"
| "kind_str (CancellationDurabilityFailed _ _) = ''cancellation_durability_failed''"
| "kind_str (SessionFinalizing _) = ''session_finalizing''"
| "kind_str (SessionRunning _) = ''session_running''"
| "kind_str (BundleAbsent _) = ''bundle_absent''"
| "kind_str (SessionDeleting _) = ''session_deleting''"
| "kind_str ServiceShuttingDown = ''service_shutting_down''"
| "kind_str (SourceChanged _) = ''source_changed''"
| "kind_str (DockerUnavailable _) = ''docker_unavailable''"
| "kind_str (DockerCommand _) = ''docker_command_failed''"
| "kind_str (StagingFailed _) = ''staging_failed''"
| "kind_str (TimedOut _) = ''timeout''"
| "kind_str (AgentOutputMissing _) = ''agent_output_missing''"
| "kind_str (AgentRecordRefused _) = ''agent_record_refused''"
| "kind_str (Internal _) = ''internal''"

fun error_session_id :: "'m service_error \<Rightarrow> string" where
  "error_session_id (NotFound session) = session"
| "error_session_id (BundleAbsent session) = session"
| "error_session_id (SessionRunning session) = session"
| "error_session_id (SessionDeleting session) = session"
| "error_session_id (SessionFinalizing session) = session"
| "error_session_id (AcceptanceDurabilityFailed session _) = session"
| "error_session_id (CancellationDurabilityFailed session _) = session"
| "error_session_id (IdempotencyConflict session _) = session"
| "error_session_id _ = ''''"

end
