(* ===== verification/Progress.thy ===== *)
theory Progress
  imports Service_Error
begin

text \<open>
  \<^verbatim>\<open>src/progress.rs\<close>: the durable progress of a session, one file that is replaced as a whole. Every call of the
  operating system takes its outcome from the world: it succeeds, fails, or the process dies in it, before or after its
  effect. The JSON text of a document (\<^verbatim>\<open>serde_json::to_vec_pretty\<close>, \<^verbatim>\<open>from_slice\<close>) is an argument, as is the clock. The state
  behind the mutex is the record \<open>reporter\<close>: every operation holds the lock from its first access to its last.
\<close>

section \<open>Documents\<close>

definition MAX_PROGRESS_EVENTS :: nat where "MAX_PROGRESS_EVENTS = 4096"

definition MAX_PROGRESS_MESSAGE_BYTES :: nat where "MAX_PROGRESS_MESSAGE_BYTES = 4096"

definition PROGRESS_SCHEMA_VERSION :: "32 word" where "PROGRESS_SCHEMA_VERSION = 2"

definition MAX_PROGRESS_DOCUMENT_BYTES :: nat where
  "MAX_PROGRESS_DOCUMENT_BYTES = MAX_PROGRESS_EVENTS * (MAX_PROGRESS_MESSAGE_BYTES + 1024) + 65536"

datatype progress_phase = Accepted | Staging | PreparingAgent | CreatingTopology | AwaitingReadiness | RunningAgent
  | Cancelling | CapturingOutput | TearingDown | Bundling | PersistingTerminal | Terminal

record progress_counters =
  pc_staged_bytes :: u64
  pc_staged_entries :: u64
  pc_staged_regular_files :: u64
  pc_output_event_bytes :: u64
  pc_physical_requests :: u64

definition progress_counters_default :: progress_counters where
  "progress_counters_default = \<lparr>pc_staged_bytes = 0, pc_staged_entries = 0, pc_staged_regular_files = 0,
     pc_output_event_bytes = 0, pc_physical_requests = 0\<rparr>"

record progress_event =
  pe_revision :: u64
  pe_at_unix_ms :: u64
  pe_phase :: progress_phase
  pe_message :: string
  pe_counters :: progress_counters

record progress_document =
  pd_schema_version :: "32 word"
  pd_session_id :: string
  pd_events :: "progress_event list"

datatype progress_fault =
    MessageLength nat
  | AlreadyFailed
  | EventBound
  | NoInitialEvent
  | CounterRegressed string u64 u64
  | RevisionOverflow
  | IdentityDrift string "32 word"
  | EventCount nat
  | RevisionUnexpected u64 nat
  | BackwardsTimestamp u64
  | FirstPhase
  | NotSerializable
  | SnapshotMalformed
  | IoError string
  | ReplacementExists
  | CleanupFailed progress_fault string
  | DurableCleanupFailed progress_fault progress_fault
  | VisibleDiffers progress_fault
  | BothBarriersFailed progress_fault progress_fault
  | UnsafeFile string
  | LengthChanged nat nat

type_synonym 'a progress_result = "('a, progress_fault service_error) result"

definition validate_message :: "string \<Rightarrow> unit progress_result" where
  "validate_message message =
     (if message = [] \<or> MAX_PROGRESS_MESSAGE_BYTES < length message then Err (Internal (MessageLength (length message))) else Ok ())"

definition counter_pairs :: "progress_counters \<Rightarrow> progress_counters \<Rightarrow> (string \<times> u64 \<times> u64) list" where
  "counter_pairs previous following =
     [(''staged_bytes'', pc_staged_bytes previous, pc_staged_bytes following),
      (''staged_entries'', pc_staged_entries previous, pc_staged_entries following),
      (''staged_regular_files'', pc_staged_regular_files previous, pc_staged_regular_files following),
      (''output_event_bytes'', pc_output_event_bytes previous, pc_output_event_bytes following),
      (''physical_requests'', pc_physical_requests previous, pc_physical_requests following)]"

definition require_monotonic_counters :: "progress_counters \<Rightarrow> progress_counters \<Rightarrow> unit progress_result" where
  "require_monotonic_counters previous following =
     foldR (\<lambda>_ (label, old, new). if new < old then Err (Internal (CounterRegressed label old new)) else Ok ())
       () (counter_pairs previous following)"

fun validate_events :: "nat \<Rightarrow> progress_event option \<Rightarrow> progress_event list \<Rightarrow> unit progress_result" where
  "validate_events index previous [] = Ok ()"
| "validate_events index previous (event # events) =
     bindR (ok_or (checked_add (word_of_nat index) 1) (Internal RevisionOverflow)) (\<lambda>expected.
       if pe_revision event \<noteq> expected then Err (Internal (RevisionUnexpected (pe_revision event) (index + 1)))
       else bindR (validate_message (pe_message event)) (\<lambda>_.
            bindR (case previous of
                     None \<Rightarrow> Ok ()
                   | Some p \<Rightarrow>
                       if pe_at_unix_ms event < pe_at_unix_ms p then Err (Internal (BackwardsTimestamp (pe_revision event)))
                       else require_monotonic_counters (pe_counters p) (pe_counters event)) (\<lambda>_.
              validate_events (index + 1) (Some event) events)))"

definition validate_document :: "progress_document \<Rightarrow> string \<Rightarrow> unit progress_result" where
  "validate_document document session =
     (if pd_schema_version document \<noteq> PROGRESS_SCHEMA_VERSION \<or> pd_session_id document \<noteq> session
      then Err (Internal (IdentityDrift (pd_session_id document) (pd_schema_version document)))
      else if pd_events document = [] \<or> MAX_PROGRESS_EVENTS < length (pd_events document)
      then Err (Internal (EventCount (length (pd_events document))))
      else bindR (validate_events 0 None (pd_events document)) (\<lambda>_.
        if pe_phase (hd (pd_events document)) \<noteq> Accepted then Err (Internal FirstPhase) else Ok ()))"

definition encode_document :: "(progress_document \<Rightarrow> string option) \<Rightarrow> progress_document \<Rightarrow> string progress_result" where
  "encode_document to_vec document =
     bindR (validate_document document (pd_session_id document)) (\<lambda>_.
     bindR (ok_or (to_vec document) (Internal NotSerializable)) (\<lambda>bytes. Ok (bytes @ [CHR 0x0A])))"

section \<open>The operating system\<close>

text \<open>
  The number of a failed or fatal outcome is how many bytes of a write reached the file; of any other call, whether the
  process died after its effect.
\<close>

datatype io_outcome = IoOk | IoFail nat | IoCrash nat

record inode =
  fl_bytes :: string
  fl_is_file :: bool
  fl_is_symlink :: bool
  fl_mode :: nat
  fl_uid :: nat
  fl_gid :: nat

text \<open>The directory of the snapshot: the published file, its unpublished replacement, and the outcomes of the calls to come.\<close>

record world =
  wd_current :: "inode option"
  wd_next :: "inode option"
  wd_uid :: nat
  wd_gid :: nat
  wd_io :: "io_outcome list"

datatype slot = Current | Following

datatype io_end = Failed "progress_fault service_error" | Crashed

type_synonym 'a io = "world \<Rightarrow> ('a, io_end) result \<times> world"

abbreviation refuse :: "progress_fault \<Rightarrow> ('a, io_end) result" where
  "refuse fault \<equiv> Err (Failed (Internal fault))"

definition return_io :: "'a \<Rightarrow> 'a io" where
  "return_io x w = (Ok x, w)"

definition fail_io :: "progress_fault service_error \<Rightarrow> 'a io" where
  "fail_io e w = (Err (Failed e), w)"

definition bind_io :: "'a io \<Rightarrow> ('a \<Rightarrow> 'b io) \<Rightarrow> 'b io" where
  "bind_io m f w = (case m w of (Ok x, w') \<Rightarrow> f x w' | (Err e, w') \<Rightarrow> (Err e, w'))"

definition pure_io :: "'a progress_result \<Rightarrow> 'a io" where
  "pure_io r w = (map_err Failed r, w)"

text \<open>\<^verbatim>\<open>match operation { Ok(..) => .., Err(error) => .. }\<close>: a failure is handled, a death of the process is not.\<close>

definition catch_io :: "'a io \<Rightarrow> ('a \<Rightarrow> 'b io) \<Rightarrow> (progress_fault service_error \<Rightarrow> 'b io) \<Rightarrow> 'b io" where
  "catch_io m f g w =
     (case m w of (Ok x, w') \<Rightarrow> f x w' | (Err (Failed e), w') \<Rightarrow> g e w' | (Err Crashed, w') \<Rightarrow> (Err Crashed, w'))"

fun slot_file :: "slot \<Rightarrow> world \<Rightarrow> inode option" where
  "slot_file Current w = wd_current w"
| "slot_file Following w = wd_next w"

fun set_slot :: "slot \<Rightarrow> inode option \<Rightarrow> world \<Rightarrow> world" where
  "set_slot Current f w = w\<lparr>wd_current := f\<rparr>"
| "set_slot Following f w = w\<lparr>wd_next := f\<rparr>"

definition next_outcome :: "world \<Rightarrow> io_outcome \<times> world" where
  "next_outcome w = (case wd_io w of [] \<Rightarrow> (IoOk, w) | out # outs \<Rightarrow> (out, w\<lparr>wd_io := outs\<rparr>))"

text \<open>A call that has an effect and a value when it succeeds.\<close>

definition system_call :: "string \<Rightarrow> (world \<Rightarrow> ('a, string) result \<times> world) \<Rightarrow> 'a io" where
  "system_call context act w =
     (case next_outcome w of
        (IoOk, w) \<Rightarrow> (case act w of (Ok x, w') \<Rightarrow> (Ok x, w') | (Err cause, w') \<Rightarrow> (refuse (IoError (context @ cause)), w'))
      | (IoFail _, w) \<Rightarrow> (refuse (IoError context), w)
      | (IoCrash n, w) \<Rightarrow> (Err Crashed, if n = 0 then w else snd (act w)))"

definition symlink_metadata :: "string \<Rightarrow> slot \<Rightarrow> inode option io" where
  "symlink_metadata context sl = system_call context (\<lambda>w. (Ok (slot_file sl w), w))"

definition create_new :: "string \<Rightarrow> slot \<Rightarrow> unit io" where
  "create_new context sl = system_call context (\<lambda>w.
     case slot_file sl w of
       Some _ \<Rightarrow> (Err '': file exists'', w)
     | None \<Rightarrow> (Ok (), set_slot sl (Some \<lparr>fl_bytes = [], fl_is_file = True, fl_is_symlink = False, fl_mode = 384,
                   fl_uid = wd_uid w, fl_gid = wd_gid w\<rparr>) w))"

definition append_bytes :: "slot \<Rightarrow> string \<Rightarrow> world \<Rightarrow> world" where
  "append_bytes sl bytes w = set_slot sl (map_option (\<lambda>f. f\<lparr>fl_bytes := fl_bytes f @ bytes\<rparr>) (slot_file sl w)) w"

definition write_all :: "string \<Rightarrow> slot \<Rightarrow> string \<Rightarrow> unit io" where
  "write_all context sl bytes w =
     (case next_outcome w of
        (IoOk, w) \<Rightarrow> (Ok (), append_bytes sl bytes w)
      | (IoFail n, w) \<Rightarrow> (refuse (IoError context), append_bytes sl (take n bytes) w)
      | (IoCrash n, w) \<Rightarrow> (Err Crashed, append_bytes sl (take n bytes) w))"

definition sync_all :: "string \<Rightarrow> unit io" where
  "sync_all context = system_call context (\<lambda>w. (Ok (), w))"

definition sync_directory :: "string \<Rightarrow> unit io" where
  "sync_directory context = system_call context (\<lambda>w. (Ok (), w))"

definition rename_next :: "string \<Rightarrow> unit io" where
  "rename_next context = system_call context (\<lambda>w.
     case wd_next w of
       None \<Rightarrow> (Err '': not found'', w)
     | Some f \<Rightarrow> (Ok (), w\<lparr>wd_current := Some f, wd_next := None\<rparr>))"

text \<open>\<^verbatim>\<open>remove_file\<close>; the value is whether the file was there, so \<^verbatim>\<open>NotFound\<close> is told from other failures.\<close>

definition remove_next :: "string \<Rightarrow> bool io" where
  "remove_next context = system_call context (\<lambda>w. (Ok (wd_next w \<noteq> None), w\<lparr>wd_next := None\<rparr>))"

definition open_nofollow :: "string \<Rightarrow> slot \<Rightarrow> inode io" where
  "open_nofollow context sl = system_call context (\<lambda>w.
     case slot_file sl w of
       None \<Rightarrow> (Err '': not found'', w)
     | Some f \<Rightarrow> if fl_is_symlink f then (Err '': symbolic link'', w) else (Ok f, w))"

definition fstat :: "string \<Rightarrow> inode \<Rightarrow> inode io" where
  "fstat context f = system_call context (\<lambda>w. (Ok f, w))"

definition read_to_end :: "string \<Rightarrow> inode \<Rightarrow> string io" where
  "read_to_end context f = system_call context (\<lambda>w. (Ok (fl_bytes f), w))"

section \<open>Reading and replacing the snapshot\<close>

definition validate_private_metadata :: "inode \<Rightarrow> string \<Rightarrow> unit io" where
  "validate_private_metadata f role w =
     (if \<not> fl_is_file f \<or> fl_is_symlink f \<or> fl_mode f mod 512 \<noteq> 384 \<or> fl_uid f \<noteq> wd_uid w \<or> fl_gid f \<noteq> wd_gid w
         \<or> MAX_PROGRESS_DOCUMENT_BYTES < length (fl_bytes f)
      then (refuse (UnsafeFile role), w) else (Ok (), w))"

definition validate_private_file :: "slot \<Rightarrow> string \<Rightarrow> unit io" where
  "validate_private_file sl role =
     bind_io (symlink_metadata (''stat '' @ role) sl) (\<lambda>found.
       case found of
         None \<Rightarrow> fail_io (Internal (IoError (''stat '' @ role)))
       | Some f \<Rightarrow> validate_private_metadata f role)"

definition read_private_bytes :: "slot \<Rightarrow> string \<Rightarrow> string io" where
  "read_private_bytes sl role =
     bind_io (open_nofollow (''open '' @ role) sl) (\<lambda>f.
     bind_io (fstat (''fstat opened '' @ role) f) (\<lambda>metadata.
     bind_io (validate_private_metadata metadata role) (\<lambda>_.
     bind_io (read_to_end (''read opened '' @ role) f) (\<lambda>bytes.
       if length bytes \<noteq> length (fl_bytes metadata)
       then fail_io (Internal (LengthChanged (length (fl_bytes metadata)) (length bytes)))
       else return_io bytes))))"

definition read_progress_events :: "(string \<Rightarrow> progress_document option) \<Rightarrow> string \<Rightarrow> progress_event list io" where
  "read_progress_events from_slice session =
     bind_io (read_private_bytes Current ''durable progress snapshot'') (\<lambda>bytes.
       case from_slice bytes of
         None \<Rightarrow> fail_io (Internal SnapshotMalformed)
       | Some document \<Rightarrow> bind_io (pure_io (validate_document document session)) (\<lambda>_. return_io (pd_events document)))"

definition write_initial :: "(progress_document \<Rightarrow> string option) \<Rightarrow> progress_document \<Rightarrow> unit io" where
  "write_initial to_vec document =
     bind_io (pure_io (encode_document to_vec document)) (\<lambda>bytes.
     bind_io (create_new ''create initial progress snapshot'' Current) (\<lambda>_.
     bind_io (write_all ''write/sync initial progress snapshot'' Current bytes) (\<lambda>_.
     bind_io (sync_all ''write/sync initial progress snapshot'') (\<lambda>_.
       sync_directory ''sync initial progress snapshot''))))"

datatype replacement_outcome = Durable | PublishedWithDurabilityError "progress_fault service_error"

text \<open>The closure before the commit point: whether its own replacement exists (\<^verbatim>\<open>created\<close>) is part of its answer.\<close>

definition precommit :: "string \<Rightarrow> world \<Rightarrow> (unit, io_end) result \<times> bool \<times> world" where
  "precommit bytes w =
     (case create_new ''create unpublished progress replacement'' Following w of
        (Err e, w) \<Rightarrow> (Err e, False, w)
      | (Ok _, w) \<Rightarrow>
          (case bind_io (write_all ''write/sync unpublished progress replacement'' Following bytes)
                  (\<lambda>_. bind_io (sync_all ''write/sync unpublished progress replacement'')
                  (\<lambda>_. rename_next ''atomically publish progress replacement'')) w of
             (Err e, w) \<Rightarrow> (Err e, True, w)
           | (Ok _, w) \<Rightarrow> (Ok (), False, w)))"

fun fault_of :: "progress_fault service_error \<Rightarrow> progress_fault" where
  "fault_of (Internal fault) = fault"
| "fault_of _ = AlreadyFailed"

definition rollback :: "progress_fault service_error \<Rightarrow> bool \<Rightarrow> 'a io" where
  "rollback e created =
     (if created then
        catch_io (remove_next ''cleanup of unpublished progress replacement'')
          (\<lambda>_. catch_io (sync_directory ''sync unpublished progress rollback'')
            (\<lambda>_. fail_io e)
            (\<lambda>cleanup. fail_io (Internal (DurableCleanupFailed (fault_of e) (fault_of cleanup)))))
          (\<lambda>cleanup. fail_io (Internal (CleanupFailed (fault_of e) ''cleanup'')))
      else fail_io e)"

definition publication_barrier :: "string \<Rightarrow> replacement_outcome io" where
  "publication_barrier bytes =
     catch_io (sync_directory ''sync progress replacement publication'')
       (\<lambda>_. return_io Durable)
       (\<lambda>first_error.
         bind_io (read_private_bytes Current ''visible progress replacement'') (\<lambda>observed.
           if observed \<noteq> bytes then fail_io (Internal (VisibleDiffers (fault_of first_error)))
           else catch_io (sync_directory ''retry progress replacement publication barrier'')
             (\<lambda>_. return_io Durable)
             (\<lambda>retry_error. return_io (PublishedWithDurabilityError
                (Internal (BothBarriersFailed (fault_of first_error) (fault_of retry_error)))))))"

definition replace_atomically :: "(progress_document \<Rightarrow> string option) \<Rightarrow> progress_document \<Rightarrow> replacement_outcome io" where
  "replace_atomically to_vec document =
     bind_io (validate_private_file Current ''current progress snapshot'') (\<lambda>_.
     bind_io (symlink_metadata ''stat unpublished progress replacement'' Following) (\<lambda>found.
       if found \<noteq> None then fail_io (Internal ReplacementExists)
       else bind_io (pure_io (encode_document to_vec document)) (\<lambda>bytes w.
         case precommit bytes w of
           (Ok _, _, w) \<Rightarrow> publication_barrier bytes w
         | (Err (Failed e), created, w) \<Rightarrow> rollback e created w
         | (Err Crashed, _, w) \<Rightarrow> (Err Crashed, w))))"

section \<open>The reporter\<close>

record reporter =
  rp_session_id :: string
  rp_events :: "progress_event list"
  rp_durable_failed :: bool

definition document_of :: "string \<Rightarrow> progress_event list \<Rightarrow> progress_document" where
  "document_of session events = \<lparr>pd_schema_version = PROGRESS_SCHEMA_VERSION, pd_session_id = session, pd_events = events\<rparr>"

definition reporter_create :: "(progress_document \<Rightarrow> string option) \<Rightarrow> u64 \<Rightarrow> string \<Rightarrow> string \<Rightarrow> reporter io" where
  "reporter_create to_vec now session message =
     bind_io (pure_io (validate_message message)) (\<lambda>_.
     let initial = \<lparr>pe_revision = 1, pe_at_unix_ms = now, pe_phase = Accepted, pe_message = message,
                    pe_counters = progress_counters_default\<rparr> in
     bind_io (write_initial to_vec (document_of session [initial])) (\<lambda>_.
       return_io \<lparr>rp_session_id = session, rp_events = [initial], rp_durable_failed = False\<rparr>))"

definition reconcile_unpublished_replacement :: "(string \<Rightarrow> progress_document option) \<Rightarrow> string \<Rightarrow> unit io" where
  "reconcile_unpublished_replacement from_slice session =
     bind_io (symlink_metadata ''stat unpublished progress replacement'' Following) (\<lambda>found.
       case found of
         None \<Rightarrow> bind_io (read_progress_events from_slice session) (\<lambda>_. return_io ())
       | Some metadata \<Rightarrow>
           bind_io (validate_private_metadata metadata ''unpublished progress replacement'') (\<lambda>_.
           bind_io (read_progress_events from_slice session) (\<lambda>_.
           bind_io (remove_next ''remove unpublished progress replacement'') (\<lambda>present.
             if \<not> present then fail_io (Internal (IoError ''remove unpublished progress replacement''))
             else sync_directory ''sync unpublished progress cleanup''))))"

definition reporter_open :: "(string \<Rightarrow> progress_document option) \<Rightarrow> string \<Rightarrow> reporter io" where
  "reporter_open from_slice session =
     bind_io (reconcile_unpublished_replacement from_slice session) (\<lambda>_.
     bind_io (read_progress_events from_slice session) (\<lambda>events.
       return_io \<lparr>rp_session_id = session, rp_events = events, rp_durable_failed = False\<rparr>))"

definition next_event :: "progress_event list \<Rightarrow> u64 \<Rightarrow> progress_phase \<Rightarrow> string \<Rightarrow> progress_counters \<Rightarrow> progress_event progress_result" where
  "next_event events now phase message counters =
     bindR (ok_or (if events = [] then None else Some (last events)) (Internal NoInitialEvent)) (\<lambda>previous.
     bindR (require_monotonic_counters (pe_counters previous) counters) (\<lambda>_.
     bindR (ok_or (checked_add (pe_revision previous) 1) (Internal RevisionOverflow)) (\<lambda>revision.
       Ok \<lparr>pe_revision = revision, pe_at_unix_ms = max now (pe_at_unix_ms previous), pe_phase = phase,
           pe_message = message, pe_counters = counters\<rparr>)))"

definition publish :: "(progress_document \<Rightarrow> string option) \<Rightarrow> u64 \<Rightarrow> progress_phase \<Rightarrow> string \<Rightarrow> progress_counters \<Rightarrow> reporter \<Rightarrow> world
    \<Rightarrow> (progress_event, io_end) result \<times> reporter \<times> world" where
  "publish to_vec now phase message counters r w =
     (case validate_message message of
        Err e \<Rightarrow> (Err (Failed e), r, w)
      | Ok _ \<Rightarrow>
          if rp_durable_failed r then (refuse AlreadyFailed, r, w)
          else if MAX_PROGRESS_EVENTS \<le> length (rp_events r) then (refuse EventBound, r\<lparr>rp_durable_failed := True\<rparr>, w)
          else
            (case next_event (rp_events r) now phase message counters of
               Err e \<Rightarrow> (Err (Failed e), r, w)
             | Ok event \<Rightarrow>
                 let replacement = rp_events r @ [event] in
                 (case replace_atomically to_vec (document_of (rp_session_id r) replacement) w of
                    (Ok Durable, w) \<Rightarrow> (Ok event, r\<lparr>rp_events := replacement\<rparr>, w)
                  | (Ok (PublishedWithDurabilityError e), w) \<Rightarrow>
                      (Err (Failed e), r\<lparr>rp_events := replacement, rp_durable_failed := True\<rparr>, w)
                  | (Err (Failed e), w) \<Rightarrow> (Err (Failed e), r\<lparr>rp_durable_failed := True\<rparr>, w)
                  | (Err Crashed, w) \<Rightarrow> (Err Crashed, r, w))))"

definition latest :: "reporter \<Rightarrow> progress_event progress_result" where
  "latest r = ok_or (if rp_events r = [] then None else Some (last (rp_events r))) (Internal NoInitialEvent)"

section \<open>Well-formed histories\<close>

definition counters_le :: "progress_counters \<Rightarrow> progress_counters \<Rightarrow> bool" where
  "counters_le a b \<longleftrightarrow>
     pc_staged_bytes a \<le> pc_staged_bytes b \<and> pc_staged_entries a \<le> pc_staged_entries b
     \<and> pc_staged_regular_files a \<le> pc_staged_regular_files b \<and> pc_output_event_bytes a \<le> pc_output_event_bytes b
     \<and> pc_physical_requests a \<le> pc_physical_requests b"

definition message_ok :: "string \<Rightarrow> bool" where
  "message_ok message \<longleftrightarrow> 1 \<le> length message \<and> length message \<le> 4096"

definition follows :: "progress_event \<Rightarrow> progress_event \<Rightarrow> bool" where
  "follows a b \<longleftrightarrow> pe_at_unix_ms a \<le> pe_at_unix_ms b \<and> counters_le (pe_counters a) (pe_counters b)"

definition history_ok :: "progress_event list \<Rightarrow> bool" where
  "history_ok events \<longleftrightarrow>
     events \<noteq> [] \<and> length events \<le> 4096 \<and> pe_phase (hd events) = Accepted
     \<and> (\<forall>i < length events. unat (pe_revision (events ! i)) = i + 1 \<and> message_ok (pe_message (events ! i)))
     \<and> successively follows events"

lemma validate_message_Ok_iff: "validate_message m = Ok u \<longleftrightarrow> message_ok m"
  by (cases m) (auto simp: validate_message_def message_ok_def MAX_PROGRESS_MESSAGE_BYTES_def)

lemma require_monotonic_Ok_iff: "require_monotonic_counters a b = Ok u \<longleftrightarrow> counters_le a b"
  by (auto simp: require_monotonic_counters_def counter_pairs_def counters_le_def not_less)

definition revisions_from :: "nat \<Rightarrow> progress_event list \<Rightarrow> bool" where
  "revisions_from n events \<longleftrightarrow> (\<forall>i < length events. unat (pe_revision (events ! i)) = n + i + 1 \<and> message_ok (pe_message (events ! i)))"

lemma revisions_from_Cons:
  "revisions_from n (e # es) \<longleftrightarrow> unat (pe_revision e) = n + 1 \<and> message_ok (pe_message e) \<and> revisions_from (n + 1) es"
  by (auto simp: revisions_from_def less_Suc_eq_0_disj)

lemma validate_events_Ok_iff:
  assumes "index + length events < 2 ^ 64"
  shows "validate_events index previous events = Ok () \<longleftrightarrow>
    revisions_from index events \<and> successively follows ((case previous of None \<Rightarrow> [] | Some p \<Rightarrow> [p]) @ events)"
  using assms
proof (induction events arbitrary: index previous)
  case Nil
  then show ?case by (cases previous) (auto simp: revisions_from_def)
next
  case (Cons e es)
  have less: "index + 1 < 2 ^ 64" and rest: "index + 1 + length es < 2 ^ 64" using Cons.prems by auto
  have index: "unat (word_of_nat index :: u64) = index" using less by (simp add: unsigned_of_nat take_bit_nat_eq_self)
  have rev: "checked_add (word_of_nat index) 1 = Some (pe_revision e) \<longleftrightarrow> unat (pe_revision e) = index + 1"
    by (simp add: checked_add_Some_iff index)
  have "\<exists>x. checked_add (word_of_nat index) 1 = Some x"
    using less index checked_add_None_iff [of "word_of_nat index" 1] by (cases "checked_add (word_of_nat index :: u64) 1") auto
  then obtain x where x: "checked_add (word_of_nat index) 1 = Some x" by blast
  have "validate_events index previous (e # es) = Ok () \<longleftrightarrow>
      pe_revision e = x \<and> message_ok (pe_message e) \<and> (case previous of None \<Rightarrow> True | Some p \<Rightarrow> follows p e)
      \<and> validate_events (index + 1) (Some e) es = Ok ()"
    by (cases previous) (auto simp: x validate_message_Ok_iff require_monotonic_Ok_iff follows_def not_less)
  also have "\<dots> \<longleftrightarrow> revisions_from index (e # es) \<and> successively follows ((case previous of None \<Rightarrow> [] | Some p \<Rightarrow> [p]) @ e # es)"
    using Cons.IH [OF rest, of "Some e"] rev x by (cases previous) (auto simp: revisions_from_Cons)
  finally show ?case .
qed

lemma validate_document_Ok_iff: "validate_document (document_of session events) session = Ok () \<longleftrightarrow> history_ok events"
proof (cases "events = [] \<or> 4096 < length events")
  case True
  then show ?thesis by (auto simp: validate_document_def document_of_def history_ok_def MAX_PROGRESS_EVENTS_def)
next
  case False
  then have "0 + length events < 2 ^ 64" by simp
  from validate_events_Ok_iff [OF this, of None] show ?thesis using False
    by (auto simp: validate_document_def document_of_def history_ok_def MAX_PROGRESS_EVENTS_def revisions_from_def)
qed

lemma encode_document_Ok_iff:
  "encode_document to_vec (document_of session events) = Ok bytes \<longleftrightarrow>
     history_ok events \<and> (\<exists>t. to_vec (document_of session events) = Some t \<and> bytes = t @ [CHR 0x0A])"
  using validate_document_Ok_iff [of session events] by (auto simp: encode_document_def document_of_def)

lemma next_event_extends:
  assumes "history_ok events" "next_event events now phase message counters = Ok event" "message_ok message" "length events < 4096"
  shows "history_ok (events @ [event])" and "unat (pe_revision event) = length events + 1" and "pe_phase event = phase"
    and "pe_message event = message" and "pe_counters event = counters"
proof -
  have ne: "events \<noteq> []" using assms(1) by (simp add: history_ok_def)
  have e: "pe_phase event = phase" "pe_message event = message" "pe_counters event = counters" "counters_le (pe_counters (last events)) counters"
    "pe_at_unix_ms (last events) \<le> pe_at_unix_ms event" "unat (pe_revision event) = unat (pe_revision (last events)) + 1"
    using assms(2) ne by (auto simp: next_event_def require_monotonic_Ok_iff checked_add_Some_iff)
  show rev: "unat (pe_revision event) = length events + 1"
    using e(6) assms(1) ne by (auto simp: history_ok_def last_conv_nth)
  show "history_ok (events @ [event])"
    using assms ne e rev unfolding history_ok_def
    by (auto simp: successively_append_iff follows_def nth_append less_Suc_eq)
  show "pe_phase event = phase" "pe_message event = message" "pe_counters event = counters" by fact+
qed

section \<open>What a replacement leaves\<close>

definition own_file :: "world \<Rightarrow> string \<Rightarrow> inode" where
  "own_file w bytes = \<lparr>fl_bytes = bytes, fl_is_file = True, fl_is_symlink = False, fl_mode = 384,
     fl_uid = wd_uid w, fl_gid = wd_gid w\<rparr>"

text \<open>Two worlds that differ in the outcomes to come only.\<close>

definition same_files :: "world \<Rightarrow> world \<Rightarrow> bool" where
  "same_files w w' \<longleftrightarrow> wd_current w' = wd_current w \<and> wd_next w' = wd_next w \<and> wd_uid w' = wd_uid w \<and> wd_gid w' = wd_gid w"

lemma same_files_refl [simp]: "same_files w w"
  by (simp add: same_files_def)

lemma same_files_trans: "same_files w w' \<Longrightarrow> same_files w' w'' \<Longrightarrow> same_files w w''"
  by (simp add: same_files_def)

lemma own_file_same: "same_files w w' \<Longrightarrow> own_file w' bytes = own_file w bytes"
  by (simp add: same_files_def own_file_def)

lemma next_outcome_same: "next_outcome w = (out, w') \<Longrightarrow> same_files w w'"
  by (auto simp: next_outcome_def same_files_def split: list.splits)

definition quiet :: "'a io \<Rightarrow> bool" where
  "quiet m \<longleftrightarrow> (\<forall>w. same_files w (snd (m w)))"

lemma quietD: "quiet m \<Longrightarrow> m w = (r, w') \<Longrightarrow> same_files w w'"
  by (metis quiet_def snd_conv)

lemma quiet_system_call: "(\<And>w. snd (act w) = w) \<Longrightarrow> quiet (system_call context act)"
  unfolding quiet_def system_call_def
  by (auto split: prod.splits io_outcome.splits result.splits dest: next_outcome_same) (metis next_outcome_same snd_conv)+

lemma quiet_bind: "quiet m \<Longrightarrow> (\<And>x. quiet (f x)) \<Longrightarrow> quiet (bind_io m f)"
  unfolding quiet_def bind_io_def by (auto split: prod.splits result.splits) (metis same_files_trans snd_conv)+

lemma quiet_catch: "quiet m \<Longrightarrow> (\<And>x. quiet (f x)) \<Longrightarrow> (\<And>e. quiet (g e)) \<Longrightarrow> quiet (catch_io m f g)"
  unfolding quiet_def catch_io_def
  by (auto split: prod.splits result.splits io_end.splits) (metis same_files_trans snd_conv)+

lemma quiet_basic [simp]: "quiet (return_io x)" "quiet (fail_io e)" "quiet (pure_io r)" "quiet (validate_private_metadata f role)"
  by (auto simp: quiet_def return_io_def fail_io_def pure_io_def validate_private_metadata_def)

lemma quiet_calls [simp]:
  "quiet (symlink_metadata context sl)" "quiet (sync_all context)" "quiet (sync_directory context)"
  "quiet (open_nofollow context sl)" "quiet (fstat context f)" "quiet (read_to_end context f)"
  by (auto simp: symlink_metadata_def sync_all_def sync_directory_def open_nofollow_def fstat_def read_to_end_def
      intro!: quiet_system_call split: option.split)

lemma quiet_if: "quiet m \<Longrightarrow> quiet n \<Longrightarrow> quiet (if b then m else n)"
  by simp

lemma quiet_reads [simp]: "quiet (read_private_bytes sl role)" "quiet (validate_private_file sl role)"
  "quiet (read_progress_events from_slice session)" "quiet (publication_barrier bytes)"
  unfolding read_private_bytes_def validate_private_file_def read_progress_events_def publication_barrier_def
  by (auto intro!: quiet_bind quiet_catch quiet_if split: option.split)

text \<open>A world whose snapshot is the one of another and whose replacement is absent or a prefix the service wrote itself.\<close>

definition torn :: "world \<Rightarrow> string \<Rightarrow> world \<Rightarrow> bool" where
  "torn w bytes w' \<longleftrightarrow> wd_current w' = wd_current w \<and> wd_uid w' = wd_uid w \<and> wd_gid w' = wd_gid w
     \<and> (wd_next w' = None \<or> (\<exists>n. wd_next w' = Some (own_file w (take n bytes))))"

definition replaced :: "world \<Rightarrow> string \<Rightarrow> world \<Rightarrow> bool" where
  "replaced w bytes w' \<longleftrightarrow> wd_current w' = Some (own_file w bytes) \<and> wd_next w' = None
     \<and> wd_uid w' = wd_uid w \<and> wd_gid w' = wd_gid w"

lemma create_cases:
  assumes "create_new context Following w = (r, w')" and "wd_next w = None"
  shows "case r of Ok _ \<Rightarrow> wd_next w' = Some (own_file w []) \<and> torn w bytes w' | Err _ \<Rightarrow> torn w bytes w'"
    and "r = Err (Failed e) \<Longrightarrow> wd_next w' = None"
proof -
  obtain out v where out: "next_outcome w = (out, v)" by fastforce
  have v: "same_files w v" using next_outcome_same [OF out] .
  have take0: "own_file w [] = own_file w (take 0 bytes)" by simp
  show "case r of Ok _ \<Rightarrow> wd_next w' = Some (own_file w []) \<and> torn w bytes w' | Err _ \<Rightarrow> torn w bytes w'"
    using assms v take0
    by (cases out) (auto simp: create_new_def system_call_def out same_files_def torn_def own_file_def split: if_splits)
  show "r = Err (Failed e) \<Longrightarrow> wd_next w' = None"
    using assms v by (cases out) (auto simp: create_new_def system_call_def out same_files_def split: if_splits)
qed

lemma write_cases:
  assumes "write_all context Following bytes w = (r, w')" and "wd_next w = Some (own_file w [])"
  shows "case r of Ok _ \<Rightarrow> wd_next w' = Some (own_file w bytes) \<and> torn w bytes w'
    | Err _ \<Rightarrow> torn w bytes w' \<and> wd_next w' \<noteq> None"
proof -
  obtain out v where out: "next_outcome w = (out, v)" by fastforce
  have v: "same_files w v" using next_outcome_same [OF out] .
  have "\<exists>n. bytes = take n bytes" by (rule exI [of _ "length bytes"]) simp
  then show ?thesis using assms v
    by (cases out) (auto simp: write_all_def out append_bytes_def same_files_def torn_def own_file_def)
qed

lemma rename_cases:
  assumes "rename_next context w = (r, w')" and "wd_next w = Some (own_file w bytes)"
  shows "case r of Ok _ \<Rightarrow> replaced w bytes w' | Err (Failed _) \<Rightarrow> same_files w w' | Err Crashed \<Rightarrow> same_files w w' \<or> replaced w bytes w'"
proof -
  obtain out v where out: "next_outcome w = (out, v)" by fastforce
  have v: "same_files w v" using next_outcome_same [OF out] .
  then show ?thesis using assms
    by (cases out) (auto simp: rename_next_def system_call_def out same_files_def replaced_def split: if_splits)
qed

lemma torn_same: "torn w bytes v \<Longrightarrow> same_files v w' \<Longrightarrow> torn w bytes w'"
  by (simp add: torn_def same_files_def)

lemma torn_own_file: "torn w bytes v \<Longrightarrow> own_file v b = own_file w b"
  by (simp add: torn_def own_file_def)

lemma torn_torn: "torn w bytes v \<Longrightarrow> torn v bytes w' \<Longrightarrow> torn w bytes w'"
  by (simp add: torn_def own_file_def)

lemma replaced_torn: "torn w bytes v \<Longrightarrow> replaced v bytes w' \<Longrightarrow> replaced w bytes w'"
  by (simp add: torn_def replaced_def own_file_def)

lemma replaced_same: "replaced w bytes v \<Longrightarrow> same_files v w' \<Longrightarrow> replaced w bytes w'"
  by (simp add: replaced_def same_files_def)

lemma precommit_cases:
  assumes "precommit bytes w = (r, created, w')" and "wd_next w = None"
  shows "case r of Ok _ \<Rightarrow> replaced w bytes w'
     | Err (Failed _) \<Rightarrow> torn w bytes w' \<and> (wd_next w' \<noteq> None \<longrightarrow> created)
     | Err Crashed \<Rightarrow> torn w bytes w' \<or> replaced w bytes w'"
proof -
  obtain r1 w1 where c: "create_new ''create unpublished progress replacement'' Following w = (r1, w1)" by fastforce
  note c1 = create_cases(1) [OF c assms(2), of bytes]
  show ?thesis
  proof (cases r1)
    case (Err e)
    then show ?thesis using assms(1) c c1 create_cases(2) [OF c assms(2)] by (cases e) (auto simp: precommit_def)
  next
    case (Ok u)
    then have w1: "wd_next w1 = Some (own_file w1 [])" "torn w bytes w1" using c1 torn_own_file by auto
    obtain r2 w2 where wr: "write_all ''write/sync unpublished progress replacement'' Following bytes w1 = (r2, w2)" by fastforce
    note wr1 = write_cases [OF wr w1(1)]
    show ?thesis
    proof (cases r2)
      case (Err e)
      then show ?thesis using assms(1) c Ok wr wr1 torn_torn [OF w1(2)] by (cases e) (auto simp: precommit_def bind_io_def)
    next
      case ok2: (Ok u)
      obtain r3 w3 where sy: "sync_all ''write/sync unpublished progress replacement'' w2 = (r3, w3)" by fastforce
      then have s3: "same_files w2 w3" by (rule quietD [rotated]) simp
      have w2: "wd_next w2 = Some (own_file w1 bytes)" "torn w1 bytes w2" using wr1 ok2 by auto
      have w3: "wd_next w3 = Some (own_file w3 bytes)" "torn w bytes w3"
        using w2 s3 torn_same [OF torn_torn [OF w1(2) w2(2)] s3] torn_own_file [OF w2(2)] own_file_same [OF s3] by (auto simp: same_files_def)
      show ?thesis
      proof (cases r3)
        case (Err e)
        then show ?thesis using assms(1) c Ok wr ok2 sy w3 by (cases e) (auto simp: precommit_def bind_io_def)
      next
        case ok3: (Ok u)
        obtain r4 w4 where rn: "rename_next ''atomically publish progress replacement'' w3 = (r4, w4)" by fastforce
        have run: "precommit bytes w = (case r4 of Err e \<Rightarrow> (Err e, True, w4) | Ok _ \<Rightarrow> (Ok (), False, w4))"
          using c Ok wr ok2 sy ok3 rn by (simp add: precommit_def bind_io_def split: result.split)
        have "case r4 of Ok _ \<Rightarrow> replaced w bytes w4 | Err (Failed _) \<Rightarrow> torn w bytes w4 | Err Crashed \<Rightarrow> torn w bytes w4 \<or> replaced w bytes w4"
          using rename_cases [OF rn w3(1)] replaced_torn [OF w3(2)] torn_same [OF w3(2)]
          by (auto split: result.splits io_end.splits)
        then show ?thesis using run assms(1) by (auto split: result.splits io_end.splits)
      qed
    qed
  qed
qed

lemma rollback_cases:
  assumes "rollback e created w = (r, w')"
  shows "(\<exists>x. r = Err x) \<and> wd_current w' = wd_current w \<and> wd_uid w' = wd_uid w \<and> wd_gid w' = wd_gid w
    \<and> (wd_next w' = wd_next w \<or> wd_next w' = None)"
proof -
  obtain r1 w1 where rm: "remove_next ''cleanup of unpublished progress replacement'' w = (r1, w1)" by fastforce
  obtain out v where out: "next_outcome w = (out, v)" by fastforce
  have "wd_current w1 = wd_current w \<and> wd_uid w1 = wd_uid w \<and> wd_gid w1 = wd_gid w \<and> (wd_next w1 = wd_next w \<or> wd_next w1 = None)"
    using rm next_outcome_same [OF out] by (cases out) (auto simp: remove_next_def system_call_def out same_files_def split: if_splits)
  moreover obtain r2 w2 where sy: "sync_directory ''sync unpublished progress rollback'' w1 = (r2, w2)" by fastforce
  moreover have "same_files w1 w2" using sy by (rule quietD [rotated]) simp
  ultimately show ?thesis using assms rm
    by (cases r1; cases r2)
      (auto simp: rollback_def catch_io_def fail_io_def same_files_def split: if_splits io_end.splits)
qed

lemma replace_atomically_cases:
  assumes run: "replace_atomically to_vec document w = (r, w')"
  shows "(\<exists>e. r = Err e) \<and> wd_current w' = wd_current w \<and> wd_uid w' = wd_uid w \<and> wd_gid w' = wd_gid w
      \<and> (wd_next w' = wd_next w \<or> (\<exists>bytes. encode_document to_vec document = Ok bytes \<and> torn w bytes w'))
    \<or> (\<exists>bytes. encode_document to_vec document = Ok bytes \<and> replaced w bytes w')"
proof -
  obtain r1 w1 where va: "validate_private_file Current ''current progress snapshot'' w = (r1, w1)" by fastforce
  then have s1: "same_files w w1" by (rule quietD [rotated]) simp
  obtain r2 w2 where st: "symlink_metadata ''stat unpublished progress replacement'' Following w1 = (r2, w2)" by fastforce
  then have "same_files w1 w2" by (rule quietD [rotated]) simp
  with s1 have s2: "same_files w w2" by (rule same_files_trans)
  have early: ?thesis if "r = Err e" "same_files w w'" for e using that by (auto simp: same_files_def)
  show ?thesis
  proof (cases "\<exists>u. r1 = Ok u \<and> r2 = Ok None \<and> (\<exists>bytes. encode_document to_vec document = Ok bytes)")
    case False
    then have "same_files w w' \<and> (\<exists>e. r = Err e)"
      using run va st s1 s2
      by (cases r1; cases r2; cases "encode_document to_vec document")
        (auto simp: replace_atomically_def bind_io_def fail_io_def pure_io_def split: option.splits if_splits)
    then show ?thesis using early by blast
  next
    case True
    then obtain u bytes where ok: "r1 = Ok u" "r2 = Ok None" "encode_document to_vec document = Ok bytes" by blast
    have none: "wd_next w2 = None"
    proof -
      obtain out v where out: "next_outcome w1 = (out, v)" by fastforce
      then show ?thesis using st ok by (cases out) (auto simp: symlink_metadata_def system_call_def)
    qed
    obtain r3 created w3 where pc: "precommit bytes w2 = (r3, created, w3)" by (metis prod_cases3)
    note cases3 = precommit_cases [OF pc none]
    have own: "own_file w2 b = own_file w b" for b using own_file_same [OF s2] .
    have go: "replace_atomically to_vec document w = (case r3 of Ok _ \<Rightarrow> publication_barrier bytes w3
        | Err (Failed e) \<Rightarrow> rollback e created w3 | Err Crashed \<Rightarrow> (Err Crashed, w3))"
      using va st ok pc by (simp add: replace_atomically_def bind_io_def pure_io_def split: result.split io_end.split)
    have torn: "torn w bytes v" if "torn w2 bytes v" for v using that s2 own by (simp add: torn_def same_files_def)
    have repl: "replaced w bytes v" if "replaced w2 bytes v" for v using that s2 own by (simp add: replaced_def same_files_def)
    show ?thesis
    proof (cases r3)
      case (Ok u)
      then have "same_files w3 w'" using go run by (intro quietD [of "publication_barrier bytes" w3 r]) simp_all
      then show ?thesis using Ok cases3 repl replaced_same ok(3) by auto
    next
      case (Err x)
      show ?thesis
      proof (cases x)
        case Crashed
        then have "torn w bytes w3 \<or> replaced w bytes w3" using Err cases3 torn repl by auto
        moreover have "r = Err Crashed" "w' = w3" using go run Err Crashed by simp_all
        ultimately show ?thesis using ok(3) by (auto simp: torn_def)
      next
        case (Failed e)
        then have "rollback e created w3 = (r, w')" using go run Err by simp
        note undone = rollback_cases [OF this]
        have "torn w bytes w3" using Failed Err cases3 torn by auto
        with undone have "torn w bytes w'" by (auto simp: torn_def)
        then show ?thesis using undone ok(3) by (auto simp: torn_def)
      qed
    qed
  qed
qed

section \<open>Publication\<close>

definition holds :: "(progress_document \<Rightarrow> string option) \<Rightarrow> string \<Rightarrow> progress_event list \<Rightarrow> world \<Rightarrow> bool" where
  "holds to_vec session events w \<longleftrightarrow>
     (\<exists>bytes. encode_document to_vec (document_of session events) = Ok bytes \<and> wd_current w = Some (own_file w bytes))"

definition next_ok :: "world \<Rightarrow> bool" where
  "next_ok w \<longleftrightarrow> wd_next w = None \<or> (\<exists>bytes. wd_next w = Some (own_file w bytes))"

lemma holds_history: "holds to_vec session events w \<Longrightarrow> history_ok events"
  by (auto simp: holds_def encode_document_Ok_iff)

lemma holds_current:
  "holds to_vec session events w \<Longrightarrow> wd_current w' = wd_current w \<Longrightarrow> wd_uid w' = wd_uid w \<Longrightarrow> wd_gid w' = wd_gid w
    \<Longrightarrow> holds to_vec session events w'"
  by (auto simp: holds_def own_file_def)

lemma holds_replaced:
  "encode_document to_vec (document_of session events) = Ok bytes \<Longrightarrow> replaced w bytes w' \<Longrightarrow> holds to_vec session events w' \<and> next_ok w'"
  by (auto simp: holds_def replaced_def next_ok_def own_file_def)

lemma replace_visible:
  assumes "replace_atomically to_vec (document_of session events') w = (res, w')" and "holds to_vec session events w" and "next_ok w"
  shows "next_ok w' \<and> (holds to_vec session events w' \<and> (\<exists>e. res = Err e) \<or> holds to_vec session events' w')"
  using replace_atomically_cases [OF assms(1)]
proof
  assume kept: "(\<exists>e. res = Err e) \<and> wd_current w' = wd_current w \<and> wd_uid w' = wd_uid w \<and> wd_gid w' = wd_gid w
      \<and> (wd_next w' = wd_next w \<or> (\<exists>bytes. encode_document to_vec (document_of session events') = Ok bytes \<and> torn w bytes w'))"
  then have "own_file w' b = own_file w b" for b by (simp add: own_file_def)
  with kept have "next_ok w'" using assms(3) by (auto simp: next_ok_def torn_def)
  with kept show ?thesis using holds_current [OF assms(2)] by blast
next
  assume "\<exists>bytes. encode_document to_vec (document_of session events') = Ok bytes \<and> replaced w bytes w'"
  then show ?thesis using holds_replaced by blast
qed

lemma publish_cases:
  assumes run: "publish to_vec now phase message counters r w = (res, r', w')"
    and vis: "holds to_vec (rp_session_id r) (rp_events r) w" and nxt: "next_ok w"
  shows "rp_session_id r' = rp_session_id r \<and> next_ok w' \<and>
    (holds to_vec (rp_session_id r) (rp_events r) w' \<and> rp_events r' = rp_events r \<and> (\<exists>e. res = Err e)
     \<or> (\<exists>event. next_event (rp_events r) now phase message counters = Ok event \<and> message_ok message
          \<and> holds to_vec (rp_session_id r) (rp_events r @ [event]) w'
          \<and> (res = Ok event \<and> rp_events r' = rp_events r @ [event] \<and> rp_durable_failed r' = rp_durable_failed r
             \<or> (\<exists>e. res = Err (Failed e)) \<and> rp_durable_failed r' \<and> rp_events r' \<in> {rp_events r, rp_events r @ [event]}
             \<or> res = Err Crashed \<and> r' = r)))"
proof (cases "message_ok message \<and> \<not> rp_durable_failed r \<and> length (rp_events r) < MAX_PROGRESS_EVENTS
    \<and> (\<exists>event. next_event (rp_events r) now phase message counters = Ok event)")
  case False
  have refused: "w' = w \<and> rp_events r' = rp_events r \<and> rp_session_id r' = rp_session_id r \<and> (\<exists>e. res = Err e)"
  proof (cases "validate_message message")
    case (Err e)
    then show ?thesis using run by (auto simp: publish_def)
  next
    case (Ok u)
    then have "message_ok message" using validate_message_Ok_iff by blast
    then show ?thesis using run Ok False
      by (cases "next_event (rp_events r) now phase message counters") (auto simp: publish_def split: if_splits)
  qed
  then show ?thesis using vis nxt by auto
next
  case True
  then obtain event where ev: "next_event (rp_events r) now phase message counters = Ok event" by blast
  have msg: "validate_message message = Ok ()" using True validate_message_Ok_iff by blast
  obtain res1 w1 where rep: "replace_atomically to_vec (document_of (rp_session_id r) (rp_events r @ [event])) w = (res1, w1)" by fastforce
  note visible = replace_visible [OF rep vis nxt]
  have go: "publish to_vec now phase message counters r w =
      (case (res1, w1) of
         (Ok Durable, w) \<Rightarrow> (Ok event, r\<lparr>rp_events := rp_events r @ [event]\<rparr>, w)
       | (Ok (PublishedWithDurabilityError e), w) \<Rightarrow>
           (Err (Failed e), r\<lparr>rp_events := rp_events r @ [event], rp_durable_failed := True\<rparr>, w)
       | (Err (Failed e), w) \<Rightarrow> (Err (Failed e), r\<lparr>rp_durable_failed := True\<rparr>, w)
       | (Err Crashed, w) \<Rightarrow> (Err Crashed, r, w))"
    using True ev msg rep by (simp add: publish_def Let_def)
  have "next_ok w1" using visible by blast
  moreover consider "holds to_vec (rp_session_id r) (rp_events r) w1" "\<exists>e. res1 = Err e" | "holds to_vec (rp_session_id r) (rp_events r @ [event]) w1"
    using visible by blast
  then show ?thesis
    using go run visible ev True by cases (auto split: result.splits replacement_outcome.splits io_end.splits)
qed

section \<open>Reading the snapshot back\<close>

text \<open>What is used of the JSON library: the text of a document, with a newline after it, is read as that document.\<close>

definition snapshot_codec :: "(progress_document \<Rightarrow> string option) \<Rightarrow> (string \<Rightarrow> progress_document option) \<Rightarrow> bool" where
  "snapshot_codec to_vec from_slice \<longleftrightarrow> (\<forall>d t. to_vec d = Some t \<longrightarrow> from_slice (t @ [CHR 0x0A]) = Some d)"

lemma system_call_Ok:
  assumes "system_call context act w = (Ok x, w')"
  obtains v where "same_files w v" "act v = (Ok x, w')"
proof -
  obtain out v where out: "next_outcome w = (out, v)" by fastforce
  show thesis using assms next_outcome_same [OF out]
    by (cases out) (auto simp: system_call_def out split: prod.splits result.splits intro: that)
qed

lemma bind_io_Ok_iff: "bind_io m f w = (Ok y, w') \<longleftrightarrow> (\<exists>x v. m w = (Ok x, v) \<and> f x v = (Ok y, w'))"
  by (auto simp: bind_io_def split: prod.splits result.splits)

lemma read_private_bytes_Ok:
  assumes "read_private_bytes sl role w = (Ok bytes, w')"
  obtains f where "slot_file sl w = Some f" "bytes = fl_bytes f"
proof -
  obtain f w1 m w2 u w3 b w4 where op: "open_nofollow (''open '' @ role) sl w = (Ok f, w1)"
    and rd: "read_to_end (''read opened '' @ role) f w3 = (Ok b, w4)" and "b = bytes"
    using assms unfolding read_private_bytes_def bind_io_Ok_iff by (auto simp: fail_io_def return_io_def split: if_splits)
  obtain v where v: "same_files w v" "(case slot_file sl v of None \<Rightarrow> (Err '': not found'', v)
      | Some f \<Rightarrow> if fl_is_symlink f then (Err '': symbolic link'', v) else (Ok f, v)) = (Ok f, w1)"
    by (rule system_call_Ok [OF op [unfolded open_nofollow_def]])
  have slot: "slot_file sl w = Some f" using v by (cases sl) (auto simp: same_files_def split: option.splits if_splits)
  have "b = fl_bytes f" by (rule system_call_Ok [OF rd [unfolded read_to_end_def]]) simp
  then show thesis using slot that \<open>b = bytes\<close> by simp
qed

lemma read_progress_events_Ok:
  assumes "read_progress_events from_slice session w = (Ok events', w')" and vis: "holds to_vec session events w"
    and codec: "snapshot_codec to_vec from_slice"
  shows "events' = events"
proof -
  obtain bytes w1 where rd: "read_private_bytes Current ''durable progress snapshot'' w = (Ok bytes, w1)"
    and rest: "(case from_slice bytes of None \<Rightarrow> fail_io (Internal SnapshotMalformed)
         | Some document \<Rightarrow> bind_io (pure_io (validate_document document session)) (\<lambda>_. return_io (pd_events document))) w1 = (Ok events', w')"
    using assms(1) unfolding read_progress_events_def bind_io_Ok_iff by blast
  obtain f where "slot_file Current w = Some f" "bytes = fl_bytes f" by (rule read_private_bytes_Ok [OF rd])
  moreover obtain t where "wd_current w = Some (own_file w (t @ [CHR 0x0A]))" "to_vec (document_of session events) = Some t"
    using vis by (auto simp: holds_def encode_document_Ok_iff)
  ultimately have "from_slice bytes = Some (document_of session events)" using codec by (auto simp: own_file_def snapshot_codec_def)
  then have "bind_io (pure_io (validate_document (document_of session events) session)) (\<lambda>_. return_io events) w1 = (Ok events', w')"
    using rest by (simp add: document_of_def)
  then show ?thesis unfolding bind_io_Ok_iff return_io_def by simp
qed

lemma reconcile_cases:
  assumes "reconcile_unpublished_replacement from_slice session w = (res, w')" and "next_ok w"
  shows "wd_current w' = wd_current w \<and> wd_uid w' = wd_uid w \<and> wd_gid w' = wd_gid w \<and> next_ok w'"
proof -
  obtain r1 w1 where st: "symlink_metadata ''stat unpublished progress replacement'' Following w = (r1, w1)" by fastforce
  then have s1: "same_files w w1" by (rule quietD [rotated]) simp
  have quiet_ok: "wd_current v = wd_current w \<and> wd_uid v = wd_uid w \<and> wd_gid v = wd_gid w \<and> next_ok v" if "same_files w v" for v
    using that assms(2) by (simp add: same_files_def next_ok_def own_file_def)
  show ?thesis
  proof (cases r1)
    case (Err e)
    then have "w' = w1" using assms(1) st by (simp add: reconcile_unpublished_replacement_def bind_io_def)
    then show ?thesis using quiet_ok [OF s1] by simp
  next
    case (Ok found)
    show ?thesis
    proof (cases found)
      case None
      have "quiet (bind_io (read_progress_events from_slice session) (\<lambda>_. return_io ()))" by (intro quiet_bind) simp_all
      moreover have "bind_io (read_progress_events from_slice session) (\<lambda>_. return_io ()) w1 = (res, w')"
        using assms(1) st Ok None by (simp add: reconcile_unpublished_replacement_def bind_io_def)
      ultimately have "same_files w1 w'" by (rule quietD)
      then show ?thesis using quiet_ok same_files_trans [OF s1] by blast
    next
      case (Some m)
      have "quiet (bind_io (validate_private_metadata m ''unpublished progress replacement'') (\<lambda>_. read_progress_events from_slice session))"
        by (intro quiet_bind) simp_all
      moreover obtain r2 w2 where two: "bind_io (validate_private_metadata m ''unpublished progress replacement'')
          (\<lambda>_. read_progress_events from_slice session) w1 = (r2, w2)" by fastforce
      ultimately have "same_files w1 w2" by (rule quietD)
      then have s2: "same_files w w2" by (rule same_files_trans [OF s1])
      obtain r3 w3 where rm: "remove_next ''remove unpublished progress replacement'' w2 = (r3, w3)" by fastforce
      obtain out v where out: "next_outcome w2 = (out, v)" by fastforce
      have s3: "wd_current w3 = wd_current w2 \<and> wd_uid w3 = wd_uid w2 \<and> wd_gid w3 = wd_gid w2 \<and> (wd_next w3 = wd_next w2 \<or> wd_next w3 = None)"
        using rm next_outcome_same [OF out] by (cases out) (auto simp: remove_next_def system_call_def out same_files_def split: if_splits)
      obtain r4 w4 where sy: "sync_directory ''sync unpublished progress cleanup'' w3 = (r4, w4)" by fastforce
      then have s4: "same_files w3 w4" by (rule quietD [rotated]) simp
      have "w' = w2 \<or> w' = w3 \<or> w' = w4"
        using assms(1) st Ok Some two rm sy
        by (cases r2; cases r3)
          (auto simp: reconcile_unpublished_replacement_def bind_io_def fail_io_def split: prod.splits result.splits if_splits)
      moreover have "wd_current w3 = wd_current w \<and> wd_uid w3 = wd_uid w \<and> wd_gid w3 = wd_gid w \<and> next_ok w3"
        using s3 quiet_ok [OF s2] by (auto simp: next_ok_def own_file_def)
      ultimately show ?thesis using quiet_ok [OF s2] s4 by (auto simp: same_files_def next_ok_def own_file_def)
    qed
  qed
qed

lemma reporter_open_cases:
  assumes "reporter_open from_slice session w = (res, w')" and vis: "holds to_vec session events w" and "next_ok w"
    and codec: "snapshot_codec to_vec from_slice"
  shows "holds to_vec session events w' \<and> next_ok w'
    \<and> (\<forall>r. res = Ok r \<longrightarrow> rp_events r = events \<and> rp_session_id r = session \<and> \<not> rp_durable_failed r)"
proof -
  obtain r1 w1 where rc: "reconcile_unpublished_replacement from_slice session w = (r1, w1)" by fastforce
  note one = reconcile_cases [OF rc assms(3)]
  have vis1: "holds to_vec session events w1" using one holds_current [OF vis] by blast
  obtain r2 w2 where rd: "read_progress_events from_slice session w1 = (r2, w2)" by fastforce
  then have s2: "same_files w1 w2" by (rule quietD [rotated]) simp
  have two: "holds to_vec session events w2 \<and> next_ok w2"
    using one s2 holds_current [OF vis1] by (auto simp: same_files_def next_ok_def own_file_def)
  have "events' = events" if "r2 = Ok events'" for events'
    using read_progress_events_Ok [OF rd [unfolded that] vis1] codec by blast
  then show ?thesis using assms(1) rc rd one vis1 two
    by (cases r1; cases r2) (auto simp: reporter_open_def bind_io_def return_io_def)
qed

section \<open>Every life of a snapshot\<close>

text \<open>
  The process creates the snapshot, publishes, dies at any point and is started again, while each call of the operating system
  succeeds or fails as it may. The first component is the reporter of the running process, \<^const>\<open>None\<close> between two processes.
\<close>

inductive progress_step :: "(progress_document \<Rightarrow> string option) \<Rightarrow> (string \<Rightarrow> progress_document option) \<Rightarrow> string
    \<Rightarrow> reporter option \<times> world \<Rightarrow> reporter option \<times> world \<Rightarrow> bool"
  for to_vec from_slice session where
  outcomes: "progress_step to_vec from_slice session (x, w) (x, w\<lparr>wd_io := outs\<rparr>)"
| published: "publish to_vec now phase message counters r w = (res, r', w')
    \<Longrightarrow> progress_step to_vec from_slice session (Some r, w) (if res = Err Crashed then None else Some r', w')"
| died: "progress_step to_vec from_slice session (Some r, w) (None, w)"
| opened: "reporter_open from_slice session w = (res, w')
    \<Longrightarrow> progress_step to_vec from_slice session (None, w) (case res of Ok r \<Rightarrow> Some r | Err _ \<Rightarrow> None, w')"

inductive progress_reach :: "(progress_document \<Rightarrow> string option) \<Rightarrow> (string \<Rightarrow> progress_document option) \<Rightarrow> string
    \<Rightarrow> reporter option \<times> world \<Rightarrow> bool"
  for to_vec from_slice session where
  created: "reporter_create to_vec now session message w = (Ok r, w') \<Longrightarrow> wd_next w = None
    \<Longrightarrow> progress_reach to_vec from_slice session (Some r, w')"
| stepped: "progress_reach to_vec from_slice session s \<Longrightarrow> progress_step to_vec from_slice session s s'
    \<Longrightarrow> progress_reach to_vec from_slice session s'"

inductive_cases progress_stepE: "progress_step to_vec from_slice session s s'"

definition progress_inv :: "(progress_document \<Rightarrow> string option) \<Rightarrow> string \<Rightarrow> progress_event list \<Rightarrow> reporter option \<times> world \<Rightarrow> bool" where
  "progress_inv to_vec session events s \<longleftrightarrow>
     holds to_vec session events (snd s) \<and> next_ok (snd s)
     \<and> (\<forall>r. fst s = Some r \<longrightarrow> rp_session_id r = session
          \<and> (rp_events r = events \<or> rp_durable_failed r \<and> (\<exists>e. events = rp_events r @ [e])))"

lemma publish_latched: "rp_durable_failed r \<Longrightarrow> \<exists>e. publish to_vec now phase message counters r w = (Err (Failed e), r, w)"
  by (auto simp: publish_def split: result.split)

lemma progress_inv_step:
  assumes codec: "snapshot_codec to_vec from_slice"
    and "progress_step to_vec from_slice session s s'" and "progress_inv to_vec session events s"
  shows "\<exists>events'. progress_inv to_vec session events' s' \<and> (events' = events \<or> (\<exists>e. events' = events @ [e]))"
  using assms(2)
proof (cases rule: progress_step.cases)
  case (outcomes x w outs)
  then have "progress_inv to_vec session events s'" using assms(3) by (auto simp: progress_inv_def holds_def next_ok_def own_file_def)
  then show ?thesis by blast
next
  case (published now phase message counters r w res r' w')
  have session: "rp_session_id r = session" using assms(3) published by (simp add: progress_inv_def)
  show ?thesis
  proof (cases "rp_durable_failed r")
    case True
    then obtain e where "res = Err (Failed e)" "r' = r" "w' = w" using published(3) publish_latched by (metis prod.inject)
    then show ?thesis using assms(3) published by auto
  next
    case False
    then have vis: "holds to_vec (rp_session_id r) (rp_events r) w" "next_ok w" "rp_events r = events"
      using assms(3) published by (auto simp: progress_inv_def)
    from publish_cases [OF published(3) vis(1,2)] show ?thesis
      unfolding session vis(3) published(2) progress_inv_def by (auto split: if_splits)
  qed
next
  case (died r w)
  then show ?thesis using assms(3) by (auto simp: progress_inv_def)
next
  case (opened w res w')
  then have "holds to_vec session events w" "next_ok w" using assms(3) by (auto simp: progress_inv_def)
  from reporter_open_cases [OF opened(3) this] codec have "progress_inv to_vec session events s'"
    unfolding opened(2) progress_inv_def by (auto split: result.splits)
  then show ?thesis by blast
qed

lemma reporter_create_holds:
  assumes "reporter_create to_vec now session message w = (Ok r, w')" and "wd_next w = None"
  shows "holds to_vec session (rp_events r) w' \<and> next_ok w' \<and> rp_session_id r = session \<and> length (rp_events r) = 1 \<and> \<not> rp_durable_failed r"
proof -
  let ?initial = "\<lparr>pe_revision = 1, pe_at_unix_ms = now, pe_phase = Accepted, pe_message = message, pe_counters = progress_counters_default\<rparr>"
  obtain bytes w1 w2 w3 w4 where enc: "encode_document to_vec (document_of session [?initial]) = Ok bytes"
    and cr: "create_new ''create initial progress snapshot'' Current w = (Ok (), w1)"
    and wr: "write_all ''write/sync initial progress snapshot'' Current bytes w1 = (Ok (), w2)"
    and sy: "sync_all ''write/sync initial progress snapshot'' w2 = (Ok (), w3)"
    and dir: "sync_directory ''sync initial progress snapshot'' w3 = (Ok (), w')"
    and r: "r = \<lparr>rp_session_id = session, rp_events = [?initial], rp_durable_failed = False\<rparr>"
    using assms(1) unfolding reporter_create_def write_initial_def bind_io_Ok_iff Let_def
    by (auto simp: pure_io_def return_io_def)
  have "same_files w2 w3" "same_files w3 w'" using quietD [OF quiet_calls(2) sy] quietD [OF quiet_calls(3) dir] by simp_all
  then have same: "same_files w2 w'" by (rule same_files_trans)
  obtain v where v: "same_files w v" "wd_current v = None"
      "w1 = v\<lparr>wd_current := Some (own_file v [])\<rparr>"
    using cr unfolding create_new_def by (elim system_call_Ok) (auto simp: own_file_def split: option.splits)
  obtain out v2 where out: "next_outcome w1 = (out, v2)" by fastforce
  have "w2 = append_bytes Current bytes v2" using wr by (cases out) (auto simp: write_all_def out)
  then have "wd_current w2 = Some (own_file w2 bytes)" "wd_next w2 = None"
    using next_outcome_same [OF out] v assms(2) by (auto simp: append_bytes_def same_files_def own_file_def)
  then show ?thesis using same enc r by (auto simp: holds_def next_ok_def same_files_def own_file_def)
qed

lemma progress_reach_inv:
  assumes "progress_reach to_vec from_slice session s" and codec: "snapshot_codec to_vec from_slice"
  shows "\<exists>events. progress_inv to_vec session events s"
  using assms(1)
proof induction
  case (created now message w r w')
  then show ?case using reporter_create_holds by (fastforce simp: progress_inv_def)
next
  case (stepped s s')
  then show ?case using progress_inv_step [OF codec] by meson
qed

section \<open>Properties\<close>

text \<open>
  C32: The published snapshot is never torn. Whatever fails and wherever the process dies, the visible file is the complete text
  of one well-formed history: revisions numbered from 1, timestamps and every counter never decreasing, messages within their bound,
  the accepted phase first. A running reporter holds that same history, unless persistence has failed for it,
  and then the file is at most the one event ahead whose publication failed.
\<close>

theorem snapshot_never_torn:
  assumes "progress_reach to_vec from_slice session (x, w)" and "snapshot_codec to_vec from_slice"
  shows "\<exists>events t. history_ok events \<and> to_vec (document_of session events) = Some t
      \<and> map_option fl_bytes (wd_current w) = Some (t @ [CHR 0x0A])
      \<and> (\<forall>r. x = Some r \<longrightarrow> rp_events r = events \<or> rp_durable_failed r \<and> (\<exists>e. events = rp_events r @ [e]))"
proof -
  obtain events where inv: "progress_inv to_vec session events (x, w)" using progress_reach_inv [OF assms] by blast
  then obtain t where "history_ok events" "to_vec (document_of session events) = Some t" "wd_current w = Some (own_file w (t @ [CHR 0x0A]))"
    by (auto simp: progress_inv_def holds_def encode_document_Ok_iff)
  then show ?thesis using inv by (auto simp: progress_inv_def own_file_def)
qed

lemma system_call_fine [simp]:
  "wd_io w = [] \<Longrightarrow> system_call context act w =
     (case act w of (Ok x, w') \<Rightarrow> (Ok x, w') | (Err cause, w') \<Rightarrow> (refuse (IoError (context @ cause)), w'))"
  by (simp add: system_call_def next_outcome_def)

lemma read_fine:
  assumes "wd_io w = []" "holds to_vec session events w" "snapshot_codec to_vec from_slice"
    and "\<forall>f. wd_current w = Some f \<longrightarrow> length (fl_bytes f) \<le> MAX_PROGRESS_DOCUMENT_BYTES"
  shows "read_progress_events from_slice session w = (Ok events, w)"
proof -
  obtain t where t: "to_vec (document_of session events) = Some t" "wd_current w = Some (own_file w (t @ [CHR 0x0A]))" "history_ok events"
    using assms(2) by (auto simp: holds_def encode_document_Ok_iff)
  then have "validate_private_metadata (own_file w (t @ [CHR 0x0A])) role w = (Ok (), w)" for role
    using assms(4) by (auto simp: validate_private_metadata_def own_file_def)
  then have "read_private_bytes Current ''durable progress snapshot'' w = (Ok (t @ [CHR 0x0A]), w)"
    using assms(1) t by (simp add: read_private_bytes_def bind_io_def open_nofollow_def fstat_def read_to_end_def return_io_def)
      (simp add: own_file_def)
  moreover have "from_slice (t @ [CHR 0x0A]) = Some (document_of session events)" using assms(3) t by (simp add: snapshot_codec_def)
  moreover have "validate_document (document_of session events) session = Ok ()" using t(3) by (simp add: validate_document_Ok_iff)
  ultimately show ?thesis by (simp add: read_progress_events_def bind_io_def pure_io_def return_io_def) (simp add: document_of_def)
qed


text \<open>
  C33: The published history only grows. Over any further life of the process and any number of restarts, the history of the
  visible file is the earlier one with events added at its end: no published event is ever lost, changed or
  reordered.
\<close>

theorem history_only_grows:
  assumes "progress_reach to_vec from_slice session (x, w)" and "snapshot_codec to_vec from_slice"
    and "(progress_step to_vec from_slice session)\<^sup>*\<^sup>* (x, w) (x', w')"
  shows "\<exists>events more. Option.bind (wd_current w) (\<lambda>f. from_slice (fl_bytes f)) = Some (document_of session events)
     \<and> Option.bind (wd_current w') (\<lambda>f. from_slice (fl_bytes f)) = Some (document_of session (events @ more))"
proof -
  obtain events where inv: "progress_inv to_vec session events (x, w)" using progress_reach_inv [OF assms(1,2)] by blast
  have "\<exists>more. progress_inv to_vec session (events @ more) s" if "(progress_step to_vec from_slice session)\<^sup>*\<^sup>* (x, w) s" for s
    using that
  proof induction
    case base
    show ?case using inv by (intro exI [of _ "[]"]) simp
  next
    case (step s s')
    then obtain more where "progress_inv to_vec session (events @ more) s" by blast
    from progress_inv_step [OF assms(2) step(2) this] show ?case by (metis append.assoc)
  qed
  then obtain added where "progress_inv to_vec session (events @ added) (x', w')" using assms(3) by blast
  moreover have "Option.bind (wd_current v) (\<lambda>f. from_slice (fl_bytes f)) = Some (document_of session es)"
    if inv': "progress_inv to_vec session es (y, v)" for y v es
  proof -
    obtain t where "wd_current v = Some (own_file v (t @ [CHR 0x0A]))" "to_vec (document_of session es) = Some t"
      using inv' by (auto simp: progress_inv_def holds_def encode_document_Ok_iff)
    then show ?thesis using assms(2) by (simp add: own_file_def snapshot_codec_def)
  qed
  ultimately show ?thesis using inv by blast
qed

section \<open>A publication whose calls succeed\<close>

definition fine :: "nat \<Rightarrow> world \<Rightarrow> bool" where
  "fine n w \<longleftrightarrow> set (take n (wd_io w)) \<subseteq> {IoOk}"

definition later :: "world \<Rightarrow> world" where
  "later w = w\<lparr>wd_io := tl (wd_io w)\<rparr>"

lemma later_sel [simp]: "wd_current (later w) = wd_current w" "wd_next (later w) = wd_next w" "wd_uid (later w) = wd_uid w"
    "wd_gid (later w) = wd_gid w" "wd_io (later w) = tl (wd_io w)"
  by (simp_all add: later_def)

lemma fine_Suc: "fine (Suc n) w \<Longrightarrow> next_outcome w = (IoOk, later w) \<and> fine n (later w)"
  by (cases "wd_io w") (auto simp: fine_def next_outcome_def later_def)

lemma fine_update [simp]: "fine n (w\<lparr>wd_current := a\<rparr>) = fine n w" "fine n (w\<lparr>wd_next := b\<rparr>) = fine n w"
  by (simp_all add: fine_def)

lemma call_fine:
  "fine (Suc n) w \<Longrightarrow> system_call context act w =
     (case act (later w) of (Ok x, w') \<Rightarrow> (Ok x, w') | (Err cause, w') \<Rightarrow> (refuse (IoError (context @ cause)), w'))"
  by (simp add: system_call_def fine_Suc)

lemma precommit_fine:
  assumes "fine 4 w" and "wd_next w = None"
  shows "precommit bytes w = (Ok (), False, w\<lparr>wd_current := Some (own_file w bytes), wd_next := None, wd_io := drop 4 (wd_io w)\<rparr>)"
proof -
  have f: "fine (Suc 3) w" using assms(1) by simp
  let ?w1 = "(later w)\<lparr>wd_next := Some (own_file w [])\<rparr>"
  have f1: "fine (Suc 2) ?w1" using fine_Suc [OF f] by (simp add: numeral_eq_Suc)
  have c: "create_new ''create unpublished progress replacement'' Following w = (Ok (), ?w1)"
    using assms(2) by (simp add: create_new_def call_fine [OF f] own_file_def)
  let ?w2 = "(later ?w1)\<lparr>wd_next := Some (own_file w bytes)\<rparr>"
  have f2: "fine (Suc 1) ?w2" using fine_Suc [OF f1] by (simp add: numeral_eq_Suc)
  have wr: "write_all ''write/sync unpublished progress replacement'' Following bytes ?w1 = (Ok (), ?w2)"
    using fine_Suc [OF f1] by (simp add: write_all_def append_bytes_def own_file_def)
  have f3: "fine (Suc 0) (later ?w2)" using fine_Suc [OF f2] by simp
  have sy: "sync_all ''write/sync unpublished progress replacement'' ?w2 = (Ok (), later ?w2)"
    by (simp add: sync_all_def call_fine [OF f2])
  have rn: "rename_next ''atomically publish progress replacement'' (later ?w2)
      = (Ok (), (later (later ?w2))\<lparr>wd_current := Some (own_file w bytes), wd_next := None\<rparr>)"
    by (simp add: rename_next_def call_fine [OF f3])
  have "drop 4 (wd_io w) = tl (tl (tl (tl (wd_io w))))" by (simp add: numeral_eq_Suc drop_Suc)
  then have "(later (later ?w2))\<lparr>wd_current := Some (own_file w bytes), wd_next := None\<rparr>
      = w\<lparr>wd_current := Some (own_file w bytes), wd_next := None, wd_io := drop 4 (wd_io w)\<rparr>"
    by (simp add: later_def)
  then show ?thesis using c wr sy rn by (simp add: precommit_def bind_io_def)
qed

lemma replace_fine:
  assumes "fine 6 w" "wd_next w = None" "wd_current w = Some (own_file w old)" "length old \<le> MAX_PROGRESS_DOCUMENT_BYTES"
    and enc: "encode_document to_vec document = Ok bytes"
  shows "replace_atomically to_vec document w =
    publication_barrier bytes (w\<lparr>wd_current := Some (own_file w bytes), wd_next := None, wd_io := drop 6 (wd_io w)\<rparr>)"
proof -
  have f: "fine (Suc 5) w" using assms(1) by simp
  have f1: "fine (Suc 4) (later w)" using fine_Suc [OF f] by (simp add: numeral_eq_Suc)
  have f2: "fine 4 (later (later w))" using fine_Suc [OF f1] by simp
  have va: "validate_private_file Current ''current progress snapshot'' w = (Ok (), later w)"
    using assms(3,4) by (simp add: validate_private_file_def bind_io_def symlink_metadata_def call_fine [OF f] validate_private_metadata_def)
      (simp add: own_file_def)
  have st: "symlink_metadata ''stat unpublished progress replacement'' Following (later w) = (Ok None, later (later w))"
    using assms(2) by (simp add: symlink_metadata_def call_fine [OF f1])
  have "drop 6 (wd_io w) = drop 4 (tl (tl (wd_io w)))" by (simp add: numeral_eq_Suc drop_Suc)
  then have "precommit bytes (later (later w)) = (Ok (), False, w\<lparr>wd_current := Some (own_file w bytes), wd_next := None, wd_io := drop 6 (wd_io w)\<rparr>)"
    using precommit_fine [OF f2, of bytes] assms(2) by (simp add: later_def own_file_def)
  then show ?thesis using va st enc by (simp add: replace_atomically_def bind_io_def pure_io_def)
qed

lemma next_event_exists:
  assumes "history_ok events" "counters_le (pe_counters (last events)) counters"
  shows "\<exists>event. next_event events now phase message counters = Ok event \<and> pe_at_unix_ms event = max now (pe_at_unix_ms (last events))"
proof -
  have ne: "events \<noteq> []" using assms(1) by (simp add: history_ok_def)
  then have rev: "unat (pe_revision (last events)) = length events" "length events \<le> 4096"
    using assms(1) by (auto simp: history_ok_def last_conv_nth)
  then have "checked_add (pe_revision (last events)) 1 \<noteq> None" by (simp add: checked_add_None_iff)
  then obtain revision where "checked_add (pe_revision (last events)) 1 = Some revision" by blast
  moreover have "require_monotonic_counters (pe_counters (last events)) counters = Ok ()"
    using assms(2) by (simp add: require_monotonic_Ok_iff)
  ultimately show ?thesis using ne by (simp add: next_event_def)
qed

text \<open>What a caller has to respect for its publication to be one: an open reporter with room, a message within its bound, counters that do not regress.\<close>

definition publishable :: "reporter \<Rightarrow> string \<Rightarrow> progress_counters \<Rightarrow> bool" where
  "publishable r message counters \<longleftrightarrow>
     \<not> rp_durable_failed r \<and> length (rp_events r) < 4096 \<and> message_ok message \<and> counters_le (pe_counters (last (rp_events r))) counters"

lemma publish_to_barrier:
  assumes reach: "progress_reach to_vec from_slice session (Some r, w)" "snapshot_codec to_vec from_slice"
    and calls: "fine 6 w" "wd_next w = None" and "publishable r message counters"
    and size: "\<forall>f. wd_current w = Some f \<longrightarrow> length (fl_bytes f) \<le> MAX_PROGRESS_DOCUMENT_BYTES" 
    and total: "\<And>event. next_event (rp_events r) now phase message counters = Ok event
      \<Longrightarrow> to_vec (document_of session (rp_events r @ [event])) \<noteq> None"
  obtains event t where "next_event (rp_events r) now phase message counters = Ok event" "history_ok (rp_events r @ [event])"
    "unat (pe_revision event) = length (rp_events r) + 1" "pe_phase event = phase" "pe_message event = message" "pe_counters event = counters"
    "pe_at_unix_ms event = max now (pe_at_unix_ms (last (rp_events r)))"
    "to_vec (document_of session (rp_events r @ [event])) = Some t"
    "replace_atomically to_vec (document_of (rp_session_id r) (rp_events r @ [event])) w =
       publication_barrier (t @ [CHR 0x0A]) (w\<lparr>wd_current := Some (own_file w (t @ [CHR 0x0A])), wd_next := None, wd_io := drop 6 (wd_io w)\<rparr>)"
proof -
  obtain events where inv: "progress_inv to_vec session events (Some r, w)" using progress_reach_inv [OF reach] by blast
  then have r: "rp_session_id r = session" "rp_events r = events" using assms(5) by (auto simp: progress_inv_def publishable_def)
  have vis: "holds to_vec session (rp_events r) w" using inv r by (simp add: progress_inv_def)
  then obtain old where old: "wd_current w = Some (own_file w old)" by (auto simp: holds_def)
  then have len: "length old \<le> MAX_PROGRESS_DOCUMENT_BYTES" using size by (simp add: own_file_def)
  obtain event where ev: "next_event (rp_events r) now phase message counters = Ok event"
      "pe_at_unix_ms event = max now (pe_at_unix_ms (last (rp_events r)))"
    using next_event_exists [OF holds_history [OF vis], of counters now phase message] assms(5) by (auto simp: publishable_def)
  have "message_ok message" "length (rp_events r) < 4096" using assms(5) by (auto simp: publishable_def)
  note ext = next_event_extends [OF holds_history [OF vis] ev(1) this]
  obtain t where t: "to_vec (document_of session (rp_events r @ [event])) = Some t" using total [OF ev(1)] by blast
  then have "encode_document to_vec (document_of session (rp_events r @ [event])) = Ok (t @ [CHR 0x0A])"
    using ext(1) by (simp add: encode_document_Ok_iff)
  from replace_fine [OF calls old len this] show thesis using that ev ext t r by simp
qed

text \<open>
  C35: A publication whose system calls succeed is published: the reporter returns and appends the event with the
  next revision, the caller's phase, message and counters and a timestamp not before the previous one, and the visible file is
  the complete text of the history with that event.
\<close>

theorem publication_succeeds:
  assumes "progress_reach to_vec from_slice session (Some r, w)" "snapshot_codec to_vec from_slice"
    and "\<And>event. next_event (rp_events r) now phase message counters = Ok event
      \<Longrightarrow> to_vec (document_of session (rp_events r @ [event])) \<noteq> None"
    and "wd_io w = []" "wd_next w = None" "publishable r message counters"
    and "\<forall>f. wd_current w = Some f \<longrightarrow> length (fl_bytes f) \<le> MAX_PROGRESS_DOCUMENT_BYTES"
  shows "\<exists>event t w'. publish to_vec now phase message counters r w = (Ok event, r\<lparr>rp_events := rp_events r @ [event]\<rparr>, w')
     \<and> unat (pe_revision event) = length (rp_events r) + 1 \<and> pe_at_unix_ms event = max now (pe_at_unix_ms (last (rp_events r)))
     \<and> pe_phase event = phase \<and> pe_message event = message \<and> pe_counters event = counters
     \<and> to_vec (document_of session (rp_events r @ [event])) = Some t \<and> map_option fl_bytes (wd_current w') = Some (t @ [CHR 0x0A])"
proof -
  have "fine 6 w" using assms(4) by (simp add: fine_def)
  from publish_to_barrier [OF assms(1,2) this assms(5,6,7,3), of now phase] obtain event t where
    ev: "next_event (rp_events r) now phase message counters = Ok event"
    "unat (pe_revision event) = length (rp_events r) + 1" "pe_phase event = phase" "pe_message event = message" "pe_counters event = counters"
    "pe_at_unix_ms event = max now (pe_at_unix_ms (last (rp_events r)))" "to_vec (document_of session (rp_events r @ [event])) = Some t"
    and go: "replace_atomically to_vec (document_of (rp_session_id r) (rp_events r @ [event])) w =
       publication_barrier (t @ [CHR 0x0A]) (w\<lparr>wd_current := Some (own_file w (t @ [CHR 0x0A])), wd_next := None, wd_io := drop 6 (wd_io w)\<rparr>)"
    by metis
  have "validate_message message = Ok ()" using assms(6) by (simp add: publishable_def validate_message_Ok_iff)
  then have "publish to_vec now phase message counters r w
      = (Ok event, r\<lparr>rp_events := rp_events r @ [event]\<rparr>, w\<lparr>wd_current := Some (own_file w (t @ [CHR 0x0A])), wd_next := None\<rparr>)"
    using assms(4,6) ev(1) go
    by (simp add: publish_def publishable_def MAX_PROGRESS_EVENTS_def publication_barrier_def catch_io_def sync_directory_def return_io_def)
  with ev show ?thesis by (simp add: own_file_def)
qed

text \<open>
  C36: After the rename a failure can leave the memory behind the file. When the directory barrier fails and the
  visible file cannot be read again, the publication is refused and persistence is marked as failed, the reporter keeps the history without the event, while
  the visible file already holds the history with it.
\<close>

theorem memory_lags_visible_file:
  assumes "progress_reach to_vec from_slice session (Some r, w)" "snapshot_codec to_vec from_slice"
    and "\<And>event. next_event (rp_events r) now phase message counters = Ok event
      \<Longrightarrow> to_vec (document_of session (rp_events r @ [event])) \<noteq> None"
    and "wd_io w = replicate 6 IoOk @ [IoFail 0, IoFail 0]" "wd_next w = None" "publishable r message counters"
    and "\<forall>f. wd_current w = Some f \<longrightarrow> length (fl_bytes f) \<le> MAX_PROGRESS_DOCUMENT_BYTES"
  shows "\<exists>event t e w'. publish to_vec now phase message counters r w = (Err (Failed e), r\<lparr>rp_durable_failed := True\<rparr>, w')
     \<and> to_vec (document_of session (rp_events r @ [event])) = Some t \<and> map_option fl_bytes (wd_current w') = Some (t @ [CHR 0x0A])"
proof -
  have "fine 6 w" using assms(4) by (simp add: fine_def numeral_eq_Suc)
  from publish_to_barrier [OF assms(1,2) this assms(5,6,7,3), of now phase] obtain event t where
    ev: "next_event (rp_events r) now phase message counters = Ok event" "to_vec (document_of session (rp_events r @ [event])) = Some t"
    and go: "replace_atomically to_vec (document_of (rp_session_id r) (rp_events r @ [event])) w =
       publication_barrier (t @ [CHR 0x0A]) (w\<lparr>wd_current := Some (own_file w (t @ [CHR 0x0A])), wd_next := None, wd_io := drop 6 (wd_io w)\<rparr>)"
    by metis
  have io: "drop 6 (wd_io w) = [IoFail 0, IoFail 0]" using assms(4) by simp
  have barrier: "\<exists>e. publication_barrier bytes (w\<lparr>wd_current := c, wd_next := None, wd_io := [IoFail 0, IoFail 0]\<rparr>)
      = (Err (Failed e), w\<lparr>wd_current := c, wd_next := None, wd_io := []\<rparr>)" for bytes c
    by (simp add: publication_barrier_def catch_io_def bind_io_def sync_directory_def read_private_bytes_def open_nofollow_def system_call_def next_outcome_def)
  have "validate_message message = Ok ()" using assms(6) by (simp add: publishable_def validate_message_Ok_iff)
  then obtain e where "publish to_vec now phase message counters r w = (Err (Failed e), r\<lparr>rp_durable_failed := True\<rparr>,
      w\<lparr>wd_current := Some (own_file w (t @ [CHR 0x0A])), wd_next := None, wd_io := []\<rparr>)"
    using assms(6) ev(1) go barrier [of "t @ [CHR 0x0A]" "Some (own_file w (t @ [CHR 0x0A]))"]
    by (auto simp: publish_def publishable_def MAX_PROGRESS_EVENTS_def io)
  with ev show ?thesis by (auto simp: own_file_def)
qed

section \<open>One life of a snapshot\<close>

definition sample_first :: progress_event where
  "sample_first = \<lparr>pe_revision = 1, pe_at_unix_ms = 5, pe_phase = Accepted, pe_message = ''accepted'', pe_counters = progress_counters_default\<rparr>"

definition sample_second :: progress_event where
  "sample_second = \<lparr>pe_revision = 2, pe_at_unix_ms = 7, pe_phase = Staging, pe_message = ''staging'', pe_counters = progress_counters_default\<rparr>"

definition sample_to_vec :: "progress_document \<Rightarrow> string option" where
  "sample_to_vec d =
     (if d = document_of ''s'' [sample_first] then Some ''1''
      else if d = document_of ''s'' [sample_first, sample_second] then Some ''2'' else None)"

definition sample_from_slice :: "string \<Rightarrow> progress_document option" where
  "sample_from_slice s =
     (if s = ''1'' @ [CHR 0x0A] then Some (document_of ''s'' [sample_first])
      else if s = ''2'' @ [CHR 0x0A] then Some (document_of ''s'' [sample_first, sample_second]) else None)"

definition sample_world :: world where
  "sample_world = \<lparr>wd_current = None, wd_next = None, wd_uid = 1000, wd_gid = 1000, wd_io = []\<rparr>"

definition sample_reporter :: reporter where
  "sample_reporter = \<lparr>rp_session_id = ''s'', rp_events = [sample_first], rp_durable_failed = False\<rparr>"

definition sample_created :: world where
  "sample_created = sample_world\<lparr>wd_current := Some (own_file sample_world (''1'' @ [CHR 0x0A]))\<rparr>"

lemma sample_codec: "snapshot_codec sample_to_vec sample_from_slice"
  by (auto simp: snapshot_codec_def sample_to_vec_def sample_from_slice_def)

lemma sample_create: "reporter_create sample_to_vec 5 ''s'' ''accepted'' sample_world = (Ok sample_reporter, sample_created)"
proof -
  have "encode_document sample_to_vec (document_of ''s'' [sample_first]) = Ok (''1'' @ [CHR 0x0A])"
    by (simp add: encode_document_Ok_iff sample_to_vec_def) (simp add: history_ok_def sample_first_def message_ok_def)
  moreover have "validate_message ''accepted'' = Ok ()" by (simp add: validate_message_Ok_iff message_ok_def)
  ultimately show ?thesis
    by (simp add: reporter_create_def write_initial_def bind_io_def pure_io_def return_io_def create_new_def write_all_def sync_all_def sync_directory_def
        append_bytes_def next_outcome_def sample_world_def sample_created_def own_file_def sample_reporter_def flip: sample_first_def)
qed

lemma sample_reach: "progress_reach sample_to_vec sample_from_slice ''s'' (Some sample_reporter, sample_created)"
  by (rule created [OF sample_create]) (simp add: sample_world_def)

lemma sample_publishable: "publishable sample_reporter ''staging'' progress_counters_default"
  by (simp add: publishable_def sample_reporter_def message_ok_def counters_le_def sample_first_def)

lemma sample_next: "next_event (rp_events sample_reporter) 7 Staging ''staging'' progress_counters_default = Ok sample_second"
proof -
  have "checked_add (1 :: u64) 1 = Some 2" by (simp add: checked_add_Some_iff)
  moreover have "require_monotonic_counters progress_counters_default progress_counters_default = Ok ()"
    by (simp add: require_monotonic_Ok_iff counters_le_def)
  ultimately show ?thesis by (simp add: next_event_def sample_reporter_def sample_first_def sample_second_def max_def)
qed

lemma sample_size: "\<forall>f. wd_current sample_created = Some f \<or> wd_next sample_created = Some f
    \<longrightarrow> length (fl_bytes f) \<le> MAX_PROGRESS_DOCUMENT_BYTES"
  by (simp add: sample_created_def sample_world_def own_file_def MAX_PROGRESS_DOCUMENT_BYTES_def)

theorem snapshot_never_torn_witness:
  "\<exists>events t. history_ok events \<and> sample_to_vec (document_of ''s'' events) = Some t
     \<and> map_option fl_bytes (wd_current sample_created) = Some (t @ [CHR 0x0A])"
  using snapshot_never_torn [OF sample_reach sample_codec] by blast


theorem history_only_grows_witness:
  "\<exists>events more. Option.bind (wd_current sample_created) (\<lambda>f. sample_from_slice (fl_bytes f)) = Some (document_of ''s'' (events @ more))"
  using history_only_grows [OF sample_reach sample_codec rtranclp.rtrancl_refl] by blast

theorem publication_succeeds_witness:
  "\<exists>event w'. publish sample_to_vec 7 Staging ''staging'' progress_counters_default sample_reporter sample_created
     = (Ok event, sample_reporter\<lparr>rp_events := [sample_first, event]\<rparr>, w') \<and> unat (pe_revision event) = 2"
proof -
  have "sample_to_vec (document_of ''s'' (rp_events sample_reporter @ [event])) \<noteq> None"
    if "next_event (rp_events sample_reporter) 7 Staging ''staging'' progress_counters_default = Ok event" for event
    using that by (simp add: sample_next) (simp add: sample_reporter_def sample_to_vec_def)
  from publication_succeeds [OF sample_reach sample_codec this _ _ sample_publishable] sample_size
  show ?thesis by (fastforce simp: sample_created_def sample_world_def sample_reporter_def)
qed

theorem memory_lags_visible_file_witness:
  "\<exists>e w'. publish sample_to_vec 7 Staging ''staging'' progress_counters_default sample_reporter
       (sample_created\<lparr>wd_io := replicate 6 IoOk @ [IoFail 0, IoFail 0]\<rparr>)
     = (Err (Failed e), sample_reporter\<lparr>rp_durable_failed := True\<rparr>, w') \<and> wd_current w' \<noteq> wd_current sample_created"
proof -
  let ?w = "sample_created\<lparr>wd_io := replicate 6 IoOk @ [IoFail 0, IoFail 0]\<rparr>"
  have reach: "progress_reach sample_to_vec sample_from_slice ''s'' (Some sample_reporter, ?w)"
    by (rule stepped [OF sample_reach outcomes])
  have total: "sample_to_vec (document_of ''s'' (rp_events sample_reporter @ [event])) \<noteq> None"
    if "next_event (rp_events sample_reporter) 7 Staging ''staging'' progress_counters_default = Ok event" for event
    using that by (simp add: sample_next) (simp add: sample_reporter_def sample_to_vec_def)
  obtain event t e w' where "publish sample_to_vec 7 Staging ''staging'' progress_counters_default sample_reporter ?w
      = (Err (Failed e), sample_reporter\<lparr>rp_durable_failed := True\<rparr>, w')"
    "sample_to_vec (document_of ''s'' (rp_events sample_reporter @ [event])) = Some t" "map_option fl_bytes (wd_current w') = Some (t @ [CHR 0x0A])"
    using memory_lags_visible_file [OF reach sample_codec total _ _ sample_publishable] sample_size
    by (fastforce simp: sample_created_def sample_world_def)
  moreover from this have "t = ''2''" by (auto simp: sample_to_vec_def sample_reporter_def document_of_def split: if_splits)
  ultimately show ?thesis by (auto simp: sample_created_def own_file_def)
qed

end
