(* ===== verification/Deliverables.thy ===== *)
theory Deliverables
  imports Utf8 "HOL-Library.Sublist" "HOL-Library.Code_Target_Nat"
begin

text \<open>
  \<^verbatim>\<open>src/deliverables.rs\<close>: the files a session's run must leave beneath the artifacts root. The compact JSON of a
  list of strings is that of \<^verbatim>\<open>serde_json\<close>: \<open>to_json\<close> and \<open>from_json\<close> are arguments. An error keeps the entry, the
  quoted value (what of it is shown, and its length when it was cut) and the rule, not the sentence built of them.
\<close>

definition ARTIFACTS_ROOT :: string where "ARTIFACTS_ROOT = ''/artifacts''"

definition NAME_MAX :: nat where "NAME_MAX = 255"

definition PATH_MAX :: nat where "PATH_MAX = 4096"

definition MAX_DELIVERABLE_PATH_BYTES :: nat where
  "MAX_DELIVERABLE_PATH_BYTES = PATH_MAX - 1 - (length ARTIFACTS_ROOT + 1)"

definition MAX_ARG_STRLEN :: nat where "MAX_ARG_STRLEN = 32 * 4096"

definition ARGUMENT_PREFIX :: string where "ARGUMENT_PREFIX = ''--deliverables=''"

definition MAX_DELIVERABLES_JSON_BYTES :: nat where
  "MAX_DELIVERABLES_JSON_BYTES = MAX_ARG_STRLEN - length ARGUMENT_PREFIX - 1"

definition RECORD_PREFIX :: string where "RECORD_PREFIX = ''{\"deliverables\":''"

definition RECORD_SUFFIX :: string where "RECORD_SUFFIX = ''}'' @ [CHR 0x0A]"

definition MAX_RECORD_BYTES :: nat where
  "MAX_RECORD_BYTES = length RECORD_PREFIX + MAX_DELIVERABLES_JSON_BYTES + length RECORD_SUFFIX"

record deliverables =
  dl_paths :: "string list"
  dl_json :: string

datatype path_rule = IsEmpty | ContainsNul | StartsWithSlash | EmptyComponent | DotComponent string
  | LongComponent nat | LongPath nat nat | Repeats nat

datatype record_fault = ObservedBytes nat | NotUtf8 | ObservedText "string \<times> nat option" | NotStringArray
  | NotCompact "string \<times> nat option"

datatype deliverables_error =
    EntryError nat "string \<times> nat option" path_rule
  | NotSerializable
  | ListTooLong nat
  | Malformed record_fault

text \<open>
  \<^verbatim>\<open>value.char_indices().nth(128)\<close> is the byte offset of the character after the first 128, if there is one.
\<close>

fun char_index_nth :: "nat \<Rightarrow> nat \<Rightarrow> string \<Rightarrow> nat option" where
  "char_index_nth 0 pos s = (if s = [] then None else Some pos)"
| "char_index_nth (Suc n) pos s =
     (case utf8_head s of None \<Rightarrow> None | Some k \<Rightarrow> char_index_nth n (pos + k) (drop k s))"

definition quoted :: "string \<Rightarrow> string \<times> nat option" where
  "quoted v = (case char_index_nth 128 0 v of None \<Rightarrow> (v, None) | Some pos \<Rightarrow> (take pos v, Some (length v)))"

definition entry_error :: "nat \<Rightarrow> string \<Rightarrow> path_rule \<Rightarrow> deliverables_error" where
  "entry_error index path rule = EntryError index (quoted path) rule"

text \<open>\<^verbatim>\<open>path.split('/')\<close>\<close>

fun split_slash :: "string \<Rightarrow> string list" where
  "split_slash [] = [[]]"
| "split_slash (c # cs) =
     (if c = CHR ''/'' then [] # split_slash cs
      else case split_slash cs of [] \<Rightarrow> [[c]] | part # parts \<Rightarrow> (c # part) # parts)"

definition check_component :: "nat \<Rightarrow> string \<Rightarrow> unit \<Rightarrow> string \<Rightarrow> (unit, deliverables_error) result" where
  "check_component index path _ component =
     (if component = [] then Err (entry_error index path EmptyComponent)
      else if component = ''.'' \<or> component = ''..'' then Err (entry_error index path (DotComponent component))
      else if NAME_MAX < length component then Err (entry_error index path (LongComponent (length component)))
      else Ok ())"

definition check_path :: "nat \<Rightarrow> string \<Rightarrow> (unit, deliverables_error) result" where
  "check_path index path =
     (if path = [] then Err (entry_error index path IsEmpty)
      else if CHR 0x00 \<in> set path then Err (entry_error index path ContainsNul)
      else if hd path = CHR ''/'' then Err (entry_error index path StartsWithSlash)
      else bindR (foldR (check_component index path) () (split_slash path)) (\<lambda>_.
        if MAX_DELIVERABLE_PATH_BYTES < length path
        then Err (entry_error index path (LongPath (length path) (length ARTIFACTS_ROOT + 1 + length path)))
        else Ok ()))"

text \<open>
  The hash map of \<^verbatim>\<open>Deliverables::new\<close> as the map from a path to the last index inserted for it: the insertion that
  finds an earlier one is refused.
\<close>

fun check_paths :: "nat \<Rightarrow> (string \<rightharpoonup> nat) \<Rightarrow> string list \<Rightarrow> (unit, deliverables_error) result" where
  "check_paths index first_index [] = Ok ()"
| "check_paths index first_index (path # paths) =
     bindR (check_path index path) (\<lambda>_.
       case first_index path of
         Some earlier \<Rightarrow> Err (entry_error index path (Repeats earlier))
       | None \<Rightarrow> check_paths (index + 1) (first_index(path \<mapsto> index)) paths)"

definition deliverables_new :: "(string list \<Rightarrow> string option) \<Rightarrow> string list \<Rightarrow> (deliverables, deliverables_error) result" where
  "deliverables_new to_json paths =
     bindR (check_paths 0 Map.empty paths) (\<lambda>_.
     bindR (ok_or (to_json paths) NotSerializable) (\<lambda>json.
       if MAX_DELIVERABLES_JSON_BYTES < length json then Err (ListTooLong (length json))
       else Ok \<lparr>dl_paths = paths, dl_json = json\<rparr>))"

definition argument :: "deliverables \<Rightarrow> string" where
  "argument d = ARGUMENT_PREFIX @ dl_json d"

definition control_record :: "deliverables \<Rightarrow> string" where
  "control_record d = RECORD_PREFIX @ dl_json d @ RECORD_SUFFIX"

definition strip_affixes :: "string \<Rightarrow> string option" where
  "strip_affixes bytes =
     (if prefix RECORD_PREFIX bytes then
        let rest = drop (length RECORD_PREFIX) bytes in
        if suffix RECORD_SUFFIX rest then Some (take (length rest - length RECORD_SUFFIX) rest) else None
      else None)"

definition from_record :: "(string list \<Rightarrow> string option) \<Rightarrow> (string \<Rightarrow> string list option) \<Rightarrow> string
    \<Rightarrow> (deliverables, deliverables_error) result" where
  "from_record to_json from_json bytes =
     (if MAX_RECORD_BYTES < length bytes then Err (Malformed (ObservedBytes (length bytes)))
      else if \<not> utf8_valid bytes then Err (Malformed NotUtf8)
      else bindR (ok_or (strip_affixes bytes) (Malformed (ObservedText (quoted bytes)))) (\<lambda>json.
           bindR (ok_or (from_json json) (Malformed NotStringArray)) (\<lambda>paths.
           bindR (deliverables_new to_json paths) (\<lambda>d.
             if dl_json d \<noteq> json then Err (Malformed (NotCompact (quoted (dl_json d)))) else Ok d))))"

section \<open>What an admitted list is\<close>

text \<open>Joining components with single slashes, the inverse of the split.\<close>

fun join_slash :: "string list \<Rightarrow> string" where
  "join_slash [] = []"
| "join_slash [part] = part"
| "join_slash (part # parts) = part @ CHR ''/'' # join_slash parts"

lemma split_slash_nonempty [simp]: "split_slash s \<noteq> []"
  by (cases s) (auto split: list.split)

lemma join_split_slash: "join_slash (split_slash s) = s"
proof (induction s)
  case (Cons c cs)
  then show ?case by (cases "split_slash cs"; cases "tl (split_slash cs)") auto
qed simp

lemma split_slash_parts: "\<forall>part \<in> set (split_slash s). CHR ''/'' \<notin> set part"
  by (induction s) (auto split: list.splits)

lemma split_slash_join:
  "parts \<noteq> [] \<Longrightarrow> \<forall>part \<in> set parts. CHR ''/'' \<notin> set part \<Longrightarrow> split_slash (join_slash parts) = parts"
proof (induction parts rule: join_slash.induct)
  case (2 part)
  then have "CHR ''/'' \<notin> set part" by simp
  then show ?case by (induction part) auto
next
  case (3 part q parts)
  then have "CHR ''/'' \<notin> set part" and rest: "split_slash (join_slash (q # parts)) = q # parts" by simp_all
  then show ?case by (induction part) auto
qed simp

definition file_name :: "string \<Rightarrow> bool" where
  "file_name part \<longleftrightarrow> part \<noteq> [] \<and> part \<noteq> ''.'' \<and> part \<noteq> ''..'' \<and> length part \<le> NAME_MAX
     \<and> CHR ''/'' \<notin> set part \<and> CHR 0x00 \<notin> set part"

text \<open>A path the client opens as it is written: file names joined by single slashes, within the kernel's bounds.\<close>

definition beneath_artifacts :: "string \<Rightarrow> bool" where
  "beneath_artifacts path \<longleftrightarrow>
     (\<exists>parts. parts \<noteq> [] \<and> list_all file_name parts \<and> path = join_slash parts)
     \<and> length (ARTIFACTS_ROOT @ ''/'' @ path) + 1 \<le> PATH_MAX"

lemma foldR_check: "(foldR (\<lambda>u x. f u x) () xs = Ok (u :: unit)) = (\<forall>x \<in> set xs. f () x = Ok ())"
  by (induction xs) auto

lemma check_component_Ok_iff:
  "check_component index path u part = Ok () \<longleftrightarrow> part \<noteq> [] \<and> part \<noteq> ''.'' \<and> part \<noteq> ''..'' \<and> length part \<le> NAME_MAX"
  by (auto simp: check_component_def)

lemma set_join_slash: "set (join_slash parts) \<subseteq> insert (CHR ''/'') (\<Union> (set ` set parts))"
  by (induction parts rule: join_slash.induct) auto

lemma subset_join_slash: "part \<in> set parts \<Longrightarrow> set part \<subseteq> set (join_slash parts)"
  by (induction parts rule: join_slash.induct) auto

lemma file_names_iff:
  "list_all file_name (split_slash path) \<and> path \<noteq> [] \<longleftrightarrow>
     path \<noteq> [] \<and> CHR 0x00 \<notin> set path \<and> hd path \<noteq> CHR ''/''
     \<and> (\<forall>part \<in> set (split_slash path). part \<noteq> [] \<and> part \<noteq> ''.'' \<and> part \<noteq> ''..'' \<and> length part \<le> NAME_MAX)"
proof -
  have nul: "CHR 0x00 \<notin> set path \<longleftrightarrow> (\<forall>part \<in> set (split_slash path). CHR 0x00 \<notin> set part)"
    using subset_join_slash [of _ "split_slash path"] set_join_slash [of "split_slash path"] unfolding join_split_slash by auto
  have "hd path \<noteq> CHR ''/''" if "\<forall>part \<in> set (split_slash path). part \<noteq> []" "path \<noteq> []"
    using that by (cases path) auto
  with nul split_slash_parts [of path] show ?thesis by (auto simp: file_name_def list_all_iff)
qed

lemma check_path_Ok_iff: "check_path index path = Ok () \<longleftrightarrow> beneath_artifacts path"
proof -
  have split: "(\<exists>parts. parts \<noteq> [] \<and> list_all file_name parts \<and> path = join_slash parts) \<longleftrightarrow>
      list_all file_name (split_slash path) \<and> path \<noteq> []" (is "?l \<longleftrightarrow> ?r")
  proof
    assume ?l
    then obtain parts where parts: "parts \<noteq> []" "list_all file_name parts" "path = join_slash parts" by blast
    then have "split_slash path = parts" by (simp add: split_slash_join list_all_iff file_name_def)
    moreover have "path \<noteq> []" using parts by (cases parts rule: join_slash.cases) (auto simp: file_name_def)
    ultimately show ?r using parts by simp
  next
    assume ?r
    then show ?l using join_split_slash [of path] split_slash_nonempty by metis
  qed
  show ?thesis
    unfolding beneath_artifacts_def split file_names_iff
    by (auto simp: check_path_def foldR_check check_component_Ok_iff MAX_DELIVERABLE_PATH_BYTES_def PATH_MAX_def ARTIFACTS_ROOT_def)
qed

lemma check_paths_Ok_iff:
  "check_paths index seen paths = Ok () \<longleftrightarrow> list_all beneath_artifacts paths \<and> distinct paths \<and> set paths \<inter> dom seen = {}"
proof (induction paths arbitrary: index seen)
  case (Cons path paths)
  show ?case by (cases "seen path") (auto simp: check_path_Ok_iff Cons.IH split: if_splits)
qed simp

definition deliverables_ok :: "(string list \<Rightarrow> string option) \<Rightarrow> deliverables \<Rightarrow> bool" where
  "deliverables_ok to_json d \<longleftrightarrow>
     list_all beneath_artifacts (dl_paths d) \<and> distinct (dl_paths d) \<and> to_json (dl_paths d) = Some (dl_json d)
     \<and> length (argument d) + 1 \<le> MAX_ARG_STRLEN"

lemmas deliverables_bounds = MAX_DELIVERABLES_JSON_BYTES_def MAX_ARG_STRLEN_def ARGUMENT_PREFIX_def MAX_RECORD_BYTES_def

lemma deliverables_new_Ok_iff:
  "deliverables_new to_json paths = Ok d \<longleftrightarrow> deliverables_ok to_json d \<and> dl_paths d = paths"
  by (cases d; cases "to_json paths")
    (auto simp: deliverables_new_def check_paths_Ok_iff deliverables_ok_def argument_def deliverables_bounds)

lemma from_record_Ok_iff:
  "from_record to_json from_json bytes = Ok d \<longleftrightarrow>
     length bytes \<le> MAX_RECORD_BYTES \<and> utf8_valid bytes \<and> bytes = control_record d \<and> from_json (dl_json d) = Some (dl_paths d)
     \<and> deliverables_ok to_json d"
proof -
  have "strip_affixes bytes = Some json \<longleftrightarrow> bytes = RECORD_PREFIX @ json @ RECORD_SUFFIX" for json
    by (auto simp: strip_affixes_def prefix_def suffix_def Let_def)
  then show ?thesis
    by (auto simp: from_record_def deliverables_new_Ok_iff control_record_def)
qed

text \<open>
  C37: \<^verbatim>\<open>Deliverables::new\<close> admits exactly the lists of distinct paths each of which is file names joined by single
  slashes, none of them a dot component or longer than a Linux name, that fits a Linux path beneath the artifacts root
  with its terminator, and whose compact JSON fits one argument of \<^verbatim>\<open>execve\<close> with its prefix and terminator. Nothing is
  normalised: the value holds the list as it was declared.
\<close>

theorem deliverables_admitted_exact:
  "deliverables_new to_json paths = Ok d \<longleftrightarrow>
     dl_paths d = paths \<and> distinct paths \<and> list_all beneath_artifacts paths
     \<and> to_json paths = Some (dl_json d) \<and> length (argument d) + 1 \<le> MAX_ARG_STRLEN"
  by (auto simp: deliverables_new_Ok_iff deliverables_ok_def)

text \<open>
  C38: A control record has one spelling. The record of an admitted list is read back as that list, and whatever
  bytes are read as a list are exactly the record of that list; so a list has one record and a record one list.
  What is used of the JSON library: the text it writes is UTF-8, and reading it back gives the list.
\<close>

theorem control_record_round_trip:
  assumes codec: "\<And>ps json. to_json ps = Some json \<Longrightarrow> utf8_valid json \<and> from_json json = Some ps"
  assumes "deliverables_new to_json paths = Ok d"
  shows "from_record to_json from_json (control_record d) = Ok d
     \<and> (\<forall>bytes e. from_record to_json from_json bytes = Ok e \<longleftrightarrow>
          bytes = control_record e \<and> deliverables_new to_json (dl_paths e) = Ok e)"
proof -
  have fits: "length (control_record e) \<le> MAX_RECORD_BYTES \<and> utf8_valid (control_record e) \<and> from_json (dl_json e) = Some (dl_paths e)"
    if e: "deliverables_ok to_json e" for e
  proof -
    have "to_json (dl_paths e) = Some (dl_json e)" using e by (simp add: deliverables_ok_def)
    then have "utf8_valid (dl_json e)" "from_json (dl_json e) = Some (dl_paths e)" using codec by blast+
    moreover have "utf8_valid RECORD_PREFIX" "utf8_valid RECORD_SUFFIX" by (code_simp, code_simp)
    moreover have "length (control_record e) \<le> MAX_RECORD_BYTES"
      using e by (simp add: deliverables_ok_def control_record_def argument_def deliverables_bounds)
    ultimately show ?thesis by (simp add: control_record_def utf8_valid_append)
  qed
  have "from_record to_json from_json bytes = Ok e \<longleftrightarrow> bytes = control_record e \<and> deliverables_new to_json (dl_paths e) = Ok e" for bytes e
    using fits [of e] by (auto simp: from_record_Ok_iff deliverables_new_Ok_iff)
  moreover have "deliverables_new to_json (dl_paths d) = Ok d" using assms(2) by (simp add: deliverables_new_Ok_iff)
  ultimately show ?thesis by simp
qed

definition one_path_json :: "string list \<Rightarrow> string option" where
  "one_path_json ps = (if ps = [''out/report.md''] then Some ''[\"out/report.md\"]'' else None)"

definition one_path_list :: "string \<Rightarrow> string list option" where
  "one_path_list s = (if s = ''[\"out/report.md\"]'' then Some [''out/report.md''] else None)"

theorem control_record_round_trip_witness:
  "\<exists>d. deliverables_new one_path_json [''out/report.md''] = Ok d
     \<and> from_record one_path_json one_path_list (control_record d) = Ok d"
proof -
  have codec: "utf8_valid json \<and> one_path_list json = Some ps" if "one_path_json ps = Some json" for ps json
  proof -
    have "ps = [''out/report.md'']" "json = ''[\"out/report.md\"]''" using that by (auto simp: one_path_json_def split: if_splits)
    moreover have "utf8_valid ''[\"out/report.md\"]''" by code_simp
    ultimately show ?thesis by (simp add: one_path_list_def)
  qed
  have new: "deliverables_new one_path_json [''out/report.md''] = Ok \<lparr>dl_paths = [''out/report.md''], dl_json = ''[\"out/report.md\"]''\<rparr>"
    by code_simp
  with control_record_round_trip [OF codec new] show ?thesis by blast
qed

section \<open>The first entry that breaks the rule\<close>

lemma check_path_Err: "check_path index path = Err e \<Longrightarrow> \<exists>rule. e = entry_error index path rule \<and> (\<forall>k. rule \<noteq> Repeats k)"
proof -
  have "foldR (check_component index path) () parts = Err e \<Longrightarrow> \<exists>rule. e = entry_error index path rule \<and> (\<forall>k. rule \<noteq> Repeats k)" for parts
    by (induction parts) (auto simp: bindR_Err_iff check_component_def split: if_splits)
  then show "check_path index path = Err e \<Longrightarrow> ?thesis"
    by (auto simp: check_path_def bindR_Err_iff split: if_splits)
qed

text \<open>Why an entry is refused after the entries before it, whose paths were inserted from an index on.\<close>

definition refused_by :: "nat \<Rightarrow> (string \<rightharpoonup> nat) \<Rightarrow> string list \<Rightarrow> string \<Rightarrow> path_rule \<Rightarrow> bool" where
  "refused_by index seen before path rule =
     (case rule of
        Repeats k \<Rightarrow> beneath_artifacts path \<and> ((\<exists>i < length before. k = index + i \<and> before ! i = path) \<or> seen path = Some k)
      | _ \<Rightarrow> \<not> beneath_artifacts path)"

lemma refused_by_Cons:
  assumes "refused_by (index + 1) (seen(path \<mapsto> index)) before q rule"
  shows "refused_by index seen (path # before) q rule"
proof (cases rule)
  case (Repeats k)
  have "\<exists>j < length (path # before). k = index + j \<and> (path # before) ! j = q" if "i < length before" "k = index + 1 + i" "before ! i = q" for i
    using that by (intro exI [of _ "Suc i"]) simp
  moreover have "\<exists>j < length (path # before). k = index + j \<and> (path # before) ! j = q" if "q = path" "k = index"
    using that by (intro exI [of _ 0]) simp
  ultimately show ?thesis using assms by (auto simp: refused_by_def Repeats split: if_splits)
qed (use assms in \<open>auto simp: refused_by_def\<close>)

lemma check_paths_Err:
  "check_paths index seen paths = Err e \<Longrightarrow>
    \<exists>before path after rule. paths = before @ path # after \<and> e = entry_error (index + length before) path rule
      \<and> check_paths index seen before = Ok () \<and> refused_by index seen before path rule"
proof (induction paths arbitrary: index seen)
  case (Cons path paths)
  show ?case
  proof (cases "check_path index path")
    case (Err e')
    then have "\<not> beneath_artifacts path" by (auto simp flip: check_path_Ok_iff [of index])
    moreover obtain rule where "e = entry_error index path rule" "\<forall>k. rule \<noteq> Repeats k"
      using Err Cons.prems check_path_Err by fastforce
    ultimately show ?thesis
      by (intro exI [of _ "[]"] exI [of _ path] exI [of _ paths] exI [of _ rule])
        (auto simp: refused_by_def split: path_rule.splits)
  next
    case (Ok u)
    then have ok: "check_path index path = Ok ()" by simp
    then have fine: "beneath_artifacts path" by (simp add: check_path_Ok_iff)
    show ?thesis
    proof (cases "seen path")
      case (Some k)
      then show ?thesis using Cons.prems ok fine
        by (intro exI [of _ "[]"] exI [of _ path] exI [of _ paths] exI [of _ "Repeats k"]) (auto simp: refused_by_def)
    next
      case None
      then have "check_paths (index + 1) (seen(path \<mapsto> index)) paths = Err e" using Cons.prems ok by simp
      from Cons.IH [OF this] obtain before q after rule where split: "paths = before @ q # after"
        "e = entry_error (index + 1 + length before) q rule" "check_paths (index + 1) (seen(path \<mapsto> index)) before = Ok ()"
        "refused_by (index + 1) (seen(path \<mapsto> index)) before q rule" by blast
      then show ?thesis using ok None refused_by_Cons
        by (intro exI [of _ "path # before"] exI [of _ q] exI [of _ after] exI [of _ rule]) simp
    qed
  qed
qed simp

text \<open>
  A refusal of an entry names the first entry that breaks the rule, as it was declared: every entry before it
  is admissible and none repeats another; the entry named either breaks the rule of a path, or is an admissible path that repeats
  the entry whose index the refusal gives.
\<close>

theorem refused_entry_is_first:
  assumes "deliverables_new to_json paths = Err (EntryError index shown rule)"
  shows "index < length paths \<and> shown = quoted (paths ! index)
     \<and> list_all beneath_artifacts (take index paths) \<and> distinct (take index paths)
     \<and> (case rule of Repeats k \<Rightarrow> beneath_artifacts (paths ! index) \<and> k < index \<and> paths ! k = paths ! index
        | _ \<Rightarrow> \<not> beneath_artifacts (paths ! index))"
proof -
  have "check_paths 0 Map.empty paths = Err (EntryError index shown rule)"
    using assms by (auto simp: deliverables_new_def bindR_Err_iff split: if_splits)
  from check_paths_Err [OF this] obtain before path after rule' where split: "paths = before @ path # after"
    "EntryError index shown rule = entry_error (length before) path rule'" "check_paths 0 Map.empty before = Ok ()"
    "refused_by 0 Map.empty before path rule'" by (metis add_0)
  then have here: "index = length before" "shown = quoted path" "rule = rule'" by (simp_all add: entry_error_def)
  have "case rule of Repeats k \<Rightarrow> beneath_artifacts (paths ! index) \<and> k < index \<and> paths ! k = paths ! index
        | _ \<Rightarrow> \<not> beneath_artifacts (paths ! index)"
    using split(4) unfolding here split(1) refused_by_def by (auto simp: nth_append split: path_rule.splits)
  then show ?thesis using split(3) by (simp add: here split(1) check_paths_Ok_iff)
qed

theorem refused_entry_is_first_witness:
  "deliverables_new one_path_json [''a'', ''b'', ''a''] = Err (EntryError 2 (''a'', None) (Repeats 0))
     \<and> distinct (take 2 [''a'', ''b'', ''a''])"
proof -
  have "deliverables_new one_path_json [''a'', ''b'', ''a''] = Err (EntryError 2 (''a'', None) (Repeats 0))" by code_simp
  with refused_entry_is_first [OF this] show ?thesis by blast
qed

end
