(* ===== verification/Unicode_Text.thy ===== *)
theory Unicode_Text
  imports Utf8
begin

text \<open>What the sources use of Rust's \<^verbatim>\<open>str\<close> beyond validity: whitespace, \<^verbatim>\<open>trim\<close>, and \<^verbatim>\<open>String::from_utf8_lossy\<close>.\<close>

section \<open>Whitespace\<close>

text \<open>The characters with the Unicode property White\_Space, which \<^verbatim>\<open>str::trim\<close> removes.\<close>

definition is_whitespace :: "nat \<Rightarrow> bool" where
  "is_whitespace c \<longleftrightarrow>
     (9 \<le> c \<and> c \<le> 13) \<or> c = 32 \<or> c = 133 \<or> c = 160 \<or> c = 5760 \<or> (8192 \<le> c \<and> c \<le> 8202)
     \<or> c = 8232 \<or> c = 8233 \<or> c = 8239 \<or> c = 8287 \<or> c = 12288"

definition trim :: "string \<Rightarrow> nat list" where
  "trim s = rev (dropWhile is_whitespace (rev (dropWhile is_whitespace (chars s))))"

lemma trim_empty_iff: "trim s = [] \<longleftrightarrow> (\<forall>c \<in> set (chars s). is_whitespace c)"
proof -
  have "dropWhile P (rev (dropWhile P xs)) = [] \<longleftrightarrow> (\<forall>x \<in> set xs. P x)" for P and xs :: "nat list"
    by (induction xs) (auto simp: dropWhile_append)
  then show ?thesis by (simp add: trim_def)
qed

section \<open>Lossy decoding\<close>

text \<open>
  Each maximal ill-formed part of the bytes (Unicode, definition D93b) becomes one replacement character: a prefix of some well-formed
  scalar, of up to three bytes, or a single byte.
\<close>

definition second_in_range :: "char \<Rightarrow> char \<Rightarrow> bool" where
  "second_in_range c c1 \<longleftrightarrow> is_continuation c1
     \<and> (byte c = 224 \<longrightarrow> 160 \<le> byte c1) \<and> (byte c = 237 \<longrightarrow> byte c1 \<le> 159)
     \<and> (byte c = 240 \<longrightarrow> 144 \<le> byte c1) \<and> (byte c = 244 \<longrightarrow> byte c1 \<le> 143)"

fun ill_formed_length :: "string \<Rightarrow> nat" where
  "ill_formed_length (c # c1 # cs) =
     (if 224 \<le> byte c \<and> byte c \<le> 244 \<and> second_in_range c c1 then
        (case cs of c2 # _ \<Rightarrow> if 240 \<le> byte c \<and> is_continuation c2 then 3 else 2 | [] \<Rightarrow> 2)
      else 1)"
| "ill_formed_length _ = 1"

lemma ill_formed_length_pos: "0 < ill_formed_length s"
  by (cases s rule: ill_formed_length.cases) (auto split: list.split)

function utf8_lossy :: "string \<Rightarrow> string" where
  "utf8_lossy s =
     (if s = [] then []
      else case utf8_head s of
        Some k \<Rightarrow> take k s @ utf8_lossy (drop k s)
      | None \<Rightarrow> [CHR 0xEF, CHR 0xBF, CHR 0xBD] @ utf8_lossy (drop (ill_formed_length s) s))"
  by pat_completeness auto
termination
  by (relation "measure length") (use utf8_head_bounds ill_formed_length_pos in \<open>fastforce+\<close>)

declare utf8_lossy.simps [simp del]

lemma utf8_lossy_Nil [simp]: "utf8_lossy [] = []"
  by (simp add: utf8_lossy.simps)

lemma utf8_lossy_valid: "utf8_valid s \<Longrightarrow> utf8_lossy s = s"
proof (induction s rule: utf8_lossy.induct)
  case (1 s)
  show ?case
  proof (cases "s = []")
    case False
    then obtain k where k: "utf8_head s = Some k" "utf8_valid (drop k s)" using utf8_valid_head 1 by blast
    then have "utf8_lossy (drop k s) = drop k s" using 1 False by blast
    then show ?thesis using k False by (subst utf8_lossy.simps) simp
  qed simp
qed

lemma utf8_lossy_utf8: "utf8_valid (utf8_lossy s)"
proof (induction s rule: utf8_lossy.induct)
  case (1 s)
  have mark: "utf8_valid [CHR 0xEF, CHR 0xBF, CHR 0xBD]" by code_simp
  show ?case
  proof (cases "s = []")
    case False
    show ?thesis
    proof (cases "utf8_head s")
      case None
      then show ?thesis using 1 False mark by (subst utf8_lossy.simps) (auto intro: utf8_valid_append [OF mark, simplified])
    next
      case (Some k)
      then show ?thesis using 1 False utf8_valid_scalar_head [OF Some] by (subst utf8_lossy.simps) (simp add: utf8_valid_append)
    qed
  qed simp
qed

end
