(* ===== verification/Request_Validation.thy ===== *)
theory Request_Validation
  imports Service_Error Deliverables Unicode_Text
begin

text \<open>
  \<^verbatim>\<open>src/validation.rs\<close>: the checks of a session's creation body. The normal form test of the Unicode crate
  (\<open>nfc\<close>), the integer views of a number of the JSON library (\<open>as_u64\<close>, \<open>as_i64\<close>) and the metadata of a path without following
  links (\<open>stat\<close>) are arguments.
\<close>

section \<open>The checks\<close>

datatype request_rule =
    PromptEmpty | PromptNotNfc | PromptTooLong nat | PromptNul
  | TurnsZero | TurnsCeiling u64 | TurnsNegative | TurnsNotInteger
  | ArchiveSha string | ArchiveEmpty | ArchiveTooLarge u64
  | DeliverablesRule deliverables_error
  | SpoolNotAbsolute string | SpoolStat string | SpoolNotOrdinary string | SpoolDrifted string u64 u64

type_synonym 'a validation_result = "('a, request_rule service_error) result"

definition MAX_PROMPT_BYTES :: nat where "MAX_PROMPT_BYTES = 16384"

definition MAX_STAGED_BYTES :: u64 where "MAX_STAGED_BYTES = 200 * 1024 * 1024 * 1024"

definition MAX_ARCHIVE_BYTES :: u64 where "MAX_ARCHIVE_BYTES = MAX_STAGED_BYTES + 64 * 1024 * 1024"

definition MAX_SESSION_TURNS_CEILING :: "32 word" where "MAX_SESSION_TURNS_CEILING = 2000"

record spooled_archive =
  sa_path :: string
  sa_bytes :: u64
  sa_sha256 :: string

record validated_request =
  vr_prompt :: string
  vr_max_session_turns :: "32 word"
  vr_deliverables :: deliverables
  vr_archive :: spooled_archive

record metadata =
  md_is_file :: bool
  md_is_symlink :: bool
  md_len :: u64

definition validate_deliverables :: "(string list \<Rightarrow> string option) \<Rightarrow> string list \<Rightarrow> deliverables validation_result" where
  "validate_deliverables to_json paths = map_err (\<lambda>e. InvalidRequest (DeliverablesRule e)) (deliverables_new to_json paths)"

definition validate_prompt :: "(string \<Rightarrow> bool) \<Rightarrow> string \<Rightarrow> string validation_result" where
  "validate_prompt nfc prompt =
     (if trim prompt = [] then Err (InvalidRequest PromptEmpty)
      else if \<not> nfc prompt then Err (InvalidRequest PromptNotNfc)
      else if MAX_PROMPT_BYTES < length prompt then Err (InvalidRequest (PromptTooLong (length prompt)))
      else if CHR 0x00 \<in> set prompt then Err (InvalidRequest PromptNul)
      else Ok prompt)"

definition validate_session_turn_budget :: "32 word \<Rightarrow> unit validation_result" where
  "validate_session_turn_budget turns =
     (if turns = 0 then Err (InvalidRequest TurnsZero)
      else if MAX_SESSION_TURNS_CEILING < turns then Err (InvalidRequest (TurnsCeiling (ucast turns)))
      else Ok ())"

definition validate_max_session_turns :: "('n \<Rightarrow> u64 option) \<Rightarrow> ('n \<Rightarrow> u64 option) \<Rightarrow> 'n \<Rightarrow> (32 word) validation_result" where
  "validate_max_session_turns as_u64 as_i64 v =
     (case as_u64 v of
        Some turns \<Rightarrow>
          if ucast MAX_SESSION_TURNS_CEILING < turns then Err (InvalidRequest (TurnsCeiling turns))
          else let turns = ucast turns in
            bindR (validate_session_turn_budget turns) (\<lambda>_. Ok turns)
      | None \<Rightarrow>
          if as_i64 v \<noteq> None then Err (InvalidRequest TurnsNegative)
          else Err (InvalidRequest TurnsNotInteger))"

definition lower_hex :: "char \<Rightarrow> bool" where
  "lower_hex c \<longleftrightarrow> (CHR ''0'' \<le> c \<and> c \<le> CHR ''9'') \<or> (CHR ''a'' \<le> c \<and> c \<le> CHR ''f'')"

definition validate_archive_commitment :: "u64 \<Rightarrow> string \<Rightarrow> unit validation_result" where
  "validate_archive_commitment bytes sha256 =
     (if length sha256 \<noteq> 64 \<or> \<not> list_all lower_hex sha256 then Err (InvalidRequest (ArchiveSha sha256))
      else if bytes = 0 then Err (InvalidRequest ArchiveEmpty)
      else if MAX_ARCHIVE_BYTES < bytes then Err (InvalidRequest (ArchiveTooLarge bytes))
      else Ok ())"

definition is_absolute :: "string \<Rightarrow> bool" where
  "is_absolute path \<longleftrightarrow> path \<noteq> [] \<and> hd path = CHR ''/''"

definition validate_spooled_archive :: "(string \<Rightarrow> metadata option) \<Rightarrow> spooled_archive \<Rightarrow> spooled_archive validation_result" where
  "validate_spooled_archive stat archive =
     bindR (validate_archive_commitment (sa_bytes archive) (sa_sha256 archive)) (\<lambda>_.
       if \<not> is_absolute (sa_path archive) then Err (Internal (SpoolNotAbsolute (sa_path archive)))
       else bindR (ok_or (stat (sa_path archive)) (Internal (SpoolStat (sa_path archive)))) (\<lambda>metadata.
         if \<not> md_is_file metadata \<or> md_is_symlink metadata then Err (Internal (SpoolNotOrdinary (sa_path archive)))
         else if md_len metadata \<noteq> sa_bytes archive
         then Err (Internal (SpoolDrifted (sa_path archive) (md_len metadata) (sa_bytes archive)))
         else Ok archive))"

definition validate_request :: "(string \<Rightarrow> bool) \<Rightarrow> (string \<Rightarrow> metadata option) \<Rightarrow> string \<Rightarrow> 32 word \<Rightarrow> deliverables \<Rightarrow> spooled_archive
    \<Rightarrow> validated_request validation_result" where
  "validate_request nfc stat prompt turns d archive =
     bindR (validate_prompt nfc prompt) (\<lambda>prompt.
     bindR (validate_session_turn_budget turns) (\<lambda>_.
     bindR (validate_spooled_archive stat archive) (\<lambda>archive.
       Ok \<lparr>vr_prompt = prompt, vr_max_session_turns = turns, vr_deliverables = d, vr_archive = archive\<rparr>)))"

section \<open>What is admitted\<close>

definition prompt_admissible :: "(string \<Rightarrow> bool) \<Rightarrow> string \<Rightarrow> bool" where
  "prompt_admissible nfc prompt \<longleftrightarrow>
     (\<exists>c \<in> set (chars prompt). \<not> is_whitespace c) \<and> nfc prompt \<and> length prompt \<le> 16384 \<and> CHR 0x00 \<notin> set prompt"

definition commitment_admissible :: "u64 \<Rightarrow> string \<Rightarrow> bool" where
  "commitment_admissible bytes sha256 \<longleftrightarrow>
     length sha256 = 64 \<and> set sha256 \<subseteq> set ''0123456789abcdef''
     \<and> 1 \<le> unat bytes \<and> unat bytes \<le> 200 * 1024 ^ 3 + 64 * 1024 ^ 2"

lemma lower_hex_iff: "lower_hex c \<longleftrightarrow> c \<in> set ''0123456789abcdef''"
proof -
  have eq: "c = d \<longleftrightarrow> byte c = byte d" for d by simp
  have "lower_hex c \<longleftrightarrow> (48 \<le> byte c \<and> byte c \<le> 57) \<or> (97 \<le> byte c \<and> byte c \<le> 102)"
    by (simp add: lower_hex_def less_eq_char_def byte_def)
  moreover have "c \<in> set ''0123456789abcdef'' \<longleftrightarrow> byte c \<in> {48, 49, 50, 51, 52, 53, 54, 55, 56, 57, 97, 98, 99, 100, 101, 102}"
    by (simp only: list.set insert_iff empty_iff eq) (simp add: byte_def)
  ultimately show ?thesis by (simp only: insert_iff empty_iff) presburger
qed

lemma max_archive_unat: "unat MAX_ARCHIVE_BYTES = 200 * 1024 ^ 3 + 64 * 1024 ^ 2"
  by (simp add: MAX_ARCHIVE_BYTES_def MAX_STAGED_BYTES_def)

lemma commitment_Ok_iff: "validate_archive_commitment bytes sha256 = Ok () \<longleftrightarrow> commitment_admissible bytes sha256"
proof -
  have "bytes = 0 \<longleftrightarrow> \<not> 1 \<le> unat bytes" by (simp add: unat_eq_0 not_le)
  moreover have "MAX_ARCHIVE_BYTES < bytes \<longleftrightarrow> \<not> unat bytes \<le> 200 * 1024 ^ 3 + 64 * 1024 ^ 2"
    by (simp only: word_less_nat_alt max_archive_unat not_le)
  moreover have "list_all lower_hex sha256 \<longleftrightarrow> set sha256 \<subseteq> set ''0123456789abcdef''"
    by (simp only: list_all_iff lower_hex_iff subset_iff Ball_def)
  ultimately show ?thesis
    unfolding validate_archive_commitment_def commitment_admissible_def by (simp only: if_splits result.simps split: if_split) blast
qed

lemma prompt_Ok_iff: "validate_prompt nfc prompt = Ok p \<longleftrightarrow> p = prompt \<and> prompt_admissible nfc prompt"
  by (auto simp: validate_prompt_def prompt_admissible_def trim_empty_iff MAX_PROMPT_BYTES_def)

lemma budget_Ok_iff: "validate_session_turn_budget turns = Ok u \<longleftrightarrow> 1 \<le> unat turns \<and> unat turns \<le> 2000"
  by (auto simp: validate_session_turn_budget_def MAX_SESSION_TURNS_CEILING_def word_less_nat_alt unat_gt_0 Suc_le_eq)

definition spool_intact :: "(string \<Rightarrow> metadata option) \<Rightarrow> spooled_archive \<Rightarrow> bool" where
  "spool_intact stat archive \<longleftrightarrow>
     is_absolute (sa_path archive)
     \<and> (\<exists>m. stat (sa_path archive) = Some m \<and> md_is_file m \<and> \<not> md_is_symlink m \<and> md_len m = sa_bytes archive)"

lemma spooled_Ok_iff:
  "validate_spooled_archive stat archive = Ok a \<longleftrightarrow>
     a = archive \<and> commitment_admissible (sa_bytes archive) (sa_sha256 archive) \<and> spool_intact stat archive"
  by (auto simp: validate_spooled_archive_def spool_intact_def simp flip: commitment_Ok_iff)

lemma spooled_Err:
  "validate_spooled_archive stat archive = Err e \<Longrightarrow>
     (if commitment_admissible (sa_bytes archive) (sa_sha256 archive)
      then (\<exists>m. e = Internal m) \<and> \<not> spool_intact stat archive else \<exists>m. e = InvalidRequest m)"
  unfolding validate_spooled_archive_def spool_intact_def
  by (auto simp: bindR_Err_iff validate_archive_commitment_def simp flip: commitment_Ok_iff split: if_splits)

text \<open>
  C39: A request is validated exactly when its prompt has a character other than whitespace, is in the normal
  form, holds at most 16,384 bytes and no NUL; its turn budget is 1 to 2,000; its archive commitment is 64 lowercase hexadecimal
  digits and 1 byte to the archive bound; and the spool is an absolute path to an ordinary file of exactly the committed
  size. The validated request holds every field as it was submitted.
\<close>

theorem validate_request_exact:
  "validate_request nfc stat prompt turns d archive = Ok r \<longleftrightarrow>
     prompt_admissible nfc prompt \<and> 1 \<le> unat turns \<and> unat turns \<le> 2000
     \<and> commitment_admissible (sa_bytes archive) (sa_sha256 archive) \<and> spool_intact stat archive
     \<and> r = \<lparr>vr_prompt = prompt, vr_max_session_turns = turns, vr_deliverables = d, vr_archive = archive\<rparr>"
  by (auto simp: validate_request_def prompt_Ok_iff budget_Ok_iff spooled_Ok_iff)



text \<open>
  The requested turn budget is taken as it was written or refused: a budget is returned exactly when the
  number is an unsigned integer from 1 to 2,000, and it is that integer; narrowing to 32 bits never changes it.
\<close>

theorem max_session_turns_exact:
  "validate_max_session_turns as_u64 as_i64 v = Ok t \<longleftrightarrow>
     (\<exists>n. as_u64 v = Some n \<and> unat t = unat n \<and> 1 \<le> unat n \<and> unat n \<le> 2000)"
proof (cases "as_u64 v")
  case None
  then show ?thesis by (simp add: validate_max_session_turns_def)
next
  case (Some n)
  show ?thesis
  proof (cases "unat n \<le> 2000")
    case True
    then have "unat (ucast n :: 32 word) = unat n" by (simp add: unsigned_ucast_eq take_bit_nat_eq_self)
    moreover from this have "ucast n = t \<longleftrightarrow> unat t = unat n" by (metis word_unat_eq_iff)
    moreover have "\<not> (ucast MAX_SESSION_TURNS_CEILING :: u64) < n"
      using True by (simp add: MAX_SESSION_TURNS_CEILING_def not_less word_le_nat_alt)
    ultimately show ?thesis using True Some by (auto simp: validate_max_session_turns_def budget_Ok_iff Let_def)
  next
    case False
    then have "(ucast MAX_SESSION_TURNS_CEILING :: u64) < n"
      by (simp add: MAX_SESSION_TURNS_CEILING_def word_less_nat_alt)
    then show ?thesis using False Some by (simp add: validate_max_session_turns_def)
  qed
qed

end
