(* ===== verification/Container_Image.thy ===== *)
theory Container_Image
  imports Serde Request_Validation
begin

text \<open>
  \<^verbatim>\<open>src/container_image.rs\<close>: the identity of the image a container runs, read from the daemon's inspection of it.
  An error keeps which identity it is about and what was observed, not the sentence formatted of them.
\<close>

record container_image =
  ci_manifest_digest :: string
  ci_config_digest :: string

datatype image_error =
    LacksIdentity string string
  | InvalidIdentity string string string
  | LacksDescriptor string "string option"
  | NotLaunchedByManifest string string string
  | DiffersFromPin string string string string

definition image_digest :: "'v serde \<Rightarrow> 'v \<Rightarrow> string \<Rightarrow> string \<Rightarrow> (string, image_error) result" where
  "image_digest sj v pointer label =
     bindR (ok_or (Option.bind (sj_pointer sj v pointer) (sj_as_str sj)) (LacksIdentity label pointer)) (\<lambda>observed.
       if length observed \<noteq> 71 \<or> take 7 observed \<noteq> ''sha256:'' \<or> \<not> list_all lower_hex (drop 7 observed)
       then Err (InvalidIdentity label pointer observed)
       else Ok observed)"

definition read_container_image :: "'v serde \<Rightarrow> 'v \<Rightarrow> string \<Rightarrow> (container_image, image_error) result" where
  "read_container_image sj v label =
     (let media_type = Option.bind (sj_pointer sj v ''/ImageManifestDescriptor/mediaType'') (sj_as_str sj) in
      if media_type \<noteq> Some ''application/vnd.oci.image.manifest.v1+json'' then Err (LacksDescriptor label media_type)
      else
        bindR (image_digest sj v ''/ImageManifestDescriptor/digest'' label) (\<lambda>manifest_digest.
        bindR (image_digest sj v ''/Image'' label) (\<lambda>config_digest.
        bindR (image_digest sj v ''/Config/Image'' label) (\<lambda>configured.
          if configured \<noteq> manifest_digest then Err (NotLaunchedByManifest label configured manifest_digest)
          else Ok \<lparr>ci_manifest_digest = manifest_digest, ci_config_digest = config_digest\<rparr>))))"

definition require_container_image :: "'v serde \<Rightarrow> 'v \<Rightarrow> string \<Rightarrow> string \<Rightarrow> (container_image, image_error) result" where
  "require_container_image sj v expected label =
     bindR (read_container_image sj v label) (\<lambda>observed.
       if ci_manifest_digest observed \<noteq> expected
       then Err (DiffersFromPin label expected (ci_manifest_digest observed) (ci_config_digest observed))
       else Ok observed)"

text \<open>A digest as the OCI names it: the algorithm and 64 lowercase hexadecimal digits.\<close>

definition sha256_digest :: "string \<Rightarrow> bool" where
  "sha256_digest s \<longleftrightarrow> (\<exists>digits. s = ''sha256:'' @ digits \<and> length digits = 64 \<and> set digits \<subseteq> set ''0123456789abcdef'')"

definition string_at :: "'v serde \<Rightarrow> 'v \<Rightarrow> string \<Rightarrow> string option" where
  "string_at sj v pointer = Option.bind (sj_pointer sj v pointer) (sj_as_str sj)"

lemma image_digest_Ok_iff:
  "image_digest sj v pointer label = Ok s \<longleftrightarrow> string_at sj v pointer = Some s \<and> sha256_digest s"
proof -
  have "length s = 71 \<and> take 7 s = ''sha256:'' \<and> list_all lower_hex (drop 7 s) \<longleftrightarrow> sha256_digest s"
  proof
    assume s: "length s = 71 \<and> take 7 s = ''sha256:'' \<and> list_all lower_hex (drop 7 s)"
    then have "s = ''sha256:'' @ drop 7 s" by (metis append_take_drop_id)
    moreover have "set (drop 7 s) \<subseteq> set ''0123456789abcdef''"
      using s unfolding list_all_iff lower_hex_iff by blast
    ultimately show "sha256_digest s" unfolding sha256_digest_def using s by (intro exI [of _ "drop 7 s"]) simp
  next
    assume "sha256_digest s"
    then obtain digits where s: "s = ''sha256:'' @ digits" "length digits = 64" "set digits \<subseteq> set ''0123456789abcdef''"
      unfolding sha256_digest_def by blast
    then have "list_all lower_hex digits" unfolding list_all_iff lower_hex_iff by blast
    with s show "length s = 71 \<and> take 7 s = ''sha256:'' \<and> list_all lower_hex (drop 7 s)" by simp
  qed
  then show ?thesis by (auto simp: image_digest_def string_at_def)
qed

text \<open>
  An inspected container passes the check exactly when it runs the pinned image: it has an OCI manifest
  descriptor whose digest is the pin, the image it was configured with is that same digest, and its own image is a
  well-formed digest, which is the one reported as its configuration.
\<close>

theorem pinned_image_exact:
  "require_container_image sj v expected label = Ok observed \<longleftrightarrow>
     string_at sj v ''/ImageManifestDescriptor/mediaType'' = Some ''application/vnd.oci.image.manifest.v1+json''
     \<and> string_at sj v ''/ImageManifestDescriptor/digest'' = Some expected
     \<and> string_at sj v ''/Config/Image'' = Some expected \<and> sha256_digest expected
     \<and> string_at sj v ''/Image'' = Some (ci_config_digest observed) \<and> sha256_digest (ci_config_digest observed)
     \<and> ci_manifest_digest observed = expected"
proof -
  have read: "read_container_image sj v label = Ok observed \<longleftrightarrow>
      string_at sj v ''/ImageManifestDescriptor/mediaType'' = Some ''application/vnd.oci.image.manifest.v1+json''
      \<and> (\<exists>manifest config. string_at sj v ''/ImageManifestDescriptor/digest'' = Some manifest \<and> sha256_digest manifest
          \<and> string_at sj v ''/Image'' = Some config \<and> sha256_digest config
          \<and> string_at sj v ''/Config/Image'' = Some manifest
          \<and> observed = \<lparr>ci_manifest_digest = manifest, ci_config_digest = config\<rparr>)" for observed
    unfolding read_container_image_def Let_def by (auto simp: image_digest_Ok_iff simp flip: string_at_def)
  show ?thesis unfolding require_container_image_def bindR_Ok_iff read by (cases observed) (auto, metis container_image.select_convs(1))
qed

end
