(* ===== verification/Sse_Values.thy ===== *)
theory Sse_Values
  imports Usage Serde Unicode_Text
begin

text \<open>
  \<^verbatim>\<open>protocol/engine/src/model_requests.rs\<close>, the values of one physical response: the incremental reader of an event stream
  (\<^verbatim>\<open>SseValues\<close>), the body of a response that does not stream, and what both give (\<^verbatim>\<open>ResponseValues\<close>). Values are those of
  \<^verbatim>\<open>serde_json\<close>, an argument; the generated table of the turns a backend refuses is one too.
\<close>

section \<open>Values\<close>

datatype f64 = Finite rat | NotFinite

text \<open>The constructors of \<^verbatim>\<open>serde_json::Value\<close>, a number by its \<^verbatim>\<open>as_f64\<close>.\<close>

datatype value_view = ViewNull | ViewBool bool | ViewNumber "f64 option" | ViewString string | ViewArray | ViewObject

record 'v sdk = "'v serde" +
  sd_view :: "'v \<Rightarrow> value_view"
  sd_event :: "string \<Rightarrow> 'v \<Rightarrow> 'v"

fun js_truthy :: "value_view \<Rightarrow> bool" where
  "js_truthy ViewNull = False"
| "js_truthy (ViewBool b) = b"
| "js_truthy (ViewNumber n) = (case n of None \<Rightarrow> True | Some (Finite q) \<Rightarrow> q \<noteq> 0 | Some NotFinite \<Rightarrow> True)"
| "js_truthy (ViewString s) = (s \<noteq> [])"
| "js_truthy ViewArray = True"
| "js_truthy ViewObject = True"

definition served_count :: "'v sdk \<Rightarrow> 'v option \<Rightarrow> u64 option" where
  "served_count sd v =
     Option.bind v (\<lambda>v.
       case sd_view sd v of
         ViewNumber (Some (Finite q)) \<Rightarrow>
           if 0 \<le> q \<and> q \<le> of_nat (unat SAFE_INTEGER) \<and> of_int \<lfloor>q\<rfloor> = q then Some (word_of_int \<lfloor>q\<rfloor>) else None
       | _ \<Rightarrow> None)"

definition openai_served_usage :: "'v sdk \<Rightarrow> 'v \<Rightarrow> served_usage option" where
  "openai_served_usage sd v =
     Option.bind (sj_get sd v ''usage'') (\<lambda>usage.
     Option.bind (served_count sd (sj_get sd usage ''prompt_tokens'')) (\<lambda>prompt.
     Option.bind (served_count sd (sj_get sd usage ''completion_tokens'')) (\<lambda>output.
     Option.bind (served_count sd (sj_get sd usage ''total_tokens'')) (\<lambda>tot.
     Option.bind (served_count sd (Option.bind (sj_get sd usage ''prompt_tokens_details'') (\<lambda>d. sj_get sd d ''cached_tokens''))) (\<lambda>cached.
     Option.bind (served_count sd (Option.bind (sj_get sd usage ''completion_tokens_details'') (\<lambda>d. sj_get sd d ''reasoning_tokens''))) (\<lambda>thoughts.
       let served = \<lparr>su_prompt = prompt, su_output = output, su_thoughts = thoughts, su_cached = cached, su_total = tot\<rparr> in
       if is_ok (served_usage_validate served) then Some served else None))))))"

definition utf8_mark :: string where
  "utf8_mark = [CHR 0xEF, CHR 0xBB, CHR 0xBF]"

definition strip_mark :: "string \<Rightarrow> string" where
  "strip_mark s = (if take 3 s = utf8_mark then drop 3 s else s)"

definition nonstream_json_value :: "'v sdk \<Rightarrow> string \<Rightarrow> 'v option" where
  "nonstream_json_value sd body = sj_from_str sd (utf8_lossy (strip_mark (strip_mark body)))"

record served_turn_refusal =
  tr_wire_type :: string
  tr_recorded_name :: string

definition recorded_refusal :: "served_turn_refusal list \<Rightarrow> string \<Rightarrow> served_turn_refusal option" where
  "recorded_refusal table err =
     List.find (\<lambda>refusal. take (length (tr_recorded_name refusal)) err = tr_recorded_name refusal
       \<and> take 2 (drop (length (tr_recorded_name refusal)) err) = '': '') table"

section \<open>The reader of an event stream\<close>

record 'v sse_values =
  ss_pending :: string
  ss_line :: string
  ss_event :: "string option"
  ss_data :: "string list"
  ss_count :: u64
  ss_values :: "'v list"
  ss_usage_reports :: "(u64 \<times> served_usage) list"
  ss_retain_values :: bool
  ss_failed :: bool
  ss_error_type :: "string option"
  ss_done :: bool
  ss_after_cr :: bool

definition sse_new :: "bool \<Rightarrow> 'v sse_values" where
  "sse_new retain = \<lparr>ss_pending = [], ss_line = [], ss_event = None, ss_data = [], ss_count = 0, ss_values = [], ss_usage_reports = [],
     ss_retain_values = retain, ss_failed = False, ss_error_type = None, ss_done = False, ss_after_cr = False\<rparr>"

fun join_lines :: "string list \<Rightarrow> string" where
  "join_lines [] = []"
| "join_lines [s] = s"
| "join_lines (s # ss) = s @ CHR 0x0A # join_lines ss"

definition thread_event :: "string option \<Rightarrow> bool" where
  "thread_event name = (case name of Some event \<Rightarrow> take 7 event = ''thread.'' | None \<Rightarrow> False)"

text \<open>The usage a value reports at its position, and the value as it is kept.\<close>

definition value_report :: "'v sdk \<Rightarrow> string option \<Rightarrow> u64 \<Rightarrow> 'v \<Rightarrow> (u64 \<times> served_usage) list" where
  "value_report sd name n v =
     (if thread_event name then [] else case openai_served_usage sd v of Some usage \<Rightarrow> [(n, usage)] | None \<Rightarrow> [])"

definition kept_value :: "'v sdk \<Rightarrow> string option \<Rightarrow> bool \<Rightarrow> 'v \<Rightarrow> 'v list" where
  "kept_value sd name retain v = (if retain then [if thread_event name then sd_event sd (the name) v else v] else [])"

definition error_payload :: "'v sdk \<Rightarrow> string option \<Rightarrow> 'v \<Rightarrow> bool" where
  "error_payload sd name v =
     (\<not> thread_event name \<and> (case sj_get sd v ''error'' of Some e \<Rightarrow> js_truthy (sd_view sd e) | None \<Rightarrow> False))"

definition payload_type :: "'v sdk \<Rightarrow> 'v \<Rightarrow> string option" where
  "payload_type sd v = Option.bind (sj_get sd v ''error'') (\<lambda>e. Option.bind (sj_get sd e ''type'') (sj_as_str sd))"

text \<open>The value of a complete event: an error payload of an ordinary event ends the values, as does a count past its range.\<close>

definition next_count :: "u64 \<Rightarrow> u64 option" where
  "next_count n = Option.bind (checked_add n 1) (\<lambda>m. if m \<le> SAFE_INTEGER then Some m else None)"

definition accept_value :: "'v sdk \<Rightarrow> string option \<Rightarrow> 'v \<Rightarrow> 'v sse_values \<Rightarrow> 'v sse_values" where
  "accept_value sd name v s =
     (if error_payload sd name v then s\<lparr>ss_error_type := payload_type sd v, ss_failed := True\<rparr>
      else case next_count (ss_count s) of
        Some n \<Rightarrow> s\<lparr>ss_count := n, ss_usage_reports := ss_usage_reports s @ value_report sd name n v,
                    ss_values := ss_values s @ kept_value sd name (ss_retain_values s) v\<rparr>
      | None \<Rightarrow> s\<lparr>ss_failed := True\<rparr>)"

definition has_event :: "string option \<Rightarrow> string list \<Rightarrow> bool" where
  "has_event name data \<longleftrightarrow> (name \<noteq> None \<and> name \<noteq> Some []) \<or> data \<noteq> []"

definition finish_payload :: "'v sdk \<Rightarrow> string option \<Rightarrow> string \<Rightarrow> 'v sse_values \<Rightarrow> 'v sse_values" where
  "finish_payload sd name payload s =
     (if take 6 payload = ''[DONE]'' then s\<lparr>ss_done := True\<rparr>
      else case sj_from_str sd payload of
        None \<Rightarrow> s\<lparr>ss_failed := True\<rparr>
      | Some v \<Rightarrow> accept_value sd name v s)"

definition take_event :: "'v sse_values \<Rightarrow> 'v sse_values" where
  "take_event s = s\<lparr>ss_event := None, ss_data := []\<rparr>"

definition finish_event :: "'v sdk \<Rightarrow> 'v sse_values \<Rightarrow> 'v sse_values" where
  "finish_event sd s =
     (if \<not> has_event (ss_event s) (ss_data s) then s\<lparr>ss_event := None\<rparr>
      else finish_payload sd (ss_event s) (join_lines (ss_data s)) (take_event s))"

definition split_field :: "string \<Rightarrow> string \<times> string" where
  "split_field line = (takeWhile (\<lambda>c. c \<noteq> CHR '':'') line, drop 1 (dropWhile (\<lambda>c. c \<noteq> CHR '':'') line))"

definition line_field :: "string \<Rightarrow> string \<times> string" where
  "line_field line = (let (name, v) = split_field line in (name, if take 1 v = '' '' then drop 1 v else v))"

definition apply_line :: "'v sdk \<Rightarrow> string \<Rightarrow> 'v sse_values \<Rightarrow> 'v sse_values" where
  "apply_line sd line s =
     (if line = [] then finish_event sd s
      else if hd line = CHR '':'' then s
      else if fst (line_field line) = ''event'' then s\<lparr>ss_event := Some (snd (line_field line))\<rparr>
      else if fst (line_field line) = ''data'' then s\<lparr>ss_data := ss_data s @ [snd (line_field line)]\<rparr>
      else s)"

definition finish_line :: "'v sdk \<Rightarrow> 'v sse_values \<Rightarrow> 'v sse_values" where
  "finish_line sd s = apply_line sd (utf8_lossy (strip_mark (ss_line s))) (s\<lparr>ss_line := []\<rparr>)"

definition feed_byte :: "'v sdk \<Rightarrow> 'v sse_values \<Rightarrow> char \<Rightarrow> 'v sse_values" where
  "feed_byte sd s b =
     (if ss_failed s \<or> ss_done s then s
      else
        let cr = ss_after_cr s; s = (if cr then finish_line sd (s\<lparr>ss_after_cr := False\<rparr>) else s) in
        if cr \<and> b = CHR 0x0A then s
        else if b = CHR 0x0D then s\<lparr>ss_after_cr := True\<rparr>
        else if b = CHR 0x0A then finish_line sd s
        else s\<lparr>ss_line := ss_line s @ [b]\<rparr>)"

text \<open>A byte after the values have ended changes nothing, which is the early return of the loops.\<close>

definition feed :: "'v sdk \<Rightarrow> 'v sse_values \<Rightarrow> string \<Rightarrow> 'v sse_values" where
  "feed sd s bytes = foldl (feed_byte sd) s bytes"

definition complete_chunk :: "string \<Rightarrow> bool" where
  "complete_chunk pending =
     (let n = length pending in
      2 \<le> n \<and> (drop (n - 2) pending = [CHR 0x0A, CHR 0x0A] \<or> drop (n - 2) pending = [CHR 0x0D, CHR 0x0D])
      \<or> 4 \<le> n \<and> drop (n - 4) pending = [CHR 0x0D, CHR 0x0A, CHR 0x0D, CHR 0x0A])"

definition push_byte :: "'v sdk \<Rightarrow> 'v sse_values \<Rightarrow> char \<Rightarrow> 'v sse_values" where
  "push_byte sd s b =
     (if ss_failed s \<or> ss_done s then s
      else
        let pending = ss_pending s @ [b] in
        if complete_chunk pending then feed sd (s\<lparr>ss_pending := []\<rparr>) pending
        else s\<lparr>ss_pending := pending\<rparr>)"

definition push :: "'v sdk \<Rightarrow> 'v sse_values \<Rightarrow> string \<Rightarrow> 'v sse_values" where
  "push sd s bytes = foldl (push_byte sd) s bytes"

definition settle :: "'v sdk \<Rightarrow> bool \<Rightarrow> 'v sse_values \<Rightarrow> 'v sse_values" where
  "settle sd transport_eof s =
     (if transport_eof \<and> (ss_pending s \<noteq> [] \<or> ss_after_cr s \<or> ss_line s \<noteq> []) \<and> \<not> ss_failed s \<and> \<not> ss_done s then
        let s = feed sd (s\<lparr>ss_pending := []\<rparr>) (ss_pending s) in
        if ss_after_cr s \<or> ss_line s \<noteq> [] then finish_line sd (s\<lparr>ss_after_cr := False\<rparr>) else s
      else s)"

definition eof_tail :: "'v sdk \<Rightarrow> bool \<Rightarrow> 'v sse_values \<Rightarrow> 'v sse_values" where
  "eof_tail sd transport_eof s = settle sd transport_eof (s\<lparr>ss_values := [], ss_usage_reports := [], ss_retain_values := False\<rparr>)"

section \<open>The values of a response\<close>

datatype 'v response_values = StreamValues "'v sse_values" | NonstreamBody string

definition response_new :: "bool \<Rightarrow> bool \<Rightarrow> 'v response_values" where
  "response_new stream retain = (if stream then StreamValues (sse_new retain) else NonstreamBody [])"

fun response_push :: "'v sdk \<Rightarrow> 'v response_values \<Rightarrow> string \<Rightarrow> 'v response_values" where
  "response_push sd (StreamValues s) bytes = StreamValues (push sd s bytes)"
| "response_push sd (NonstreamBody body) bytes = NonstreamBody (body @ bytes)"

fun into_stream_values :: "'v sdk \<Rightarrow> bool \<Rightarrow> 'v response_values \<Rightarrow> 'v list option" where
  "into_stream_values sd transport_eof (StreamValues s) = Some (ss_values (settle sd transport_eof s))"
| "into_stream_values sd transport_eof (NonstreamBody _) = None"

definition successful :: "u64 option \<Rightarrow> bool" where
  "successful status = (case status of Some n \<Rightarrow> 200 \<le> n \<and> n < 300 | None \<Rightarrow> False)"

definition contains_text :: "nat list \<Rightarrow> string \<Rightarrow> bool" where
  "contains_text cs p = list_ex (\<lambda>i. take (length p) (drop i cs) = map byte p) [0..<length cs + 1]"

definition ends_with_text :: "nat list \<Rightarrow> string \<Rightarrow> bool" where
  "ends_with_text cs p = (length p \<le> length cs \<and> drop (length cs - length p) cs = map byte p)"

text \<open>\<^verbatim>\<open>value.split(';').next()\<close>, trimmed; the first part of a split always exists.\<close>

definition is_json_media :: "string option \<Rightarrow> bool" where
  "is_json_media content_type =
     (case content_type of
        None \<Rightarrow> False
      | Some v \<Rightarrow> let media = trim (takeWhile (\<lambda>c. c \<noteq> CHR '';'') v) in
          contains_text media ''application/json'' \<or> ends_with_text media ''+json'')"

fun observed_usage :: "'v sdk \<Rightarrow> 'v response_values \<Rightarrow> u64 \<Rightarrow> u64 option \<Rightarrow> string option \<Rightarrow> bool \<Rightarrow> served_usage option" where
  "observed_usage sd (StreamValues s) seen status content_type transport_eof =
     (if seen = 0 \<or> \<not> successful status then None
      else map_option snd (List.find (\<lambda>(position, _). position \<le> seen)
        (rev (ss_usage_reports (eof_tail sd transport_eof s)) @ rev (ss_usage_reports s))))"
| "observed_usage sd (NonstreamBody body) seen status content_type transport_eof =
     (if seen = 0 \<or> \<not> successful status then None
      else if status = Some 204 then None
      else if \<not> is_json_media content_type then None
      else Option.bind (nonstream_json_value sd body) (openai_served_usage sd))"

fun served_refusal :: "'v sdk \<Rightarrow> served_turn_refusal list \<Rightarrow> 'v response_values \<Rightarrow> u64 \<Rightarrow> u64 option \<Rightarrow> bool \<Rightarrow> served_turn_refusal option" where
  "served_refusal sd table (StreamValues s) seen status transport_eof =
     (if \<not> successful status then None
      else
        let settled = eof_tail sd transport_eof s in
        if \<not> ss_failed settled \<or> ss_count settled \<noteq> seen then None
        else Option.bind (ss_error_type settled) (\<lambda>error_type. List.find (\<lambda>refusal. tr_wire_type refusal = error_type) table))"
| "served_refusal sd table (NonstreamBody _) seen status transport_eof = None"

text \<open>How many values the response has, and whether reading it failed.\<close>

fun available_values :: "'v sdk \<Rightarrow> 'v response_values \<Rightarrow> u64 option \<Rightarrow> string option \<Rightarrow> bool \<Rightarrow> u64 \<times> bool" where
  "available_values sd (StreamValues s) status content_type transport_eof =
     (if \<not> successful status then (0, False)
      else let settled = eof_tail sd transport_eof s in (ss_count settled, ss_failed settled))"
| "available_values sd (NonstreamBody body) status content_type transport_eof =
     (if \<not> successful status then (0, False)
      else if status = Some 204 then (1, False)
      else if is_json_media content_type then
        let valid = nonstream_json_value sd body \<noteq> None in (if valid then 1 else 0, \<not> valid)
      else (1, False))"

definition require_prefix :: "'v sdk \<Rightarrow> 'v response_values \<Rightarrow> u64 \<Rightarrow> bool \<Rightarrow> u64 option \<Rightarrow> string option \<Rightarrow> bool \<Rightarrow> unit contract_result" where
  "require_prefix sd r seen completed status content_type transport_eof =
     (let (available, failed) = available_values sd r status content_type transport_eof in
      if available < seen \<or> (completed \<and> (failed \<or> seen \<noteq> available))
      then Err (Fault (InvalidRecord (Detail ''SDK value count claims an impossible physical response prefix'')))
      else Ok ())"

section \<open>A reference: the stream as lines\<close>

text \<open>
  The lines of a byte string, ended by a carriage return, a line feed or both, and the last line when it is not empty.
  The first argument tells whether a carriage return has just ended the line collected so far.
\<close>

fun sse_lines :: "bool \<Rightarrow> string \<Rightarrow> string \<Rightarrow> string list" where
  "sse_lines cr line [] = (if cr \<or> line \<noteq> [] then [line] else [])"
| "sse_lines True line (b # bs) =
     line # (if b = CHR 0x0A then sse_lines False [] bs
             else if b = CHR 0x0D then sse_lines True [] bs
             else sse_lines False [b] bs)"
| "sse_lines False line (b # bs) =
     (if b = CHR 0x0D then sse_lines True line bs
      else if b = CHR 0x0A then line # sse_lines False [] bs
      else sse_lines False (line @ [b]) bs)"

text \<open>What a reader has but for the bytes it buffers.\<close>

definition core :: "'v sse_values \<Rightarrow> 'v sse_values" where
  "core s = s\<lparr>ss_pending := [], ss_line := [], ss_after_cr := False\<rparr>"

abbreviation ended :: "'v sse_values \<Rightarrow> bool" where
  "ended s \<equiv> ss_failed s \<or> ss_done s"

lemma core_sel [simp]: "ss_failed (core s) = ss_failed s" "ss_done (core s) = ss_done s" "ss_count (core s) = ss_count s"
    "ss_values (core s) = ss_values s" "ss_usage_reports (core s) = ss_usage_reports s" "ss_error_type (core s) = ss_error_type s"
    "ss_event (core s) = ss_event s" "ss_data (core s) = ss_data s" "ss_retain_values (core s) = ss_retain_values s"
    "ss_line (core s) = []" "ss_pending (core s) = []" "ss_after_cr (core s) = False"
  by (simp_all add: core_def)

lemma core_update [simp]: "core (s\<lparr>ss_pending := p\<rparr>) = core s" "core (s\<lparr>ss_line := l\<rparr>) = core s" "core (s\<lparr>ss_after_cr := c\<rparr>) = core s"
  by (simp_all add: core_def)

lemma core_core [simp]: "core (core s) = core s"
  by (simp add: core_def)

text \<open>Buffers are neither read nor written by the end of an event.\<close>

lemma accept_value_frame:
  "accept_value sd name v (s\<lparr>ss_pending := p\<rparr>) = (accept_value sd name v s)\<lparr>ss_pending := p\<rparr>"
  "accept_value sd name v (s\<lparr>ss_line := l\<rparr>) = (accept_value sd name v s)\<lparr>ss_line := l\<rparr>"
  "accept_value sd name v (s\<lparr>ss_after_cr := c\<rparr>) = (accept_value sd name v s)\<lparr>ss_after_cr := c\<rparr>"
  by (cases "next_count (ss_count s)"; simp add: accept_value_def)+

lemma finish_payload_frame:
  "finish_payload sd name payload (s\<lparr>ss_pending := p\<rparr>) = (finish_payload sd name payload s)\<lparr>ss_pending := p\<rparr>"
  "finish_payload sd name payload (s\<lparr>ss_line := l\<rparr>) = (finish_payload sd name payload s)\<lparr>ss_line := l\<rparr>"
  "finish_payload sd name payload (s\<lparr>ss_after_cr := c\<rparr>) = (finish_payload sd name payload s)\<lparr>ss_after_cr := c\<rparr>"
  by (cases "sj_from_str sd payload"; simp add: finish_payload_def accept_value_frame)+

lemma take_event_frame:
  "take_event (s\<lparr>ss_pending := p\<rparr>) = (take_event s)\<lparr>ss_pending := p\<rparr>"
  "take_event (s\<lparr>ss_line := l\<rparr>) = (take_event s)\<lparr>ss_line := l\<rparr>"
  "take_event (s\<lparr>ss_after_cr := c\<rparr>) = (take_event s)\<lparr>ss_after_cr := c\<rparr>"
  by (simp_all add: take_event_def)

lemma finish_event_frame:
  "finish_event sd (s\<lparr>ss_pending := p\<rparr>) = (finish_event sd s)\<lparr>ss_pending := p\<rparr>"
  "finish_event sd (s\<lparr>ss_line := l\<rparr>) = (finish_event sd s)\<lparr>ss_line := l\<rparr>"
  "finish_event sd (s\<lparr>ss_after_cr := c\<rparr>) = (finish_event sd s)\<lparr>ss_after_cr := c\<rparr>"
  by (simp_all add: finish_event_def take_event_frame finish_payload_frame)

lemma finish_event_core: "core (finish_event sd s) = finish_event sd (core s)"
  by (simp only: core_def finish_event_frame)

lemma finish_event_buffers [simp]: "ss_line (finish_event sd s) = ss_line s" "ss_after_cr (finish_event sd s) = ss_after_cr s"
    "ss_pending (finish_event sd s) = ss_pending s"
  by (simp_all add: finish_event_def finish_payload_def accept_value_def take_event_def split: option.split)

lemma apply_line_core: "core (apply_line sd l s) = apply_line sd l (core s)"
  by (simp add: apply_line_def finish_event_core)

lemma apply_line_buffers [simp]: "ss_line (apply_line sd l s) = ss_line s" "ss_after_cr (apply_line sd l s) = ss_after_cr s"
    "ss_pending (apply_line sd l s) = ss_pending s"
  by (simp_all add: apply_line_def)

definition decoded_line :: "string \<Rightarrow> string" where
  "decoded_line line = utf8_lossy (strip_mark line)"

lemma finish_line_core: "core (finish_line sd s) = apply_line sd (decoded_line (ss_line s)) (core s)"
  by (simp add: finish_line_def decoded_line_def apply_line_core)

lemma finish_line_buffers [simp]: "ss_line (finish_line sd s) = []" "ss_after_cr (finish_line sd s) = ss_after_cr s"
    "ss_pending (finish_line sd s) = ss_pending s"
  by (simp_all add: finish_line_def)

text \<open>The line reader: every line is read at once, and nothing after the values have ended.\<close>

definition read_line :: "'v sdk \<Rightarrow> 'v sse_values \<Rightarrow> string \<Rightarrow> 'v sse_values" where
  "read_line sd s line = (if ended s then s else apply_line sd (decoded_line line) s)"

definition read_lines :: "'v sdk \<Rightarrow> 'v sse_values \<Rightarrow> string list \<Rightarrow> 'v sse_values" where
  "read_lines sd s lines = foldl (read_line sd) s lines"

lemma read_lines_ended: "ended s \<Longrightarrow> read_lines sd s ls = s"
  by (induction ls) (auto simp: read_lines_def read_line_def)

lemma read_lines_Nil [simp]: "read_lines sd s [] = s"
  by (simp add: read_lines_def)

lemma read_lines_Cons: "read_lines sd s (l # ls) = read_lines sd (read_line sd s l) ls"
  by (simp add: read_lines_def)

text \<open>What feeding, then flushing at the end of the stream, leaves.\<close>

definition flush :: "'v sdk \<Rightarrow> 'v sse_values \<Rightarrow> 'v sse_values" where
  "flush sd s = (if \<not> ended s \<and> (ss_after_cr s \<or> ss_line s \<noteq> []) then finish_line sd (s\<lparr>ss_after_cr := False\<rparr>) else s)"

lemma feed_Nil [simp]: "feed sd s [] = s"
  by (simp add: feed_def)

lemma feed_Cons: "feed sd s (b # bs) = feed sd (feed_byte sd s b) bs"
  by (simp add: feed_def)

lemma feed_append: "feed sd s (a @ b) = feed sd (feed sd s a) b"
  by (simp add: feed_def)

lemma feed_ended: "ended s \<Longrightarrow> feed sd s bs = s"
  by (induction bs) (auto simp: feed_Cons feed_byte_def)

lemma feed_lines: "core (flush sd (feed sd s bs)) = read_lines sd (core s) (sse_lines (ss_after_cr s) (ss_line s) bs)"
proof (induction bs arbitrary: s)
  case Nil
  show ?case by (auto simp: flush_def read_lines_Cons read_line_def finish_line_core)
next
  case (Cons b bs)
  show ?case
  proof (cases "ended s")
    case True
    then show ?thesis using read_lines_ended [of "core s"] by (simp add: feed_ended flush_def)
  next
    case False
    let ?t = "finish_line sd (s\<lparr>ss_after_cr := False\<rparr>)"
    have t: "core ?t = read_line sd (core s) (ss_line s)" using False by (simp add: finish_line_core read_line_def)
    show ?thesis
    proof (cases "ss_after_cr s")
      case True
      then show ?thesis using False Cons.IH [of ?t] Cons.IH [of "?t\<lparr>ss_after_cr := True\<rparr>"] Cons.IH [of "?t\<lparr>ss_line := [b]\<rparr>"] t
        by (simp add: feed_Cons feed_byte_def read_lines_Cons)
    next
      case noc: False
      then show ?thesis using False Cons.IH [of "s\<lparr>ss_after_cr := True\<rparr>"] Cons.IH [of "finish_line sd s"] Cons.IH [of "s\<lparr>ss_line := ss_line s @ [b]\<rparr>"]
        by (simp add: feed_Cons feed_byte_def read_lines_Cons finish_line_core read_line_def)
    qed
  qed
qed

text \<open>The whole stream, read by lines.\<close>

definition line_reading :: "'v sdk \<Rightarrow> bool \<Rightarrow> string list \<Rightarrow> 'v sse_values" where
  "line_reading sd retain pieces = read_lines sd (sse_new retain) (sse_lines False [] (concat pieces))"

section \<open>Buffering chunks changes nothing\<close>

lemma feed_byte_pending [simp]: "ss_pending (feed_byte sd s b) = ss_pending s"
  by (simp add: feed_byte_def Let_def)

lemma feed_pending [simp]: "ss_pending (feed sd s bs) = ss_pending s"
  by (induction bs arbitrary: s) (simp_all add: feed_Cons)

lemma push_feed:
  "feed sd ((push sd s bs)\<lparr>ss_pending := []\<rparr>) (ss_pending (push sd s bs)) = feed sd (s\<lparr>ss_pending := []\<rparr>) (ss_pending s @ bs)"
proof (induction bs arbitrary: s)
  case Nil
  show ?case by (simp add: push_def)
next
  case (Cons b bs)
  have step: "feed sd ((push_byte sd s b)\<lparr>ss_pending := []\<rparr>) (ss_pending (push_byte sd s b)) = feed sd (s\<lparr>ss_pending := []\<rparr>) (ss_pending s @ [b])"
  proof (cases "ended s")
    case True
    then show ?thesis by (simp add: push_byte_def feed_ended)
  next
    case False
    have "(feed sd (s\<lparr>ss_pending := []\<rparr>) x)\<lparr>ss_pending := []\<rparr> = feed sd (s\<lparr>ss_pending := []\<rparr>) x" for x
      using feed_pending [of sd "s\<lparr>ss_pending := []\<rparr>" x] by (cases "feed sd (s\<lparr>ss_pending := []\<rparr>) x") simp
    then show ?thesis using False by (simp add: push_byte_def Let_def)
  qed
  have "push sd s (b # bs) = push sd (push_byte sd s b) bs" by (simp add: push_def)
  moreover have "ss_pending s @ b # bs = (ss_pending s @ [b]) @ bs" by simp
  ultimately show ?case using Cons.IH [of "push_byte sd s b"] step by (simp only: feed_append)
qed

text \<open>After the values have ended no event is open, and at most the byte that ended them is in the line.\<close>

definition leftover :: "'v sse_values \<Rightarrow> bool" where
  "leftover s \<longleftrightarrow> (ended s \<longrightarrow> ss_event s = None \<and> ss_data s = [] \<and> length (ss_line s) \<le> 1)"

lemma apply_line_ended: "\<not> ended s \<Longrightarrow> ended (apply_line sd l s) \<Longrightarrow> ss_event (apply_line sd l s) = None \<and> ss_data (apply_line sd l s) = []"
  by (auto simp: apply_line_def finish_event_def finish_payload_def accept_value_def take_event_def split: if_splits option.splits)

lemma finish_line_leftover: "\<not> ended s \<Longrightarrow> leftover (finish_line sd s)"
  using apply_line_ended [of "s\<lparr>ss_line := []\<rparr>" sd] by (auto simp: leftover_def finish_line_def)

lemma feed_byte_leftover: "leftover s \<Longrightarrow> leftover (feed_byte sd s b)"
proof (cases "ended s")
  case False
  then have "leftover (finish_line sd (s\<lparr>ss_after_cr := False\<rparr>))" "leftover (finish_line sd s)" by (simp_all add: finish_line_leftover)
  then show ?thesis using False by (auto simp: feed_byte_def Let_def leftover_def)
qed (simp add: feed_byte_def)

lemma feed_leftover: "leftover s \<Longrightarrow> leftover (feed sd s bs)"
  by (induction bs arbitrary: s) (simp_all add: feed_Cons feed_byte_leftover)

lemma leftover_line:
  assumes "leftover s" "ended s"
  shows "apply_line sd (decoded_line (ss_line s)) (core s) = core s"
proof (cases "ss_line s")
  case Nil
  then show ?thesis using assms
    by (simp add: decoded_line_def strip_mark_def utf8_mark_def apply_line_def finish_event_def has_event_def leftover_def)
next
  case (Cons b bs)
  then have line: "ss_line s = [b]" using assms by (simp add: leftover_def)
  have "decoded_line [b] = [b] \<or> decoded_line [b] = [CHR 0xEF, CHR 0xBF, CHR 0xBD]"
  proof (cases "utf8_head [b]")
    case None
    then show ?thesis by (simp add: decoded_line_def strip_mark_def utf8_mark_def utf8_lossy.simps [of "[b]"] ill_formed_length.simps)
  next
    case (Some k)
    then have "k = 1" using utf8_head_bounds by fastforce
    then show ?thesis using Some by (simp add: decoded_line_def strip_mark_def utf8_mark_def utf8_lossy.simps [of "[b]"])
  qed
  then show ?thesis by (auto simp: line apply_line_def line_field_def split_field_def)
qed

lemma settle_flush:
  assumes "leftover (feed sd (s\<lparr>ss_pending := []\<rparr>) (ss_pending s))"
  shows "core (settle sd True s) = core (flush sd (feed sd (s\<lparr>ss_pending := []\<rparr>) (ss_pending s)))"
proof -
  let ?t = "feed sd (s\<lparr>ss_pending := []\<rparr>) (ss_pending s)"
  show ?thesis
  proof (cases "\<not> ended s \<and> (ss_pending s \<noteq> [] \<or> ss_after_cr s \<or> ss_line s \<noteq> [])")
    case False
    then show ?thesis by (cases "ended s") (auto simp: settle_def flush_def feed_ended)
  next
    case True
    then have settled: "settle sd True s = (if ss_after_cr ?t \<or> ss_line ?t \<noteq> [] then finish_line sd (?t\<lparr>ss_after_cr := False\<rparr>) else ?t)"
      by (simp add: settle_def Let_def)
    show ?thesis
    proof (cases "ended ?t")
      case True
      then show ?thesis using leftover_line [OF assms True] unfolding settled by (simp add: flush_def finish_line_core)
    next
      case False
      then show ?thesis unfolding settled by (simp add: flush_def)
    qed
  qed
qed

lemma sse_new_simps [simp]:
  "(sse_new retain)\<lparr>ss_pending := []\<rparr> = sse_new retain" "ss_pending (sse_new retain) = []" "ss_line (sse_new retain) = []"
  "\<not> ss_after_cr (sse_new retain)" "core (sse_new retain) = sse_new retain" "leftover (sse_new retain)"
  by (simp_all add: sse_new_def core_def leftover_def)

lemma settled_lines:
  "core (settle sd True (foldl (push sd) (sse_new retain) pieces)) = read_lines sd (sse_new retain) (sse_lines False [] (concat pieces))"
proof -
  let ?p = "push sd (sse_new retain) (concat pieces)"
  have "foldl (push sd) s pieces = push sd s (concat pieces)" for s :: "'a sse_values"
    by (induction pieces arbitrary: s) (simp_all add: push_def)
  moreover have fed: "feed sd (?p\<lparr>ss_pending := []\<rparr>) (ss_pending ?p) = feed sd (sse_new retain) (concat pieces)"
    using push_feed [of sd "sse_new retain" "concat pieces"] by simp
  moreover have "core (settle sd True ?p) = core (flush sd (feed sd (sse_new retain) (concat pieces)))"
    using settle_flush [of sd ?p] feed_leftover [of "sse_new retain" sd "concat pieces"] unfolding fed by simp
  ultimately show ?thesis using feed_lines [of sd "sse_new retain" "concat pieces"] by simp
qed

text \<open>
  C7: The values of an event stream do not depend on how its bytes arrive or are buffered. Whatever pieces the body is
  received in, at the end of the transport the reader has counted, kept, reported and refused exactly what a reader of whole lines does: lines
  end in a carriage return, a line feed or both, and a last line without an end is read when it is not empty.
\<close>

theorem stream_values_are_lines:
  "core (settle sd True (foldl (push sd) (sse_new retain) pieces)) = line_reading sd retain pieces"
  unfolding line_reading_def by (rule settled_lines)

section \<open>What the end of the transport adds\<close>

text \<open>Two readers alike but for the values they keep, the first with some reports before those of the second.\<close>

definition alike :: "(u64 \<times> served_usage) list \<Rightarrow> 'v sse_values \<Rightarrow> 'v sse_values \<Rightarrow> bool" where
  "alike base s t \<longleftrightarrow>
     ss_pending s = ss_pending t \<and> ss_line s = ss_line t \<and> ss_event s = ss_event t \<and> ss_data s = ss_data t
     \<and> ss_count s = ss_count t \<and> ss_failed s = ss_failed t \<and> ss_error_type s = ss_error_type t \<and> ss_done s = ss_done t
     \<and> ss_after_cr s = ss_after_cr t \<and> ss_usage_reports s = base @ ss_usage_reports t"

lemma alike_accept_value: "alike base s t \<Longrightarrow> alike base (accept_value sd name v s) (accept_value sd name v t)"
  by (cases "next_count (ss_count t)") (auto simp: alike_def accept_value_def)

lemma alike_finish_payload: "alike base s t \<Longrightarrow> alike base (finish_payload sd name payload s) (finish_payload sd name payload t)"
proof (cases "sj_from_str sd payload")
  case None
  assume "alike base s t"
  then show ?thesis using None by (simp add: finish_payload_def alike_def)
next
  case (Some v)
  assume "alike base s t"
  from this alike_accept_value [OF this] show ?thesis using Some by (simp add: finish_payload_def) (simp add: alike_def)
qed

lemma alike_finish_event: "alike base s t \<Longrightarrow> alike base (finish_event sd s) (finish_event sd t)"
proof -
  assume st: "alike base s t"
  then have "alike base (take_event s) (take_event t)" by (simp add: alike_def take_event_def)
  with st show ?thesis using alike_finish_payload [of base "take_event s" "take_event t" sd "ss_event t" "join_lines (ss_data t)"]
    by (auto simp: finish_event_def) (auto simp: alike_def)
qed

lemma alike_finish_line: "alike base s t \<Longrightarrow> alike base (finish_line sd s) (finish_line sd t)"
proof -
  assume st: "alike base s t"
  then have "alike base (s\<lparr>ss_line := []\<rparr>) (t\<lparr>ss_line := []\<rparr>)" by (simp add: alike_def)
  from this alike_finish_event [OF this, of sd] show ?thesis using st by (auto simp: finish_line_def apply_line_def alike_def)
qed

lemma alike_feed_byte: "alike base s t \<Longrightarrow> alike base (feed_byte sd s b) (feed_byte sd t b)"
proof -
  assume st: "alike base s t"
  then have cr: "alike base (s\<lparr>ss_after_cr := False\<rparr>) (t\<lparr>ss_after_cr := False\<rparr>)" by (simp add: alike_def)
  show ?thesis using st alike_finish_line [OF st, of sd] alike_finish_line [OF cr, of sd]
    by (auto simp: feed_byte_def Let_def alike_def)
qed

lemma alike_feed: "alike base s t \<Longrightarrow> alike base (feed sd s bs) (feed sd t bs)"
  by (induction bs arbitrary: s t) (simp_all add: feed_Cons alike_feed_byte)

lemma alike_settle: "alike base s t \<Longrightarrow> alike base (settle sd eof s) (settle sd eof t)"
proof -
  assume st: "alike base s t"
  then have "alike base (s\<lparr>ss_pending := []\<rparr>) (t\<lparr>ss_pending := []\<rparr>)" by (simp add: alike_def)
  then have fed: "alike base (feed sd (s\<lparr>ss_pending := []\<rparr>) (ss_pending t)) (feed sd (t\<lparr>ss_pending := []\<rparr>) (ss_pending t))" (is "alike base ?s ?t")
    by (rule alike_feed)
  then have "alike base (?s\<lparr>ss_after_cr := False\<rparr>) (?t\<lparr>ss_after_cr := False\<rparr>)" by (simp add: alike_def)
  note flushed = alike_finish_line [OF this, of sd]
  have pending: "ss_pending s = ss_pending t" using st by (simp add: alike_def)
  have same: "ss_after_cr ?s = ss_after_cr ?t" "ss_line ?s = ss_line ?t" "ss_after_cr s = ss_after_cr t" "ss_line s = ss_line t"
    "ss_failed s = ss_failed t" "ss_done s = ss_done t" using fed st by (simp_all add: alike_def)
  let ?go = "eof \<and> (ss_pending t \<noteq> [] \<or> ss_after_cr t \<or> ss_line t \<noteq> []) \<and> \<not> ss_failed t \<and> \<not> ss_done t"
  have "settle sd eof s = (if ?go then if ss_after_cr ?t \<or> ss_line ?t \<noteq> [] then finish_line sd (?s\<lparr>ss_after_cr := False\<rparr>) else ?s else s)"
    "settle sd eof t = (if ?go then if ss_after_cr ?t \<or> ss_line ?t \<noteq> [] then finish_line sd (?t\<lparr>ss_after_cr := False\<rparr>) else ?t else t)"
    unfolding settle_def Let_def pending same by (rule refl)+
  then show ?thesis using st fed flushed by (cases ?go; cases "ss_after_cr ?t \<or> ss_line ?t \<noteq> []") (simp_all only: if_True if_False simp_thms)
qed

lemma eof_tail_alike: "alike (ss_usage_reports s) (settle sd eof s) (eof_tail sd eof s)"
  unfolding eof_tail_def by (rule alike_settle) (simp add: alike_def)

text \<open>Reports stand at increasing positions up to the count, and every counted value is kept when values are.\<close>

definition sse_inv :: "'v sse_values \<Rightarrow> bool" where
  "sse_inv s \<longleftrightarrow> sorted_wrt (<) (map fst (ss_usage_reports s)) \<and> (\<forall>(p, u) \<in> set (ss_usage_reports s). 0 < p \<and> p \<le> ss_count s)
     \<and> ss_count s \<le> SAFE_INTEGER \<and> length (ss_values s) = (if ss_retain_values s then unat (ss_count s) else 0)"

lemma next_count_Some: "next_count n = Some m \<Longrightarrow> unat m = unat n + 1 \<and> n < m \<and> m \<le> SAFE_INTEGER"
  by (auto simp: next_count_def bind_eq_Some_conv checked_add_Some_iff word_less_nat_alt split: if_splits)

lemma accept_value_inv:
  assumes "sse_inv s"
  shows "sse_inv (accept_value sd name v s)"
proof (cases "next_count (ss_count s)")
  case None
  then show ?thesis using assms by (auto simp: accept_value_def sse_inv_def)
next
  case (Some m)
  note m = next_count_Some [OF Some]
  have "\<forall>(p, u) \<in> set (ss_usage_reports s). p < m" using assms m by (fastforce simp: sse_inv_def)
  moreover have "value_report sd name m v = [] \<or> (\<exists>u. value_report sd name m v = [(m, u)])"
    by (auto simp: value_report_def split: option.splits)
  moreover have "0 < m" using m by (simp add: word_less_nat_alt)
  ultimately show ?thesis using assms m Some
    by (auto simp: accept_value_def sse_inv_def sorted_wrt_append kept_value_def intro: less_imp_le)
qed

lemma read_lines_inv: "sse_inv s \<Longrightarrow> sse_inv (read_lines sd s ls)"
proof (induction ls arbitrary: s)
  case (Cons l ls)
  have "sse_inv (take_event s)" using Cons.prems by (simp add: sse_inv_def take_event_def)
  then have "sse_inv (finish_payload sd name payload (take_event s))" for name payload
    using accept_value_inv [of "take_event s"]
    by (cases "sj_from_str sd payload") (auto simp: finish_payload_def, auto simp: sse_inv_def)
  then have "sse_inv (read_line sd s l)"
    using Cons.prems by (auto simp: read_line_def apply_line_def finish_event_def) (auto simp: sse_inv_def)
  then show ?case using Cons.IH by (simp add: read_lines_Cons)
qed simp

lemma read_lines_retain: "ss_retain_values (read_lines sd s ls) = ss_retain_values s"
proof (induction ls arbitrary: s)
  case (Cons l ls)
  have "ss_retain_values (read_line sd s l) = ss_retain_values s"
    by (auto simp: read_line_def apply_line_def finish_event_def finish_payload_def accept_value_def take_event_def split: option.split)
  then show ?case using Cons.IH by (simp add: read_lines_Cons)
qed simp

lemma find_rev_sorted:
  fixes n :: "'p::linorder"
  assumes "sorted_wrt (<) (map fst xs)"
  shows "List.find (\<lambda>(p, _). p \<le> n) (rev xs) = Some (p, u) \<longleftrightarrow> (p, u) \<in> set xs \<and> p \<le> n \<and> (\<forall>(q, w) \<in> set xs. q \<le> n \<longrightarrow> q \<le> p)"
  using assms
proof (induction xs rule: rev_induct)
  case (snoc x xs)
  obtain q w where x: "x = (q, w)" by (cases x)
  have less: "\<forall>(p, u) \<in> set xs. p < q" using snoc.prems by (auto simp: x sorted_wrt_append)
  show ?case using snoc less by (auto simp: x sorted_wrt_append)
qed simp

text \<open>
  C8: What a successful event stream is held to at the end of the transport is what its lines give, in whatever pieces it
  arrived. The number of values available and whether reading failed are those of the line reader; the retained values are as many
  as are available; and for a positive number of values seen, the usage observed is the report
  at the greatest position up to that number.
\<close>

theorem stream_observation_exact:
  assumes "successful status" and "s = foldl (push sd) (sse_new retain) pieces"
  shows "available_values sd (StreamValues s) status content_type True = (ss_count (line_reading sd retain pieces), ss_failed (line_reading sd retain pieces))
     \<and> into_stream_values sd True (StreamValues s) = Some (ss_values (line_reading sd retain pieces))
     \<and> length (ss_values (line_reading sd retain pieces)) = (if retain then unat (ss_count (line_reading sd retain pieces)) else 0)
     \<and> (0 < seen \<longrightarrow> (\<forall>u. observed_usage sd (StreamValues s) seen status content_type True = Some u \<longleftrightarrow>
          (\<exists>p. (p, u) \<in> set (ss_usage_reports (line_reading sd retain pieces)) \<and> p \<le> seen
             \<and> (\<forall>(q, w) \<in> set (ss_usage_reports (line_reading sd retain pieces)). q \<le> seen \<longrightarrow> q \<le> p))))"
proof -
  let ?r = "read_lines sd (sse_new retain) (sse_lines False [] (concat pieces))"
  have r: "core (settle sd True s) = ?r" unfolding assms(2) by (rule settled_lines)
  have tail: "ss_count (eof_tail sd True s) = ss_count ?r" "ss_failed (eof_tail sd True s) = ss_failed ?r"
    "ss_usage_reports ?r = ss_usage_reports s @ ss_usage_reports (eof_tail sd True s)"
    using eof_tail_alike [of s sd True] by (simp_all add: alike_def flip: r)
  have inv: "sse_inv ?r" by (rule read_lines_inv) (simp add: sse_inv_def sse_new_def)
  have "ss_retain_values ?r = retain" by (simp add: read_lines_retain) (simp add: sse_new_def)
  moreover have "ss_values (settle sd True s) = ss_values ?r" by (simp flip: r)
  moreover have "observed_usage sd (StreamValues s) seen status content_type True
      = map_option snd (List.find (\<lambda>(p, _). p \<le> seen) (rev (ss_usage_reports ?r)))" if "0 < seen"
    using that assms(1) tail(3) by auto
  moreover have "sorted_wrt (<) (map fst (ss_usage_reports ?r))" using inv by (simp add: sse_inv_def)
  ultimately show ?thesis unfolding line_reading_def using assms(1) tail(1,2) inv find_rev_sorted [of "ss_usage_reports ?r" seen]
    by (auto simp: sse_inv_def)
qed

text \<open>A library that reads one text, and a stream of one event in two pieces.\<close>

definition sample_sdk :: "nat sdk" where
  "sample_sdk = \<lparr>sj_from_str = (\<lambda>s. if s = ''7'' then Some 7 else None), sj_pointer = (\<lambda>_ _. None), sj_get = (\<lambda>_ _. None),
     sj_as_str = (\<lambda>_. None), sj_as_object = (\<lambda>_. None), sd_view = (\<lambda>_. ViewNumber (Some (Finite 7))), sd_event = (\<lambda>_ v. v)\<rparr>"

definition sample_pieces :: "string list" where
  "sample_pieces = [''data: '', ''7'' @ [CHR 0x0A, CHR 0x0A]]"

theorem stream_observation_exact_witness:
  "into_stream_values sample_sdk True (StreamValues (foldl (push sample_sdk) (sse_new True) sample_pieces)) = Some [7]
     \<and> available_values sample_sdk (StreamValues (foldl (push sample_sdk) (sse_new True) sample_pieces)) (Some 200) None True = (1, False)"
proof -
  have "decoded_line ''data: 7'' = ''data: 7''" "decoded_line [] = []" by (code_simp, code_simp)
  moreover have "line_field ''data: 7'' = (''data'', ''7'')" by code_simp
  moreover have "next_count 0 = Some 1" by (simp add: next_count_def checked_add_def SAFE_INTEGER_def)
  moreover have "openai_served_usage sample_sdk 7 = None" by (simp add: openai_served_usage_def sample_sdk_def)
  ultimately have "line_reading sample_sdk True sample_pieces = (sse_new True)\<lparr>ss_count := 1, ss_values := [7]\<rparr>"
    by (simp add: line_reading_def sample_pieces_def read_lines_def read_line_def apply_line_def finish_event_def finish_payload_def take_event_def
        accept_value_def error_payload_def value_report_def kept_value_def thread_event_def has_event_def sse_new_def)
      (simp add: sample_sdk_def accept_value_def error_payload_def value_report_def kept_value_def thread_event_def)
  moreover have "successful (Some 200)" by (simp add: successful_def)
  ultimately show ?thesis using stream_observation_exact [of "Some 200" _ sample_sdk True sample_pieces None 1] by (simp add: sse_new_def)
qed

end
