(* ===== verification/Runtime_Contract.thy ===== *)
theory Runtime_Contract
  imports Authorship
begin

text \<open>
  \<^verbatim>\<open>protocol/engine/src/runtime.rs\<close>: the owner of one captured stream. This theory has the values of the contract, the
  bindings a manifest fixes, the terminal result, the state of the owner, and observation: what every record, admitted or not,
  adds to the totals the owner reports. The generated identity of the contract and the name of one subtype are arguments.
\<close>

abbreviation runtime_refusal :: "string \<Rightarrow> nat \<Rightarrow> string list \<Rightarrow> contract_fault" where
  "runtime_refusal detail line values \<equiv> Fault (InvalidRecord (RuntimeEvidence detail line values))"

section \<open>Values of the contract\<close>

record agent_scope =
  as_tool_use_id :: string
  as_tool_name :: string
  as_reported_num_turns :: "u64 option"
  as_is_error :: "bool option"
  as_subtype :: "string option"
  as_error_message :: "string option"

record request_scope =
  rs_kv_scope :: string
  rs_usage :: usage_summary

record agent_result =
  ar_is_error :: bool
  ar_subtype :: string
  ar_response :: string
  ar_duration_ms :: u64
  ar_api_duration_ms :: u64
  ar_num_turns :: u64
  ar_main_kv_scope :: string
  ar_usage :: usage_summary
  ar_request_scopes :: "request_scope list"
  ar_scopes :: "agent_scope list"
  ar_missing_deliverables :: "string list option"

record terminal =
  tm_line :: nat
  tm_is_error :: bool
  tm_subtype :: string
  tm_response :: "string option"
  tm_duration_ms :: "u64 option"
  tm_api_duration_ms :: "u64 option"
  tm_num_turns :: u64
  tm_error_message :: "string option"
  tm_missing_deliverables :: "string list option"

definition required_scope :: "jvalue \<Rightarrow> nat \<Rightarrow> string option contract_result" where
  "required_scope v line =
     (case jget v ''parent_tool_use_id'' of
        None \<Rightarrow> Ok None
      | Some JNull \<Rightarrow> Ok None
      | Some (JString s) \<Rightarrow>
          if s \<noteq> [] then Ok (Some s) else Err (runtime_refusal ''parent_tool_use_id is neither null nor an agent tool-call id'' line [])
      | Some _ \<Rightarrow> Err (runtime_refusal ''parent_tool_use_id is neither null nor an agent tool-call id'' line []))"

definition add_count :: "u64 \<Rightarrow> u64 \<Rightarrow> string \<Rightarrow> u64 contract_result" where
  "add_count a b name = ok_or (checked_add a b) (Fault (ValidationUnavailable (RuntimeEvidence (name @ '' overflowed'') 0 [])))"

fun decode_failure :: "decode_fault \<Rightarrow> nat \<Rightarrow> contract_fault" where
  "decode_failure (Refused (ResourceLimit resource limit)) line = Fault (ValidationUnavailable (WireLimit line resource limit))"
| "decode_failure (Refused other) line = Fault (InvalidRecord (WireSyntax line other))"
| "decode_failure Panic line = ContractPanic"

section \<open>Bindings\<close>

fun string_set_loop :: "string \<Rightarrow> string set \<Rightarrow> jvalue list \<Rightarrow> string set contract_result" where
  "string_set_loop name found [] = Ok found"
| "string_set_loop name found (item # items) =
     bindR (ok_or (case as_str item of Some s \<Rightarrow> if s = [] then None else Some s | None \<Rightarrow> None)
              (runtime_refusal ''contains a non-string or empty value'' 0 [name])) (\<lambda>s.
       if s \<in> found then Err (runtime_refusal ''contains duplicate'' 0 [name, s])
       else string_set_loop name (Set.insert s found) items)"

definition string_set :: "jvalue \<Rightarrow> string \<Rightarrow> string set contract_result" where
  "string_set v name =
     bindR (ok_or (elements v) (runtime_refusal ''must be an array'' 0 [name])) (string_set_loop name {})"

definition check_bindings :: "string \<Rightarrow> jvalue \<Rightarrow> jvalue contract_result" where
  "check_bindings contract_sha256 manifest =
     bindR (mapR (\<lambda>key. text_field manifest key 0) [''cwd'', ''model'', ''permission_mode'', ''qwen_code_version'']) (\<lambda>_.
     bindR (text_field manifest ''stream_contract_sha256'' 0) (\<lambda>sha.
       if sha \<noteq> contract_sha256
       then Err (Fault (InvalidDefinition (RuntimeEvidence ''runtime manifest contract identity mismatch'' 0 [])))
       else
         bindR (mapR (\<lambda>key. bindR (field manifest key 0) (\<lambda>v. string_set v key)) [''tools'', ''agents'', ''slash_commands'']) (\<lambda>_.
         bindR (field manifest ''mcp_servers'' 0) (\<lambda>servers.
           if \<not> is_array servers
           then Err (Fault (InvalidDefinition (RuntimeEvidence ''runtime manifest mcp_servers must be an array'' 0 [])))
           else Ok manifest))))"

fun configuration_fault :: "contract_fault \<Rightarrow> contract_fault" where
  "configuration_fault (Fault _) = Fault (InvalidConfiguration (Detail ''runtime bindings''))"
| "configuration_fault ContractPanic = ContractPanic"

definition bindings_new :: "string \<Rightarrow> jvalue \<Rightarrow> jvalue contract_result" where
  "bindings_new contract_sha256 manifest = map_err configuration_fault (check_bindings contract_sha256 manifest)"

text \<open>The operands of \<^verbatim>\<open>||\<close> are evaluated in turn, each with the question mark of its own reading.\<close>

definition validate_stream_start :: "string \<Rightarrow> jvalue \<Rightarrow> nat \<Rightarrow> unit contract_result" where
  "validate_stream_start contract_sha256 v line =
     (let refuse = Err (runtime_refusal ''is not the root stream_start for this contract'' line []) in
      bindR (text_field v ''type'' line) (\<lambda>type.
        if type \<noteq> ''system'' then refuse
        else bindR (text_field v ''subtype'' line) (\<lambda>subtype.
          if subtype \<noteq> ''stream_start'' then refuse
          else bindR (required_scope v line) (\<lambda>scope.
            if scope \<noteq> None then refuse
            else bindR (text_field v ''stream_contract_sha256'' line) (\<lambda>sha.
              if sha \<noteq> contract_sha256 then refuse else Ok ())))))"

definition same_field :: "jvalue \<Rightarrow> jvalue \<Rightarrow> nat \<Rightarrow> unit \<Rightarrow> string \<Rightarrow> unit contract_result" where
  "same_field v manifest line _ key =
     bindR (field v key line) (\<lambda>a.
     bindR (field manifest key 0) (\<lambda>b.
       if \<not> value_eq a b then Err (runtime_refusal ''init field differs from the pinned contract'' 0 [key]) else Ok ()))"

definition same_string_set :: "jvalue \<Rightarrow> jvalue \<Rightarrow> nat \<Rightarrow> unit \<Rightarrow> string \<Rightarrow> unit contract_result" where
  "same_string_set v manifest line _ key =
     bindR (field v key line) (\<lambda>a.
     bindR (string_set a key) (\<lambda>a.
     bindR (field manifest key 0) (\<lambda>b.
     bindR (string_set b key) (\<lambda>b.
       if a \<noteq> b then Err (runtime_refusal ''init field differs from the pinned contract'' 0 [key]) else Ok ()))))"

definition validate_init :: "jvalue \<Rightarrow> jvalue \<Rightarrow> nat \<Rightarrow> unit contract_result" where
  "validate_init manifest v line =
     (let refuse = Err (runtime_refusal ''is not root runtime metadata'' line []) in
      bindR (text_field v ''type'' line) (\<lambda>type.
        if type \<noteq> ''system'' then refuse
        else bindR (text_field v ''subtype'' line) (\<lambda>subtype.
          if subtype \<noteq> ''init'' then refuse
          else bindR (required_scope v line) (\<lambda>scope.
            if scope \<noteq> None then refuse
            else
              bindR (foldR (same_field v manifest line) ()
                [''stream_contract_sha256'', ''cwd'', ''model'', ''permission_mode'', ''qwen_code_version'', ''mcp_servers'']) (\<lambda>_.
                foldR (same_string_set v manifest line) () [''tools'', ''agents'', ''slash_commands''])))))"

section \<open>The terminal result\<close>

definition terminal_duration :: "jvalue \<Rightarrow> bool \<Rightarrow> string \<Rightarrow> u64 option contract_result" where
  "terminal_duration v root_run key =
     (case jget v key of
        Some d \<Rightarrow>
          if \<not> root_run \<and> is_null d then Ok None
          else map_err (\<lambda>fault. case fault of
                   Fault _ \<Rightarrow> runtime_refusal ''terminal result lacks non-negative integer'' 0 [key] | ContractPanic \<Rightarrow> ContractPanic)
                 (map_ok Some (unsigned d key (- 1)))
      | None \<Rightarrow> Err (runtime_refusal ''terminal result lacks non-negative integer'' 0 [key]))"

definition terminal_error_message :: "jvalue \<Rightarrow> nat \<Rightarrow> string option contract_result" where
  "terminal_error_message v line =
     (case jget v ''error'' of
        None \<Rightarrow> Ok None
      | Some e \<Rightarrow>
          bindR (ok_or (as_object e) (runtime_refusal ''terminal error must be an object'' 0 [])) (\<lambda>e.
            if jget e ''message'' = None then Ok None else map_ok Some (text_field e ''message'' line)))"

definition missing_path :: "jvalue \<Rightarrow> string contract_result" where
  "missing_path v = ok_or (case as_str v of Some s \<Rightarrow> if s = [] then None else Some s | None \<Rightarrow> None)
     (runtime_refusal ''missing_deliverables holds a path that is not a non-empty string'' 0 [])"

definition terminal_missing :: "string \<Rightarrow> jvalue \<Rightarrow> nat \<Rightarrow> bool \<Rightarrow> string \<Rightarrow> string list option contract_result" where
  "terminal_missing missing_subtype v line root_run subtype =
     (if subtype = missing_subtype then
        if \<not> root_run then Err (runtime_refusal ''a subagent result names a subtype only the session can report'' 0 [subtype])
        else
          bindR (field v ''missing_deliverables'' line) (\<lambda>l.
          bindR (ok_or (elements l) (runtime_refusal ''missing_deliverables must be an array of paths'' 0 [])) (\<lambda>items.
          bindR (mapR missing_path items) (\<lambda>paths.
            if paths = [] \<or> card (set paths) \<noteq> length paths
            then Err (runtime_refusal ''missing_deliverables must name at least one path, each once'' 0 [])
            else Ok (Some paths))))
      else if jget v ''missing_deliverables'' \<noteq> None
      then Err (runtime_refusal ''a result carries missing_deliverables'' 0 [subtype])
      else Ok None)"

definition read_terminal :: "compilation \<Rightarrow> string \<Rightarrow> jvalue \<Rightarrow> nat \<Rightarrow> bool \<Rightarrow> terminal contract_result" where
  "read_terminal c missing_subtype v line root_run =
     bindR (field v ''is_error'' line) (\<lambda>flag.
     bindR (ok_or (as_bool flag) (runtime_refusal ''terminal result lacks boolean is_error'' 0 [])) (\<lambda>is_error.
     bindR (text_field v ''subtype'' line) (\<lambda>subtype.
       if (is_error \<and> subtype \<notin> set (cp_error_subtypes c)) \<or> (\<not> is_error \<and> subtype \<noteq> cp_success_subtype c)
       then Err (runtime_refusal ''result has unsupported subtype'' 0 [subtype])
       else
         bindR (terminal_duration v root_run ''duration_ms'') (\<lambda>duration_ms.
         bindR (terminal_duration v root_run ''duration_api_ms'') (\<lambda>api_duration_ms.
         bindR (field v ''num_turns'' line) (\<lambda>turns.
         bindR (unsigned turns ''num_turns'' SAFE_INTEGER) (\<lambda>num_turns.
         bindR (if \<not> root_run \<and> jget v ''usage'' = Some JNull then Ok ()
                else bindR (field v ''usage'' line) (\<lambda>usage. map_ok (\<lambda>_. ()) (usage_summary_read usage line))) (\<lambda>_.
           if \<not> (case jget v ''permission_denials'' of Some d \<Rightarrow> is_array d | None \<Rightarrow> False)
           then Err (runtime_refusal ''terminal result lacks array permission_denials'' 0 [])
           else
             bindR (terminal_error_message v line) (\<lambda>error_message.
               if is_error \<and> error_message = None then Err (runtime_refusal ''error result lacks non-empty error.message'' 0 [])
               else
                 bindR (terminal_missing missing_subtype v line root_run subtype) (\<lambda>missing.
                 bindR (if is_error then Ok error_message
                        else if root_run then map_ok Some (text_field v ''result'' line)
                        else Ok (Option.bind (jget v ''result'') as_str)) (\<lambda>response.
                   Ok \<lparr>tm_line = line, tm_is_error = is_error, tm_subtype = subtype, tm_response = response,
                       tm_duration_ms = duration_ms, tm_api_duration_ms = api_duration_ms, tm_num_turns = num_turns,
                       tm_error_message = error_message, tm_missing_deliverables = missing\<rparr>)))))))))))"

section \<open>The state of the owner\<close>

record runtime_operation =
  ro_id :: string
  ro_output_sha256 :: string
  ro_output_bytes :: u64

record scope_state =
  sc_id :: "string option"
  sc_terminal :: "terminal option"
  sc_partial :: partial_stream_state
  sc_runtime_text :: "string option"
  sc_model_text :: "string option"
  sc_structured_input :: "string option"
  sc_runtime_operation :: "runtime_operation option"
  sc_completed_runtime_operation :: "string option"

definition scope_state_default :: scope_state where
  "scope_state_default = \<lparr>sc_id = None, sc_terminal = None, sc_partial = partial_stream_default, sc_runtime_text = None,
     sc_model_text = None, sc_structured_input = None, sc_runtime_operation = None, sc_completed_runtime_operation = None\<rparr>"

record owed_display =
  od_scope :: "string option"
  od_model :: string
  od_messages :: "display_message list"

record tool_use =
  tu_name :: string
  tu_structured_input :: "string option"
  tu_line :: nat
  tu_scope :: "string option"
  tu_returned :: bool

text \<open>What a plan commits; what it admits to \<^verbatim>\<open>ModelRequests\<close> is the type parameter.\<close>

record 'a admission_plan =
  ap_runtime_initialized :: bool
  ap_request_origin :: "'a option"
  ap_request :: "'a option"
  ap_utility_request :: "'a option"
  ap_utility_completion :: "'a option"
  ap_response :: "'a option"
  ap_seed :: "'a option"
  ap_generation :: "'a option"
  ap_completion :: "'a option"
  ap_compaction_claims :: "'a list"
  ap_compaction_commit :: "(string \<times> string) option"
  ap_compaction_failed :: "string option"
  ap_row :: nat
  ap_state :: scope_state
  ap_additions :: "(string, tool_use) btree"
  ap_returns :: "string set"
  ap_runtime_operation_id :: "string option"
  ap_owed :: "owed_display option"
  ap_partial_origin :: "(string option \<times> output_origin) option"
  ap_prefix :: u64

record 'a pending_admission =
  pa_sequence :: u64
  pa_document :: document
  pa_plan :: "'a admission_plan"

record runtime_observations =
  ob_num_turns :: "u64 option"
  ob_usage :: usage_summary
  ob_subagent_scope_count :: u64
  ob_unaccounted_records :: u64

record admission_token =
  tk_owner :: nat
  tk_sequence :: "u64 option"

text \<open>The identity of an owner is the address of its allocation; the origins shown by scope are a map.\<close>

record ('m, 'a) runtime_contract =
  rc_requests :: 'm
  rc_identity :: nat
  rc_manifest :: jvalue
  rc_json_limits :: limits
  rc_operations :: nat
  rc_operator :: string
  rc_session_id :: "string option"
  rc_runtime_initialized :: bool
  rc_seen_uuids :: "string set"
  rc_observed_scopes :: "string set"
  rc_observed_journal :: "string option"
  rc_observed_requests :: "string \<rightharpoonup> bool"
  rc_observed_utility_requests :: "string set"
  rc_failed_compaction_scopes :: "string set"
  rc_records_seen :: u64
  rc_prefix :: u64
  rc_first_refusal :: "contract_error option"
  rc_observations :: runtime_observations
  rc_scope_states :: "scope_state list"
  rc_scope_rows :: "string \<rightharpoonup> nat"
  rc_tool_uses :: "(string, tool_use) btree"
  rc_runtime_operation_ids :: "string set"
  rc_owed :: "owed_display option"
  rc_partial_origins :: "string option \<rightharpoonup> output_origin"
  rc_pending :: "'a pending_admission option"

definition runtime_new :: "'m \<Rightarrow> nat \<Rightarrow> jvalue \<Rightarrow> limits \<Rightarrow> nat \<Rightarrow> string \<Rightarrow> ('m, 'a) runtime_contract" where
  "runtime_new requests identity manifest json operations operator =
     \<lparr>rc_requests = requests, rc_identity = identity, rc_manifest = manifest, rc_json_limits = json, rc_operations = operations,
      rc_operator = operator, rc_session_id = None, rc_runtime_initialized = False, rc_seen_uuids = {}, rc_observed_scopes = {},
      rc_observed_journal = None, rc_observed_requests = Map.empty, rc_observed_utility_requests = {}, rc_failed_compaction_scopes = {},
      rc_records_seen = 0, rc_prefix = 0, rc_first_refusal = None,
      rc_observations = \<lparr>ob_num_turns = None, ob_usage = usage_summary_default, ob_subagent_scope_count = 0, ob_unaccounted_records = 0\<rparr>,
      rc_scope_states = [scope_state_default], rc_scope_rows = Map.empty, rc_tool_uses = [], rc_runtime_operation_ids = {},
      rc_owed = None, rc_partial_origins = Map.empty, rc_pending = None\<rparr>"

record runtime_snapshot =
  sn_records_seen :: u64
  sn_certified_prefix_records :: u64
  sn_first_refusal :: "contract_error option"
  sn_pending_admission :: bool
  sn_observations :: runtime_observations

definition runtime_snapshot_of :: "('m, 'a) runtime_contract \<Rightarrow> runtime_snapshot" where
  "runtime_snapshot_of s =
     \<lparr>sn_records_seen = rc_records_seen s, sn_certified_prefix_records = rc_prefix s, sn_first_refusal = rc_first_refusal s,
      sn_pending_admission = (rc_pending s \<noteq> None), sn_observations = rc_observations s\<rparr>"

section \<open>Observation\<close>

abbreviation unaccounted :: "string \<Rightarrow> nat \<Rightarrow> contract_fault" where
  "unaccounted detail line \<equiv> runtime_refusal (''has unaccounted physical evidence: '' @ detail) line []"

text \<open>What one record adds: the new totals, and the identities inserted after every check has passed.\<close>

record observation =
  on_observations :: runtime_observations
  on_journal :: "string option"
  on_request :: "string option"
  on_utility_request :: "string option"
  on_outcome :: "string option"

abbreviation plain_observation :: "runtime_observations \<Rightarrow> observation" where
  "plain_observation ob \<equiv> \<lparr>on_observations = ob, on_journal = None, on_request = None, on_utility_request = None, on_outcome = None\<rparr>"

definition observe_stream_start :: "('m, 'a) runtime_contract \<Rightarrow> jvalue \<Rightarrow> nat \<Rightarrow> observation contract_result" where
  "observe_stream_start s v line =
     (if rc_observed_journal s \<noteq> None then Err (unaccounted ''repeated journal origin'' line)
      else
        bindR (field v ''request_evidence_origin'' line) (\<lambda>origin.
        bindR (text_field origin ''journal_id'' line) (\<lambda>journal.
          Ok ((plain_observation (rc_observations s))\<lparr>on_journal := Some journal\<rparr>))))"

definition observe_request :: "('m, 'a) runtime_contract \<Rightarrow> jvalue \<Rightarrow> nat \<Rightarrow> observation contract_result" where
  "observe_request s v line =
     bindR (field v ''request'' line) (\<lambda>evidence.
     bindR (text_field evidence ''request_id'' line) (\<lambda>ident.
     bindR (text_field evidence ''journal_id'' line) (\<lambda>journal.
       if rc_observed_journal s \<noteq> Some journal \<or> rc_observed_requests s ident \<noteq> None
       then Err (unaccounted ''request has a foreign journal or repeated identity'' line)
       else
         bindR (admit_request (ob_usage (rc_observations s))) (\<lambda>usage.
           Ok ((plain_observation ((rc_observations s)\<lparr>ob_usage := usage\<rparr>))\<lparr>on_request := Some ident\<rparr>)))))"

definition observe_utility_request :: "('m, 'a) runtime_contract \<Rightarrow> jvalue \<Rightarrow> nat \<Rightarrow> observation contract_result" where
  "observe_utility_request s v line =
     bindR (field v ''utility_request'' line) (\<lambda>evidence.
     bindR (text_field evidence ''request_id'' line) (\<lambda>ident.
     bindR (text_field evidence ''journal_id'' line) (\<lambda>journal.
       if rc_observed_journal s \<noteq> Some journal \<or> rc_observed_requests s ident \<noteq> None
       then Err (unaccounted ''utility request has a foreign journal or repeated identity'' line)
       else Ok ((plain_observation (rc_observations s))\<lparr>on_request := Some ident, on_utility_request := Some ident\<rparr>))))"

definition observe_outcome :: "('m, 'a) runtime_contract \<Rightarrow> string \<Rightarrow> jvalue \<Rightarrow> nat \<Rightarrow> observation contract_result" where
  "observe_outcome s ident event line =
     (if rc_observed_requests s ident = Some True then Err (unaccounted ''request has a repeated processing outcome'' line)
      else
        bindR (field event ''served_usage'' line) (\<lambda>usage.
        bindR (if ident \<in> rc_observed_utility_requests s then Ok (rc_observations s)
               else
                 bindR (if is_null usage then Ok None else map_ok Some (served_usage_read usage line)) (\<lambda>served.
                 bindR (finalize (ob_usage (rc_observations s)) served) (\<lambda>usage.
                   Ok ((rc_observations s)\<lparr>ob_usage := usage\<rparr>)))) (\<lambda>ob.
          Ok ((plain_observation ob)\<lparr>on_outcome := Some ident\<rparr>))))"

definition observe_response :: "('m, 'a) runtime_contract \<Rightarrow> jvalue \<Rightarrow> nat \<Rightarrow> observation contract_result" where
  "observe_response s v line =
     bindR (field v ''response'' line) (\<lambda>evidence.
     bindR (text_field evidence ''request_id'' line) (\<lambda>ident.
     bindR (text_field evidence ''journal_id'' line) (\<lambda>journal.
       if rc_observed_journal s \<noteq> Some journal \<or> rc_observed_requests s ident = None
       then Err (unaccounted ''response has no observed request owner'' line)
       else
         bindR (field evidence ''event'' line) (\<lambda>event.
         bindR (text_field event ''kind'' line) (\<lambda>kind.
           if kind = ''outcome'' then observe_outcome s ident event line else Ok (plain_observation (rc_observations s)))))))"

definition observe_result :: "('m, 'a) runtime_contract \<Rightarrow> jvalue \<Rightarrow> nat \<Rightarrow> observation contract_result" where
  "observe_result s v line =
     (if ob_num_turns (rc_observations s) \<noteq> None then Err (unaccounted ''repeated root terminal'' line)
      else
        bindR (field v ''num_turns'' line) (\<lambda>turns.
        bindR (unsigned turns ''reported turns'' SAFE_INTEGER) (\<lambda>n.
          Ok (plain_observation ((rc_observations s)\<lparr>ob_num_turns := Some n\<rparr>)))))"

definition observe_record :: "('m, 'a) runtime_contract \<Rightarrow> jvalue \<Rightarrow> string option \<Rightarrow> nat \<Rightarrow> observation contract_result" where
  "observe_record s v scope line =
     bindR (text_field v ''type'' line) (\<lambda>type.
       if type = ''system'' \<and> Option.bind (jget v ''subtype'') as_str = Some ''stream_start'' then observe_stream_start s v line
       else if type = ''model_request'' then observe_request s v line
       else if type = ''model_utility_request'' then observe_utility_request s v line
       else if type = ''model_response'' then observe_response s v line
       else if type = ''result'' \<and> scope = None then observe_result s v line
       else Ok (plain_observation (rc_observations s)))"

definition record_observation :: "('m, 'a) runtime_contract \<Rightarrow> string option \<Rightarrow> observation \<Rightarrow> ('m, 'a) runtime_contract" where
  "record_observation s scope obs =
     s\<lparr>rc_observations := on_observations obs,
       rc_observed_journal := (case on_journal obs of Some j \<Rightarrow> Some j | None \<Rightarrow> rc_observed_journal s),
       rc_observed_requests :=
         (let requests = (case on_request obs of Some i \<Rightarrow> (rc_observed_requests s)(i \<mapsto> False) | None \<Rightarrow> rc_observed_requests s)
          in case on_outcome obs of Some i \<Rightarrow> requests(i \<mapsto> True) | None \<Rightarrow> requests),
       rc_observed_utility_requests :=
         (case on_utility_request obs of Some i \<Rightarrow> Set.insert i (rc_observed_utility_requests s) | None \<Rightarrow> rc_observed_utility_requests s),
       rc_observed_scopes := (case scope of Some i \<Rightarrow> Set.insert i (rc_observed_scopes s) | None \<Rightarrow> rc_observed_scopes s)\<rparr>"

definition runtime_observe :: "('m, 'a) runtime_contract \<Rightarrow> jvalue \<Rightarrow> nat \<Rightarrow> ('m, 'a) runtime_contract contract_result" where
  "runtime_observe s v line =
     bindR (required_scope v line) (\<lambda>scope.
     bindR (observe_record s v scope line) (\<lambda>obs.
     bindR (if (case scope of Some i \<Rightarrow> i \<notin> rc_observed_scopes s | None \<Rightarrow> False)
            then map_ok (\<lambda>n. obs\<lparr>on_observations := (on_observations obs)\<lparr>ob_subagent_scope_count := n\<rparr>\<rparr>)
                   (add_count (ob_subagent_scope_count (on_observations obs)) 1 ''observed scope count'')
            else Ok obs) (\<lambda>obs.
       Ok (record_observation s scope obs))))"

end
