(* ===== verification/Runtime_Plan.thy ===== *)
theory Runtime_Plan
  imports Runtime_Contract
begin

text \<open>
  \<^verbatim>\<open>RuntimeContract::plan\<close> of \<^verbatim>\<open>protocol/engine/src/runtime.rs\<close>: what one decoded record would change, worked out without
  changing anything. The operations of \<^verbatim>\<open>ModelRequests\<close> that it and the commit call are one argument, the record
  \<open>model_requests\<close>; the digest and the quotation of a JSON string are arguments as elsewhere.
\<close>

section \<open>The requests a plan relies on\<close>

datatype disposition = Accepted | RefusedTurn | Abandoned

record ('m, 'a) model_requests =
  mr_plan :: "'m \<Rightarrow> jvalue \<Rightarrow> nat \<Rightarrow> limits \<Rightarrow> string \<Rightarrow> 'a contract_result"
  mr_attempt :: "'a \<Rightarrow> string option"
  mr_scope :: "'a \<Rightarrow> string"
  mr_plan_utility_request :: "'m \<Rightarrow> jvalue \<Rightarrow> nat \<Rightarrow> limits \<Rightarrow> 'a contract_result"
  mr_plan_utility_completion :: "'m \<Rightarrow> jvalue \<Rightarrow> nat \<Rightarrow> 'a contract_result"
  mr_plan_response :: "'m \<Rightarrow> jvalue \<Rightarrow> nat \<Rightarrow> 'a contract_result"
  mr_plan_seed :: "'m \<Rightarrow> jvalue \<Rightarrow> nat \<Rightarrow> 'a contract_result"
  mr_plan_generation :: "'m \<Rightarrow> jvalue \<Rightarrow> nat \<Rightarrow> limits \<Rightarrow> nat \<Rightarrow> ('a \<times> generation) contract_result"
  mr_plan_completion :: "'m \<Rightarrow> jvalue \<Rightarrow> nat \<Rightarrow> ('a \<times> generation \<times> disposition) contract_result"
  mr_has_chat_attempt_in_scope :: "'m \<Rightarrow> string \<Rightarrow> bool"
  mr_validate_compaction :: "'m \<Rightarrow> jvalue \<Rightarrow> nat \<Rightarrow> string option \<Rightarrow> limits \<Rightarrow> string \<Rightarrow> ('a list \<times> string option) contract_result"
  mr_validate_summary :: "'m \<Rightarrow> jvalue \<Rightarrow> nat \<Rightarrow> unit contract_result"
  mr_plan_origin :: "'m \<Rightarrow> jvalue \<Rightarrow> nat \<Rightarrow> 'a contract_result"
  mr_commit_origin :: "'m \<Rightarrow> 'a \<Rightarrow> 'm contract_result"
  mr_commit_response :: "'m \<Rightarrow> 'a \<Rightarrow> 'm contract_result"
  mr_commit_utility_completion :: "'m \<Rightarrow> 'a \<Rightarrow> 'm contract_result"
  mr_commit_seed :: "'m \<Rightarrow> 'a \<Rightarrow> 'm contract_result"
  mr_commit_generation :: "'m \<Rightarrow> 'a \<Rightarrow> 'm contract_result"
  mr_commit_completion :: "'m \<Rightarrow> 'a \<Rightarrow> 'm contract_result"
  mr_commit_compaction_claims :: "'m \<Rightarrow> 'a list \<Rightarrow> 'm contract_result"
  mr_commit_compaction :: "'m \<Rightarrow> string \<times> string \<Rightarrow> 'm contract_result"
  mr_commit :: "'m \<Rightarrow> 'a \<Rightarrow> 'm contract_result"
  mr_commit_utility_request :: "'m \<Rightarrow> 'a \<Rightarrow> 'm contract_result"
  mr_all_usage :: "'m \<Rightarrow> usage_summary"
  mr_usage_scopes :: "'m \<Rightarrow> (string \<times> usage_summary) list"

section \<open>Scopes\<close>

definition scope_value :: "string option \<Rightarrow> string list" where
  "scope_value scope = (case scope of None \<Rightarrow> [] | Some i \<Rightarrow> [i])"

definition row_open :: "('m, 'a) runtime_contract \<Rightarrow> nat \<Rightarrow> string \<Rightarrow> unit contract_result" where
  "row_open s line i =
     (case rc_scope_rows s i of
        None \<Rightarrow> Ok ()
      | Some row \<Rightarrow>
          bindR (ok_or (get_at (rc_scope_states s) row) ContractPanic) (\<lambda>state.
            if sc_terminal state \<noteq> None then Err (runtime_refusal ''continues a scope after its terminal result'' line [i]) else Ok ()))"

text \<open>The walk up the scopes. A chain that never ends would keep the code in its loop; here it would use up the fuel.\<close>

fun ancestry_loop :: "nat \<Rightarrow> ('m, 'a) runtime_contract \<Rightarrow> nat \<Rightarrow> string option \<Rightarrow> unit contract_result" where
  "ancestry_loop fuel s line None = Ok ()"
| "ancestry_loop 0 s line (Some i) = Err ContractPanic"
| "ancestry_loop (Suc fuel) s line (Some i) =
     bindR (ok_or (btree_get (rc_tool_uses s) i)
              (runtime_refusal ''names a parent_tool_use_id no accepted generation issued'' line [i])) (\<lambda>tool.
       if tu_returned tool then Err (runtime_refusal ''continues child of returned tool'' line [i])
       else bindR (row_open s line i) (\<lambda>_. ancestry_loop fuel s line (tu_scope tool)))"

definition ensure_ancestry :: "('m, 'a) runtime_contract \<Rightarrow> string option \<Rightarrow> nat \<Rightarrow> unit contract_result" where
  "ensure_ancestry s scope line = ancestry_loop (Suc (length (rc_tool_uses s))) s line scope"

definition conversation_generation :: "('m, 'a) runtime_contract \<Rightarrow> generation \<Rightarrow> string option \<Rightarrow> bool contract_result" where
  "conversation_generation s g scope =
     (let refuse = Err (Fault (InvalidRecord (Detail ''generation output scope contradicts its envelope or request owner''))) in
      case gn_output_scope g of
        Internal \<Rightarrow> if scope = None then Ok False else refuse
      | Conversation parent \<Rightarrow>
          if parent = scope \<and> Some (og_scope (gn_origin g)) = (case scope of Some i \<Rightarrow> Some i | None \<Rightarrow> rc_session_id s)
          then Ok True else refuse)"

definition require_tool_owner :: "('m, 'a) runtime_contract \<Rightarrow> string \<Rightarrow> string option \<Rightarrow> nat \<Rightarrow> unit contract_result" where
  "require_tool_owner s i scope line =
     bindR (ok_or (btree_get (rc_tool_uses s) i) (runtime_refusal ''names tool before issuance'' line [i])) (\<lambda>tool.
       if tu_scope tool \<noteq> scope \<or> tu_returned tool
       then Err (runtime_refusal ''names wrong-owner or already returned tool'' line [i])
       else Ok ())"

section \<open>The messages a settled turn owes\<close>

abbreviation shown_refusal :: "string \<Rightarrow> nat \<Rightarrow> 'a contract_result" where
  "shown_refusal what line \<equiv> Err (runtime_refusal (''shows a settled turn with '' @ what @ '' its generation does not have'') line [])"

definition shown_count :: "jvalue \<Rightarrow> nat \<Rightarrow> unit \<Rightarrow> string \<times> u64 \<Rightarrow> unit contract_result" where
  "shown_count usage line _ = (\<lambda>(key, n).
     bindR (field usage key line) (\<lambda>v.
     bindR (unsigned v key SAFE_INTEGER) (\<lambda>m.
       if m \<noteq> n then shown_refusal ''usage'' line else Ok ())))"

definition shown_usage :: "jvalue \<Rightarrow> served_usage option \<Rightarrow> nat \<Rightarrow> unit contract_result" where
  "shown_usage usage expected line =
     (case expected of
        None \<Rightarrow> if is_null usage then Ok () else shown_refusal ''usage'' line
      | Some served \<Rightarrow>
          if is_null usage then shown_refusal ''usage'' line
          else foldR (shown_count usage line) ()
                 [(''input_tokens'', su_prompt served), (''output_tokens'', su_output served),
                  (''cache_read_input_tokens'', su_cached served), (''reasoning_output_tokens'', su_thoughts served),
                  (''total_tokens'', su_total served)])"

definition require_shown_message :: "('m, 'a) runtime_contract \<Rightarrow> jvalue \<Rightarrow> display_message \<Rightarrow> string \<Rightarrow> nat \<Rightarrow> unit contract_result" where
  "require_shown_message s v expected model line =
     bindR (field v ''message'' line) (\<lambda>message.
     bindR (text_field message ''model'' line) (\<lambda>named.
       if named \<noteq> model then shown_refusal ''a model'' line
       else
         bindR (field message ''stop_reason'' line) (\<lambda>stop.
           if \<not> (if dm_tool_use_only expected then as_str stop = Some ''tool_use'' else is_null stop)
           then shown_refusal ''a stop reason'' line
           else
             bindR (map_err (\<lambda>cause. decode_failure cause line) (document_decode (dm_content_json expected) (rc_json_limits s))) (\<lambda>shown.
             bindR (field message ''content'' line) (\<lambda>content.
               if \<not> value_eq content (document_tree shown) then shown_refusal ''content'' line
               else bindR (field message ''usage'' line) (\<lambda>usage. shown_usage usage (dm_usage expected) line))))))"

text \<open>The display still owed once the record has paid its part, and whether it paid any.\<close>

definition owed_message :: "('m, 'a) runtime_contract \<Rightarrow> decoded_record \<Rightarrow> string option \<Rightarrow> nat \<Rightarrow> (owed_display option \<times> bool) contract_result" where
  "owed_message s r scope line =
     (case rc_owed s of
        None \<Rightarrow> Ok (None, False)
      | Some pending \<Rightarrow>
          if dr_kind r \<noteq> EvAssistant \<or> scope \<noteq> od_scope pending
          then Err (runtime_refusal ''precedes the assistant messages its settled turn shows'' line (scope_value (od_scope pending)))
          else
            (case od_messages pending of
               [] \<Rightarrow> Err ContractPanic
             | expected # messages \<Rightarrow>
                 bindR (require_shown_message s (dr_value r) expected (od_model pending) line) (\<lambda>_.
                   Ok (if messages = [] then None else Some (pending\<lparr>od_messages := messages\<rparr>), True))))"

section \<open>Model work\<close>

text \<open>The scope a chat request renders for: the root for the session's own scope, a subagent for the call that spawned it.\<close>

definition display_scope :: "('m, 'a) runtime_contract \<Rightarrow> string \<Rightarrow> string option option" where
  "display_scope s kv_scope =
     (if Some kv_scope = rc_session_id s then Some None
      else if btree_get (rc_tool_uses s) kv_scope \<noteq> None then Some (Some kv_scope)
      else None)"

definition chat_origin :: "('m, 'a) runtime_contract \<Rightarrow> string option \<Rightarrow> string \<Rightarrow> string \<Rightarrow> nat \<Rightarrow> 'a admission_plan \<Rightarrow> 'a admission_plan contract_result" where
  "chat_origin s scope attempt kv_scope line p =
     (if kv_scope \<in> rc_failed_compaction_scopes s
      then Err (runtime_refusal ''issues a chat request in a scope after its compaction failed'' line [kv_scope])
      else
        (case display_scope s kv_scope of
           None \<Rightarrow> Ok p
         | Some shown_in \<Rightarrow>
             if shown_in = scope \<and> sc_runtime_text (ap_state p) \<noteq> None
             then Err (runtime_refusal ''dispatches a chat attempt after runtime assistant output in the same scope'' line [])
             else
               (case find (\<lambda>(_, tool). tu_scope tool = shown_in \<and> \<not> tu_returned tool) (rc_tool_uses s) of
                  Some (i, _) \<Rightarrow> Err (runtime_refusal ''sends the next request before the tool for a call returned'' line [i])
                | None \<Rightarrow> Ok (p\<lparr>ap_partial_origin := Some (shown_in, Model \<lparr>og_attempt = attempt, og_scope = kv_scope\<rparr>)\<rparr>))))"

definition plan_model_request ::
  "('m, 'a) model_requests \<Rightarrow> ('m, 'a) runtime_contract \<Rightarrow> string option \<Rightarrow> jvalue \<Rightarrow> nat \<Rightarrow> 'a admission_plan \<Rightarrow> 'a admission_plan contract_result" where
  "plan_model_request ops s scope v line p =
     (if \<not> rc_runtime_initialized s then Err (runtime_refusal ''dispatches model work without the pinned runtime init'' line [])
      else
        bindR (mr_plan ops (rc_requests s) v line (rc_json_limits s) (rc_operator s)) (\<lambda>admission.
        bindR (case mr_attempt ops admission of
                 Some attempt \<Rightarrow> chat_origin s scope attempt (mr_scope ops admission) line p
               | None \<Rightarrow> Ok p) (\<lambda>p.
          Ok (p\<lparr>ap_request := Some admission\<rparr>))))"

definition plan_utility ::
  "('m, 'a) model_requests \<Rightarrow> ('m, 'a) runtime_contract \<Rightarrow> jvalue \<Rightarrow> nat \<Rightarrow> 'a admission_plan \<Rightarrow> 'a admission_plan contract_result" where
  "plan_utility ops s v line p =
     (if \<not> rc_runtime_initialized s then Err (runtime_refusal ''dispatches utility work without runtime init'' line [])
      else
        bindR (mr_plan_utility_request ops (rc_requests s) v line (rc_json_limits s)) (\<lambda>admission.
          Ok (p\<lparr>ap_utility_request := Some admission\<rparr>)))"

definition plan_generation_record ::
  "(string \<Rightarrow> string) \<Rightarrow> ('m, 'a) model_requests \<Rightarrow> ('m, 'a) runtime_contract \<Rightarrow> string option \<Rightarrow> jvalue \<Rightarrow> nat
    \<Rightarrow> 'a admission_plan \<Rightarrow> 'a admission_plan contract_result" where
  "plan_generation_record digest ops s scope v line p =
     bindR (mr_plan_generation ops (rc_requests s) v line (rc_json_limits s) (rc_operations s)) (\<lambda>(admission, g).
     bindR (conversation_generation s g scope) (\<lambda>conversation.
     bindR (if conversation
            then map_ok (\<lambda>partial. p\<lparr>ap_state := (ap_state p)\<lparr>sc_partial := partial\<rparr>\<rparr>)
                   (observe_generation digest (sc_partial (ap_state p)) g)
            else Ok p) (\<lambda>p.
       Ok (p\<lparr>ap_generation := Some admission\<rparr>))))"

definition issue_call :: "('m, 'a) runtime_contract \<Rightarrow> string option \<Rightarrow> nat \<Rightarrow> (string, tool_use) btree \<Rightarrow> call \<Rightarrow> (string, tool_use) btree contract_result" where
  "issue_call s scope line additions call =
     (if btree_get (rc_tool_uses s) (cl_id call) \<noteq> None \<or> btree_get additions (cl_id call) \<noteq> None
      then Err (runtime_refusal ''re-issues tool_use id'' line [cl_id call])
      else
        bindR (ok_or (cl_name call) ContractPanic) (\<lambda>name.
          Ok (btree_insert (cl_id call)
                \<lparr>tu_name = name, tu_structured_input = (if name = ''structured_output'' then Some (cl_arguments call) else None),
                 tu_line = line, tu_scope = scope, tu_returned = False\<rparr> additions)))"

definition owe_turn ::
  "(string \<Rightarrow> string) \<Rightarrow> string option \<Rightarrow> generation \<Rightarrow> disposition \<Rightarrow> 'a admission_plan \<Rightarrow> 'a admission_plan contract_result" where
  "owe_turn quote scope g disposition p =
     (if disposition \<noteq> Abandoned
      then map_ok (\<lambda>messages. p\<lparr>ap_owed := Some \<lparr>od_scope = scope, od_model = gn_model g, od_messages = messages\<rparr>\<rparr>)
             (display quote g (disposition = RefusedTurn))
      else Ok p)"

definition show_model_text :: "string option \<Rightarrow> generation \<Rightarrow> scope_state \<Rightarrow> scope_state" where
  "show_model_text scope g state =
     (if scope = None then state\<lparr>sc_model_text := Some (gn_display_text g), sc_runtime_text := None\<rparr> else state)"

definition accept_turn ::
  "('m, 'a) runtime_contract \<Rightarrow> string option \<Rightarrow> nat \<Rightarrow> generation \<Rightarrow> 'a admission_plan \<Rightarrow> 'a admission_plan contract_result" where
  "accept_turn s scope line g p =
     map_ok (\<lambda>additions. p\<lparr>ap_additions := additions, ap_state := show_model_text scope g (ap_state p)\<rparr>)
       (foldR (issue_call s scope line) (ap_additions p) (gn_calls g))"

definition settle_turn ::
  "(string \<Rightarrow> string) \<Rightarrow> ('m, 'a) runtime_contract \<Rightarrow> string option \<Rightarrow> nat \<Rightarrow> generation \<Rightarrow> disposition
    \<Rightarrow> 'a admission_plan \<Rightarrow> 'a admission_plan contract_result" where
  "settle_turn quote s scope line g disposition p =
     bindR (observe_completion (sc_partial (ap_state p)) (gn_origin g) (disposition = Accepted)) (\<lambda>partial.
     bindR (owe_turn quote scope g disposition (p\<lparr>ap_state := (ap_state p)\<lparr>sc_partial := partial\<rparr>\<rparr>)) (\<lambda>p.
       if disposition = Accepted then accept_turn s scope line g p else Ok p))"

definition plan_completion_record ::
  "(string \<Rightarrow> string) \<Rightarrow> ('m, 'a) model_requests \<Rightarrow> ('m, 'a) runtime_contract \<Rightarrow> string option \<Rightarrow> jvalue \<Rightarrow> nat
    \<Rightarrow> 'a admission_plan \<Rightarrow> 'a admission_plan contract_result" where
  "plan_completion_record quote ops s scope v line p =
     bindR (mr_plan_completion ops (rc_requests s) v line) (\<lambda>(admission, g, disposition).
     bindR (conversation_generation s g scope) (\<lambda>conversation.
     bindR (if conversation then settle_turn quote s scope line g disposition p else Ok p) (\<lambda>p.
       Ok (p\<lparr>ap_completion := Some admission\<rparr>))))"

section \<open>Output of the runtime and results of tools\<close>

definition render_block :: "nat \<Rightarrow> string \<Rightarrow> jvalue \<Rightarrow> string contract_result" where
  "render_block line rendered block =
     bindR (text_field block ''type'' line) (\<lambda>type.
       if type \<noteq> ''text'' then Err (runtime_refusal ''claims non-text runtime assistant output'' line [])
       else bindR (text_field block ''text'' line) (\<lambda>t. Ok (rendered @ t)))"

definition settle_operation ::
  "(string \<Rightarrow> string) \<Rightarrow> string option \<Rightarrow> nat \<Rightarrow> string \<Rightarrow> scope_state \<Rightarrow> scope_state contract_result" where
  "settle_operation digest scope line rendered state =
     bindR (ok_or (sc_runtime_operation state)
              (runtime_refusal ''has runtime assistant output without a local operation receipt'' line [])) (\<lambda>receipt.
       if of_nat (length rendered) \<noteq> ro_output_bytes receipt \<or> digest rendered \<noteq> ro_output_sha256 receipt
       then Err (runtime_refusal ''changes the output of local operation'' line [ro_id receipt])
       else
         bindR (complete_message digest (sc_partial state) rendered) (\<lambda>partial.
           Ok (state\<lparr>sc_runtime_operation := None, sc_completed_runtime_operation := Some (ro_id receipt), sc_partial := partial,
                 sc_runtime_text := Some rendered, sc_model_text := (if scope = None then None else sc_model_text state)\<rparr>)))"

definition plan_runtime_output ::
  "(string \<Rightarrow> string) \<Rightarrow> ('m, 'a) model_requests \<Rightarrow> ('m, 'a) runtime_contract \<Rightarrow> string option \<Rightarrow> jvalue \<Rightarrow> nat
    \<Rightarrow> 'a admission_plan \<Rightarrow> 'a admission_plan contract_result" where
  "plan_runtime_output digest ops s scope v line p =
     bindR (text_field v ''session_id'' line) (\<lambda>session.
       if mr_has_chat_attempt_in_scope ops (rc_requests s) (case scope of Some i \<Rightarrow> i | None \<Rightarrow> session)
       then Err (runtime_refusal ''claims runtime assistant output after a chat attempt in the same scope'' line [])
       else
         bindR (field v ''message'' line) (\<lambda>message.
         bindR (field message ''stop_reason'' line) (\<lambda>stop.
         bindR (if is_null stop then map_ok is_null (field message ''usage'' line) else Ok False) (\<lambda>plain.
           if \<not> plain then Err (runtime_refusal ''claims model stop or usage on runtime assistant output'' line [])
           else
             bindR (field message ''content'' line) (\<lambda>content.
             bindR (ok_or (elements content) (runtime_refusal ''has no runtime assistant content'' line [])) (\<lambda>blocks.
             bindR (foldR (render_block line) [] blocks) (\<lambda>rendered.
             bindR (settle_operation digest scope line rendered (ap_state p)) (\<lambda>state.
               Ok (p\<lparr>ap_state := state\<rparr>)))))))))"

definition take_structured :: "tool_use \<Rightarrow> 'a admission_plan \<Rightarrow> 'a admission_plan" where
  "take_structured tool p =
     (if tu_name tool = ''structured_output'' \<and> sc_structured_input (ap_state p) = None
      then p\<lparr>ap_state := (ap_state p)\<lparr>sc_structured_input := tu_structured_input tool\<rparr>\<rparr>
      else p)"

definition tool_result ::
  "('m, 'a) runtime_contract \<Rightarrow> string option \<Rightarrow> nat \<Rightarrow> 'a admission_plan \<Rightarrow> jvalue \<Rightarrow> 'a admission_plan contract_result" where
  "tool_result s scope line p block =
     bindR (text_field block ''tool_use_id'' line) (\<lambda>i.
     bindR (require_tool_owner s i scope line) (\<lambda>_.
     bindR (if Option.bind (jget block ''is_error'') as_bool = Some False
            then map_ok (\<lambda>tool. take_structured tool p) (ok_or (btree_get (rc_tool_uses s) i) ContractPanic)
            else Ok p) (\<lambda>p.
       if i \<in> ap_returns p then Err (runtime_refusal ''repeats tool result'' line [i])
       else Ok (p\<lparr>ap_returns := Set.insert i (ap_returns p)\<rparr>))))"

definition plan_user ::
  "('m, 'a) runtime_contract \<Rightarrow> string option \<Rightarrow> jvalue \<Rightarrow> nat \<Rightarrow> 'a admission_plan \<Rightarrow> 'a admission_plan contract_result" where
  "plan_user s scope v line p =
     bindR (field v ''message'' line) (\<lambda>message.
     bindR (field message ''content'' line) (\<lambda>content.
     bindR (ok_or (elements content) (runtime_refusal ''has user content that is not an array'' line [])) (\<lambda>blocks.
       foldR (tool_result s scope line) p blocks)))"

definition plan_stream_event ::
  "('m, 'a) runtime_contract \<Rightarrow> string option \<Rightarrow> decoded_record \<Rightarrow> nat \<Rightarrow> 'a admission_plan \<Rightarrow> 'a admission_plan contract_result" where
  "plan_stream_event s scope r line p =
     bindR (case rc_partial_origins s scope of
              Some origin \<Rightarrow> set_origin (sc_partial (ap_state p)) origin
            | None \<Rightarrow> Ok (sc_partial (ap_state p))) (\<lambda>partial.
     bindR (ok_or (decoded_record_partial r) ContractPanic) (\<lambda>event.
     bindR (observe partial event (scope = None) line) (\<lambda>partial.
     bindR (field (dr_value r) ''event'' line) (\<lambda>event.
     bindR (text_field event ''type'' line) (\<lambda>type.
     bindR (if type = ''tool_progress''
            then bindR (text_field event ''tool_use_id'' line) (\<lambda>i. require_tool_owner s i scope line)
            else Ok ()) (\<lambda>_.
       Ok (p\<lparr>ap_state := (ap_state p)\<lparr>sc_partial := partial,
               sc_completed_runtime_operation :=
                 (if type = ''message_stop'' then None else sc_completed_runtime_operation (ap_state p))\<rparr>\<rparr>)))))))"

section \<open>System records\<close>

text \<open>The enumeration generated from the discriminators of the system records.\<close>

datatype system_kind =
    SkStreamStart | SkInit | SkRuntimeOperation | SkCompaction | SkTaskStarted | SkTaskNotification | SkTurnCleanupFailed
  | SkSessionRecordingDegraded | SkWorktreeStarted | SkWorktreeRestored | SkVisionRouting | SkVisionBridge
  | SkVisionBridgeFailed | SkSessionStart | SkSessionEnd

definition system_kind_from_wire :: "string \<Rightarrow> system_kind option" where
  "system_kind_from_wire name =
     map_of [(''stream_start'', SkStreamStart), (''init'', SkInit), (''runtime_operation'', SkRuntimeOperation),
       (''compaction'', SkCompaction), (''task_started'', SkTaskStarted), (''task_notification'', SkTaskNotification),
       (''turn_cleanup_failed'', SkTurnCleanupFailed), (''session_recording_degraded'', SkSessionRecordingDegraded),
       (''worktree_started'', SkWorktreeStarted), (''worktree_restored'', SkWorktreeRestored),
       (''vision_routing'', SkVisionRouting), (''vision_bridge'', SkVisionBridge),
       (''vision_bridge_failed'', SkVisionBridgeFailed), (''session_start'', SkSessionStart), (''session_end'', SkSessionEnd)] name"

definition compaction_plan :: "string \<Rightarrow> 'a admission_plan \<Rightarrow> 'a list \<times> string option \<Rightarrow> 'a admission_plan" where
  "compaction_plan kv_scope p = (\<lambda>(claims, committed).
     p\<lparr>ap_compaction_claims := claims,
       ap_compaction_failed := (if committed = None then Some kv_scope else ap_compaction_failed p),
       ap_compaction_commit := map_option (\<lambda>draw. (kv_scope, draw)) committed\<rparr>)"

definition plan_compaction ::
  "('m, 'a) model_requests \<Rightarrow> ('m, 'a) runtime_contract \<Rightarrow> string option \<Rightarrow> jvalue \<Rightarrow> nat \<Rightarrow> 'a admission_plan \<Rightarrow> 'a admission_plan contract_result" where
  "plan_compaction ops s scope v line p =
     bindR (ok_or (case scope of Some i \<Rightarrow> Some i | None \<Rightarrow> rc_session_id s)
              (runtime_refusal ''has no compaction request scope'' line [])) (\<lambda>kv_scope.
       if kv_scope \<in> rc_failed_compaction_scopes s
       then Err (runtime_refusal ''records a compaction after its compaction failed'' line (scope_value scope))
       else map_ok (compaction_plan kv_scope p)
              (mr_validate_compaction ops (rc_requests s) v line scope (rc_json_limits s) kv_scope))"

definition plan_operation ::
  "('m, 'a) runtime_contract \<Rightarrow> string option \<Rightarrow> jvalue \<Rightarrow> nat \<Rightarrow> 'a admission_plan \<Rightarrow> 'a admission_plan contract_result" where
  "plan_operation s scope v line p =
     bindR (field v ''data'' line) (\<lambda>data.
     bindR (text_field data ''operation_id'' line) (\<lambda>i.
       if sc_runtime_operation (ap_state p) \<noteq> None \<or> i \<in> rc_runtime_operation_ids s
       then Err (runtime_refusal ''repeats or leaves open a local operation receipt'' line [])
       else
         bindR (field data ''output_bytes'' line) (\<lambda>bytes.
         bindR (unsigned bytes ''local output bytes'' SAFE_INTEGER) (\<lambda>output_bytes.
         bindR (text_field data ''output_sha256'' line) (\<lambda>output_sha256.
         bindR (set_origin (sc_partial (ap_state p)) Runtime) (\<lambda>partial.
           Ok (p\<lparr>ap_state := (ap_state p)\<lparr>sc_runtime_operation :=
                     Some \<lparr>ro_id = i, ro_output_sha256 = output_sha256, ro_output_bytes = output_bytes\<rparr>,
                   sc_completed_runtime_operation := None, sc_partial := partial\<rparr>,
                 ap_runtime_operation_id := Some i, ap_partial_origin := Some (scope, Runtime)\<rparr>)))))))"

definition plan_system ::
  "('m, 'a) model_requests \<Rightarrow> ('m, 'a) runtime_contract \<Rightarrow> string option \<Rightarrow> jvalue \<Rightarrow> nat \<Rightarrow> 'a admission_plan \<Rightarrow> 'a admission_plan contract_result" where
  "plan_system ops s scope v line p =
     bindR (text_field v ''subtype'' line) (\<lambda>name.
     bindR (ok_or (system_kind_from_wire name) ContractPanic) (\<lambda>kind.
       case kind of
         SkStreamStart \<Rightarrow> if rc_prefix s = 0 then Ok p else Err (runtime_refusal ''starts another invocation'' line [])
       | SkInit \<Rightarrow> bindR (validate_init (rc_manifest s) v line) (\<lambda>_. Ok (p\<lparr>ap_runtime_initialized := True\<rparr>))
       | SkCompaction \<Rightarrow> plan_compaction ops s scope v line p
       | SkRuntimeOperation \<Rightarrow> plan_operation s scope v line p
       | SkSessionRecordingDegraded \<Rightarrow>
           bindR (field v ''data'' line) (\<lambda>data.
           bindR (text_field data ''reason'' line) (\<lambda>reason.
           bindR (text_field data ''message'' line) (\<lambda>message.
             Err (runtime_refusal ''reports operational failure'' line [name, reason, message]))))
       | SkTurnCleanupFailed \<Rightarrow> bindR (field v ''data'' line) (\<lambda>_. Err (runtime_refusal ''reports operational failure'' line [name]))
       | SkVisionBridgeFailed \<Rightarrow> bindR (field v ''data'' line) (\<lambda>_. Err (runtime_refusal ''reports operational failure'' line [name]))
       | SkSessionStart \<Rightarrow> Err (runtime_refusal ''declares transport ownership inside an already owned invocation'' line [])
       | SkSessionEnd \<Rightarrow> Err (runtime_refusal ''declares transport ownership inside an already owned invocation'' line [])
       | SkTaskNotification \<Rightarrow>
           bindR (field v ''data'' line) (\<lambda>data.
             (case jget data ''usage'' of
                None \<Rightarrow> Ok p
              | Some usage \<Rightarrow>
                  bindR (field usage ''ownerUsage'' line) (\<lambda>owned. bindR (usage_summary_read owned line) (\<lambda>_. Ok p))))
       | _ \<Rightarrow> Ok p))"

section \<open>The result of a scope\<close>

definition structured_agrees ::
  "('m, 'a) runtime_contract \<Rightarrow> string option \<Rightarrow> nat \<Rightarrow> scope_state \<Rightarrow> terminal \<Rightarrow> jvalue option \<Rightarrow> unit contract_result" where
  "structured_agrees s scope line state ending structured =
     (case structured of
        Some structured \<Rightarrow>
          if scope \<noteq> None \<or> tm_is_error ending
          then Err (runtime_refusal ''claims structured output outside a successful root result'' line [])
          else
            bindR (ok_or (sc_structured_input state)
                     (runtime_refusal ''has no successful accepted structured_output submission'' line [])) (\<lambda>input.
            bindR (map_err (\<lambda>cause. decode_failure cause line) (document_decode input (rc_json_limits s))) (\<lambda>submitted.
            bindR (ok_or (tm_response ending) ContractPanic) (\<lambda>response.
            bindR (map_err (\<lambda>cause. decode_failure cause line) (document_decode response (rc_json_limits s))) (\<lambda>rendered.
              if \<not> value_eq structured (document_tree submitted) \<or> \<not> value_eq structured (document_tree rendered)
              then Err (runtime_refusal ''structured result contradicts the accepted tool submission or result text'' line [])
              else Ok ()))))
      | None \<Rightarrow>
          if scope = None \<and> \<not> tm_is_error ending \<and> sc_structured_input state \<noteq> None
          then Err (runtime_refusal ''omits the successful structured_output submission'' line [])
          else Ok ())"

definition contradicts :: "string option \<Rightarrow> terminal \<Rightarrow> bool" where
  "contradicts rendered ending = (case rendered of Some t \<Rightarrow> tm_response ending \<noteq> Some t | None \<Rightarrow> False)"

definition child_finished :: "unit \<Rightarrow> scope_state \<Rightarrow> unit contract_result" where
  "child_finished _ child = finish (sc_partial child)"

definition close_root ::
  "('m, 'a) model_requests \<Rightarrow> ('m, 'a) runtime_contract \<Rightarrow> jvalue \<Rightarrow> nat \<Rightarrow> bool \<Rightarrow> terminal \<Rightarrow> unit contract_result" where
  "close_root ops s v line initialized ending =
     (if \<not> initialized \<and> \<not> tm_is_error ending
      then Err (runtime_refusal ''reports success without the pinned runtime init'' line [])
      else
        bindR (foldR child_finished () (drop 1 (rc_scope_states s))) (\<lambda>_.
          mr_validate_summary ops (rc_requests s) v line))"

definition plan_result ::
  "compilation \<Rightarrow> string \<Rightarrow> ('m, 'a) model_requests \<Rightarrow> ('m, 'a) runtime_contract \<Rightarrow> string option \<Rightarrow> jvalue \<Rightarrow> nat
    \<Rightarrow> 'a admission_plan \<Rightarrow> 'a admission_plan contract_result" where
  "plan_result c missing_subtype ops s scope v line p =
     (if sc_runtime_operation (ap_state p) \<noteq> None
      then Err (runtime_refusal ''ends before the local operation's assistant output'' line [])
      else
        bindR (finish (sc_partial (ap_state p))) (\<lambda>_.
        bindR (read_terminal c missing_subtype v line (scope = None)) (\<lambda>ending.
        bindR (structured_agrees s scope line (ap_state p) ending (jget v ''structured_result'')) (\<lambda>_.
          if contradicts (sc_runtime_text (ap_state p)) ending
          then Err (runtime_refusal ''terminal result contradicts runtime assistant text'' line [])
          else if scope = None \<and> \<not> tm_is_error ending \<and> jget v ''structured_result'' = None
            \<and> contradicts (sc_model_text (ap_state p)) ending
          then Err (runtime_refusal ''successful result contradicts accepted model text'' line [])
          else
            bindR (if scope = None then close_root ops s v line (ap_runtime_initialized p) ending else Ok ()) (\<lambda>_.
              Ok (p\<lparr>ap_state := (ap_state p)\<lparr>sc_completed_runtime_operation := None, sc_terminal := Some ending\<rparr>\<rparr>))))))"

section \<open>The plan of a record\<close>

definition scope_row :: "('m, 'a) runtime_contract \<Rightarrow> string option \<Rightarrow> nat" where
  "scope_row s scope =
     (case scope of
        None \<Rightarrow> 0
      | Some i \<Rightarrow> (case rc_scope_rows s i of Some row \<Rightarrow> row | None \<Rightarrow> length (rc_scope_states s)))"

definition scope_entry :: "('m, 'a) runtime_contract \<Rightarrow> string option \<Rightarrow> scope_state" where
  "scope_entry s scope =
     (case get_at (rc_scope_states s) (scope_row s scope) of
        Some state \<Rightarrow> state
      | None \<Rightarrow> scope_state_default\<lparr>sc_id := scope\<rparr>)"

definition plan_base :: "('m, 'a) runtime_contract \<Rightarrow> string option \<Rightarrow> owed_display option \<Rightarrow> 'a admission_plan" where
  "plan_base s scope owed =
     \<lparr>ap_runtime_initialized = rc_runtime_initialized s, ap_request_origin = None, ap_request = None, ap_utility_request = None,
      ap_utility_completion = None, ap_response = None, ap_seed = None, ap_generation = None, ap_completion = None,
      ap_compaction_claims = [], ap_compaction_commit = None, ap_compaction_failed = None, ap_row = scope_row s scope,
      ap_state = scope_entry s scope, ap_additions = [], ap_returns = {}, ap_runtime_operation_id = None, ap_owed = owed,
      ap_partial_origin = None, ap_prefix = rc_prefix s\<rparr>"

definition plan_event ::
  "compilation \<Rightarrow> string \<Rightarrow> (string \<Rightarrow> string) \<Rightarrow> (string \<Rightarrow> string) \<Rightarrow> ('m, 'a) model_requests \<Rightarrow> ('m, 'a) runtime_contract
    \<Rightarrow> string option \<Rightarrow> decoded_record \<Rightarrow> nat \<Rightarrow> bool \<Rightarrow> 'a admission_plan \<Rightarrow> 'a admission_plan contract_result" where
  "plan_event c missing_subtype digest quote ops s scope r line shown_turn p =
     (let v = dr_value r; m = rc_requests s in
      case dr_kind r of
        EvModelRequest \<Rightarrow> plan_model_request ops s scope v line p
      | EvModelUtilityRequest \<Rightarrow> plan_utility ops s v line p
      | EvModelUtilityCompletion \<Rightarrow> map_ok (\<lambda>a. p\<lparr>ap_utility_completion := Some a\<rparr>) (mr_plan_utility_completion ops m v line)
      | EvModelResponse \<Rightarrow> map_ok (\<lambda>a. p\<lparr>ap_response := Some a\<rparr>) (mr_plan_response ops m v line)
      | EvModelNormalizationSeed \<Rightarrow> map_ok (\<lambda>a. p\<lparr>ap_seed := Some a\<rparr>) (mr_plan_seed ops m v line)
      | EvModelGeneration \<Rightarrow> plan_generation_record digest ops s scope v line p
      | EvModelAttemptCompletion \<Rightarrow> plan_completion_record quote ops s scope v line p
      | EvAssistant \<Rightarrow> if shown_turn then Ok p else plan_runtime_output digest ops s scope v line p
      | EvUser \<Rightarrow> plan_user s scope v line p
      | EvStreamEvent \<Rightarrow> plan_stream_event s scope r line p
      | EvSystem \<Rightarrow> plan_system ops s scope v line p
      | EvResult \<Rightarrow> plan_result c missing_subtype ops s scope v line p)"

definition plan_prefix ::
  "('m, 'a) model_requests \<Rightarrow> ('m, 'a) runtime_contract \<Rightarrow> jvalue \<Rightarrow> nat \<Rightarrow> 'a admission_plan \<Rightarrow> 'a admission_plan contract_result" where
  "plan_prefix ops s v line p =
     bindR (if rc_prefix s = 0
            then bindR (field v ''request_evidence_origin'' line) (\<lambda>origin.
                 map_ok Some (mr_plan_origin ops (rc_requests s) origin line))
            else Ok None) (\<lambda>origin.
     bindR (add_count (rc_prefix s) 1 ''certified prefix'') (\<lambda>prefix.
       Ok (p\<lparr>ap_request_origin := origin, ap_prefix := prefix\<rparr>)))"

definition runtime_plan ::
  "compilation \<Rightarrow> string \<Rightarrow> (string \<Rightarrow> string) \<Rightarrow> (string \<Rightarrow> string) \<Rightarrow> ('m, 'a) model_requests \<Rightarrow> ('m, 'a) runtime_contract
    \<Rightarrow> decoded_record \<Rightarrow> nat \<Rightarrow> 'a admission_plan contract_result" where
  "runtime_plan c missing_subtype digest quote ops s r line =
     bindR (ok_or (get_at (rc_scope_states s) 0) ContractPanic) (\<lambda>main.
       if sc_terminal main \<noteq> None then Err (runtime_refusal ''terminal result is followed by another event'' line [])
       else
         bindR (required_scope (dr_value r) line) (\<lambda>scope.
         bindR (ensure_ancestry s scope line) (\<lambda>_.
         bindR (owed_message s r scope line) (\<lambda>(owed, shown_turn).
         bindR (plan_event c missing_subtype digest quote ops s scope r line shown_turn (plan_base s scope owed)) (\<lambda>p.
           plan_prefix ops s (dr_value r) line p)))))"

end
