(* ===== verification/Runtime_Admission.thy ===== *)
theory Runtime_Admission
  imports Runtime_Plan
begin

text \<open>
  The operations of \<^verbatim>\<open>RuntimeContract\<close> in \<^verbatim>\<open>protocol/engine/src/runtime.rs\<close> that change its state: identification, observation
  and planning of a record, the capability that admits it, commit and rejection, and the final answer. An operation that can
  leave a changed state behind with an error returns both. A panic discards the state.

  The invariant \<open>runtime_ok\<close> holds of every state any sequence of calls reaches, with any tokens. From it: the commit of a
  planned record and the final answer never panic, the walk up the scopes ends, and a final answer certifies every record
  seen. A refusal is final.
\<close>

section \<open>Operations\<close>

text \<open>What a build of the engine fixes: the compiled contract and its identity, one subtype, the digest, quotation, and the requests.\<close>

record ('m, 'a) engine =
  en_contract :: compilation
  en_contract_sha256 :: string
  en_missing_subtype :: string
  en_digest :: "string \<Rightarrow> string"
  en_quote :: "string \<Rightarrow> string"
  en_requests :: "('m, 'a) model_requests"

definition latch :: "contract_error \<Rightarrow> ('m, 'a) runtime_contract \<Rightarrow> ('m, 'a) runtime_contract" where
  "latch e s = s\<lparr>rc_first_refusal := Some (case rc_first_refusal s of Some first \<Rightarrow> first | None \<Rightarrow> e)\<rparr>"

definition latched :: "contract_error \<Rightarrow> ('m, 'a) runtime_contract \<Rightarrow> 'b contract_result \<times> ('m, 'a) runtime_contract" where
  "latched e s = (Err (Fault (case rc_first_refusal s of Some first \<Rightarrow> first | None \<Rightarrow> e)), latch e s)"

text \<open>An error that is returned and latched, while the earlier refusal, if any, stays the one that is kept.\<close>

fun refused :: "contract_fault \<Rightarrow> ('m, 'a) runtime_contract \<Rightarrow> 'b contract_result \<times> ('m, 'a) runtime_contract" where
  "refused (Fault e) s = (Err (Fault e), latch e s)"
| "refused ContractPanic s = (Err ContractPanic, s)"

definition count_record :: "('m, 'a) runtime_contract \<Rightarrow> ('m, 'a) runtime_contract contract_result" where
  "count_record s = map_ok (\<lambda>n. s\<lparr>rc_records_seen := n\<rparr>) (add_count (rc_records_seen s) 1 ''event count'')"

definition count_unaccounted :: "('m, 'a) runtime_contract \<Rightarrow> ('m, 'a) runtime_contract contract_result" where
  "count_unaccounted s =
     map_ok (\<lambda>n. s\<lparr>rc_observations := (rc_observations s)\<lparr>ob_unaccounted_records := n\<rparr>\<rparr>)
       (add_count (ob_unaccounted_records (rc_observations s)) 1 ''unaccounted record count'')"

definition observe_gap :: "contract_error \<Rightarrow> ('m, 'a) runtime_contract \<Rightarrow> unit contract_result \<times> ('m, 'a) runtime_contract" where
  "observe_gap cause s =
     (case bindR (count_record s) count_unaccounted of
        Ok s \<Rightarrow> (Ok (), latch cause s)
      | Err fault \<Rightarrow> refused fault (latch cause s))"

definition same_session :: "('m, 'a) runtime_contract \<Rightarrow> string \<Rightarrow> nat \<Rightarrow> unit contract_result" where
  "same_session s session line =
     (case rc_session_id s of
        Some expected \<Rightarrow>
          if expected = session then Ok () else Err (runtime_refusal ''session_id changed'' line [expected, session])
      | None \<Rightarrow> Err (runtime_refusal ''has no validated initial session owner'' line []))"

definition identify :: "string \<Rightarrow> ('m, 'a) runtime_contract \<Rightarrow> jvalue \<Rightarrow> nat \<Rightarrow> unit contract_result \<times> ('m, 'a) runtime_contract" where
  "identify contract_sha256 s v line =
     (case bindR (text_field v ''uuid'' line) (\<lambda>uuid.
           bindR (text_field v ''session_id'' line) (\<lambda>session.
           bindR (if rc_records_seen s = 1 then validate_stream_start contract_sha256 v line else Ok ()) (\<lambda>_.
             Ok (uuid, session)))) of
        Err fault \<Rightarrow> (Err fault, s)
      | Ok (uuid, session) \<Rightarrow>
          (let s = (if rc_records_seen s = 1 then s\<lparr>rc_session_id := Some session\<rparr> else s) in
           (bindR (same_session s session line) (\<lambda>_.
              if uuid \<in> rc_seen_uuids s then Err (runtime_refusal ''repeats event uuid'' line [uuid]) else Ok ()),
            if same_session s session line = Ok () then s\<lparr>rc_seen_uuids := Set.insert uuid (rc_seen_uuids s)\<rparr> else s)))"

text \<open>The record is observed when it decodes; a record that does not, or that contradicts the totals, is counted unaccounted.\<close>

definition account :: "('m, 'a) runtime_contract \<Rightarrow> jvalue \<Rightarrow> nat \<Rightarrow> decoded_record contract_result \<Rightarrow> ('m, 'a) runtime_contract contract_result" where
  "account s v line decoded =
     (case bindR decoded (\<lambda>_. runtime_observe s v line) of
        Ok s \<Rightarrow> Ok s
      | Err ContractPanic \<Rightarrow> Err ContractPanic
      | Err (Fault _) \<Rightarrow> count_unaccounted s)"

definition engine_plan :: "('m, 'a) engine \<Rightarrow> ('m, 'a) runtime_contract \<Rightarrow> nat \<Rightarrow> decoded_record \<Rightarrow> 'a admission_plan contract_result" where
  "engine_plan env s line r =
     runtime_plan (en_contract env) (en_missing_subtype env) (en_digest env) (en_quote env) (en_requests env) s r line"

definition admit :: "('m, 'a) engine \<Rightarrow> ('m, 'a) runtime_contract \<Rightarrow> document \<Rightarrow> nat \<Rightarrow> decoded_record contract_result
    \<Rightarrow> admission_token contract_result \<times> ('m, 'a) runtime_contract" where
  "admit env s document line decoded =
     (case rc_first_refusal s of
        Some e \<Rightarrow> (Err (Fault e), s)
      | None \<Rightarrow>
          (case bindR decoded (engine_plan env s line) of
             Err fault \<Rightarrow> refused fault s
           | Ok plan \<Rightarrow>
               (Ok \<lparr>tk_owner = rc_identity s, tk_sequence = Some (rc_records_seen s)\<rparr>,
                s\<lparr>rc_pending := Some \<lparr>pa_sequence = rc_records_seen s, pa_document = document, pa_plan = plan\<rparr>\<rparr>)))"

abbreviation already_pending :: contract_error where
  "already_pending \<equiv> InvalidRecord (Detail ''admission is already pending reconciliation'')"

definition prepare :: "('m, 'a) engine \<Rightarrow> ('m, 'a) runtime_contract \<Rightarrow> document \<Rightarrow> nat
    \<Rightarrow> admission_token contract_result \<times> ('m, 'a) runtime_contract" where
  "prepare env s document line =
     (if rc_pending s \<noteq> None then latched already_pending s
      else
        (case count_record s of
           Err fault \<Rightarrow> (Err fault, s)
         | Ok s \<Rightarrow>
             (let v = document_tree document in
              case identify (en_contract_sha256 env) s v line of
                (Err fault, s) \<Rightarrow>
                  (case count_unaccounted s of
                     Err overflow \<Rightarrow> (Err overflow, s)
                   | Ok s \<Rightarrow> refused fault s)
              | (Ok _, s) \<Rightarrow>
                  (let decoded = decoded_record_decode (en_contract env) v (rc_operations s) line in
                   case account s v line decoded of
                     Err fault \<Rightarrow> (Err fault, s)
                   | Ok s \<Rightarrow> admit env s document line decoded))))"

definition relatch :: "'b contract_result \<times> ('m, 'a) runtime_contract \<Rightarrow> 'b contract_result \<times> ('m, 'a) runtime_contract" where
  "relatch = (\<lambda>(r, s). (r, case r of Err (Fault e) \<Rightarrow> latch e s | _ \<Rightarrow> s))"

definition prepare_utf8 :: "('m, 'a) engine \<Rightarrow> ('m, 'a) runtime_contract \<Rightarrow> string \<Rightarrow> nat
    \<Rightarrow> admission_token contract_result \<times> ('m, 'a) runtime_contract" where
  "prepare_utf8 env s bytes line =
     (if rc_pending s \<noteq> None then latched already_pending s
      else
        (case document_decode bytes (rc_json_limits s) of
           Ok document \<Rightarrow> relatch (prepare env s document line)
         | Err cause \<Rightarrow>
             (case decode_failure cause line of
                ContractPanic \<Rightarrow> (Err ContractPanic, s)
              | Fault e \<Rightarrow> (case observe_gap e s of (counted, s) \<Rightarrow> (bindR counted (\<lambda>_. Err (Fault e)), s)))))"

definition check_token :: "('m, 'a) runtime_contract \<Rightarrow> admission_token \<Rightarrow> 'a pending_admission contract_result" where
  "check_token s token =
     (case rc_pending s of
        Some pending \<Rightarrow>
          if tk_owner token = rc_identity s \<and> tk_sequence token = Some (pa_sequence pending) then Ok pending
          else Err (Fault (InvalidRecord (Detail ''stale or foreign admission capability'')))
      | None \<Rightarrow> Err (Fault (InvalidRecord (Detail ''stale or foreign admission capability''))))"

definition pending_bytes :: "('m, 'a) runtime_contract \<Rightarrow> admission_token \<Rightarrow> string contract_result" where
  "pending_bytes s token = map_ok (\<lambda>pending. doc_source (pa_document pending)) (check_token s token)"

section \<open>Commit\<close>

fun commit_optional :: "('m \<Rightarrow> 'b \<Rightarrow> 'm contract_result) \<Rightarrow> 'b option \<Rightarrow> 'm \<Rightarrow> 'm contract_result" where
  "commit_optional f None m = Ok m"
| "commit_optional f (Some a) m = f m a"

definition commit_evidence :: "('m, 'a) model_requests \<Rightarrow> 'a admission_plan \<Rightarrow> 'm \<Rightarrow> 'm contract_result" where
  "commit_evidence ops p m =
     bindR (commit_optional (mr_commit_origin ops) (ap_request_origin p) m) (\<lambda>m.
     bindR (commit_optional (mr_commit_response ops) (ap_response p) m) (\<lambda>m.
     bindR (commit_optional (mr_commit_utility_completion ops) (ap_utility_completion p) m) (\<lambda>m.
     bindR (commit_optional (mr_commit_seed ops) (ap_seed p) m) (\<lambda>m.
     bindR (commit_optional (mr_commit_generation ops) (ap_generation p) m) (\<lambda>m.
     bindR (commit_optional (mr_commit_completion ops) (ap_completion p) m) (\<lambda>m.
     bindR (mr_commit_compaction_claims ops m (ap_compaction_claims p)) (\<lambda>m.
       commit_optional (mr_commit_compaction ops) (ap_compaction_commit p) m)))))))"

definition commit_requests :: "('m, 'a) model_requests \<Rightarrow> 'a admission_plan \<Rightarrow> 'm \<Rightarrow> 'm contract_result" where
  "commit_requests ops p m =
     bindR (commit_optional (mr_commit ops) (ap_request p) m) (commit_optional (mr_commit_utility_request ops) (ap_utility_request p))"

definition commit_row :: "'a admission_plan \<Rightarrow> scope_state list \<Rightarrow> (string \<rightharpoonup> nat) \<Rightarrow> (scope_state list \<times> (string \<rightharpoonup> nat)) contract_result" where
  "commit_row p states rows =
     (if ap_row p = length states then
        bindR (ok_or (sc_id (ap_state p)) ContractPanic) (\<lambda>i. Ok (states @ [ap_state p], rows(i \<mapsto> ap_row p)))
      else if ap_row p < length states then Ok (states[ap_row p := ap_state p], rows)
      else Err ContractPanic)"

definition extend :: "('k::linorder, 'v) btree \<Rightarrow> ('k, 'v) btree \<Rightarrow> ('k, 'v) btree" where
  "extend m additions = fold (\<lambda>(k, v). btree_insert k v) additions m"

definition commit_tools :: "'a admission_plan \<Rightarrow> (string, tool_use) btree \<Rightarrow> (string, tool_use) btree contract_result" where
  "commit_tools p tools =
     (let tools = extend tools (ap_additions p) in
      if ap_returns p \<subseteq> fst ` set tools
      then Ok (map (\<lambda>(i, tool). (i, if i \<in> ap_returns p then tool\<lparr>tu_returned := True\<rparr> else tool)) tools)
      else Err ContractPanic)"

definition insert_optional :: "'b option \<Rightarrow> 'b set \<Rightarrow> 'b set" where
  "insert_optional x A = (case x of Some a \<Rightarrow> Set.insert a A | None \<Rightarrow> A)"

definition commit_plan :: "('m, 'a) model_requests \<Rightarrow> 'a admission_plan \<Rightarrow> ('m, 'a) runtime_contract \<Rightarrow> ('m, 'a) runtime_contract contract_result" where
  "commit_plan ops p s =
     bindR (commit_evidence ops p (rc_requests s)) (\<lambda>m.
     bindR (commit_row p (rc_scope_states s) (rc_scope_rows s)) (\<lambda>(states, rows).
     bindR (commit_requests ops p m) (\<lambda>m.
     bindR (commit_tools p (rc_tool_uses s)) (\<lambda>tools.
       Ok (s\<lparr>rc_pending := None, rc_runtime_initialized := ap_runtime_initialized p, rc_requests := m,
             rc_failed_compaction_scopes := insert_optional (ap_compaction_failed p) (rc_failed_compaction_scopes s),
             rc_scope_states := states, rc_scope_rows := rows, rc_tool_uses := tools,
             rc_runtime_operation_ids := insert_optional (ap_runtime_operation_id p) (rc_runtime_operation_ids s),
             rc_owed := ap_owed p,
             rc_partial_origins :=
               (case ap_partial_origin p of Some (scope, origin) \<Rightarrow> (rc_partial_origins s)(scope \<mapsto> origin) | None \<Rightarrow> rc_partial_origins s),
             rc_prefix := ap_prefix p\<rparr>)))))"

text \<open>Both operations on a capability return it: spent when they succeed.\<close>

definition commit :: "('m, 'a) engine \<Rightarrow> ('m, 'a) runtime_contract \<Rightarrow> admission_token
    \<Rightarrow> (('m, 'a) runtime_contract \<times> admission_token) contract_result" where
  "commit env s token =
     bindR (check_token s token) (\<lambda>pending.
       case rc_first_refusal s of
         Some e \<Rightarrow> Err (Fault e)
       | None \<Rightarrow> map_ok (\<lambda>s. (s, token\<lparr>tk_sequence := None\<rparr>)) (commit_plan (en_requests env) (pa_plan pending) s))"

definition reject_pending :: "('m, 'a) runtime_contract \<Rightarrow> admission_token \<Rightarrow> contract_error
    \<Rightarrow> (('m, 'a) runtime_contract \<times> admission_token) contract_result" where
  "reject_pending s token cause =
     bindR (check_token s token) (\<lambda>_. Ok (latch cause (s\<lparr>rc_pending := None\<rparr>), token\<lparr>tk_sequence := None\<rparr>))"

section \<open>The final answer\<close>

definition scope_answer :: "(string, tool_use) btree \<Rightarrow> scope_state \<Rightarrow> agent_scope contract_result" where
  "scope_answer tools state =
     bindR (ok_or (sc_id state) ContractPanic) (\<lambda>i.
     bindR (ok_or (btree_get tools i) ContractPanic) (\<lambda>tool.
       Ok \<lparr>as_tool_use_id = i, as_tool_name = tu_name tool,
           as_reported_num_turns = map_option tm_num_turns (sc_terminal state),
           as_is_error = map_option tm_is_error (sc_terminal state),
           as_subtype = map_option tm_subtype (sc_terminal state),
           as_error_message = Option.bind (sc_terminal state) tm_error_message\<rparr>))"

definition answer :: "('m, 'a) model_requests \<Rightarrow> ('m, 'a) runtime_contract \<Rightarrow> terminal \<Rightarrow> agent_result contract_result" where
  "answer ops s ending =
     bindR (mapR (scope_answer (rc_tool_uses s)) (drop 1 (rc_scope_states s))) (\<lambda>scopes.
     bindR (ok_or (tm_response ending) ContractPanic) (\<lambda>response.
     bindR (ok_or (tm_duration_ms ending) ContractPanic) (\<lambda>duration.
     bindR (ok_or (tm_api_duration_ms ending) ContractPanic) (\<lambda>api_duration.
     bindR (ok_or (rc_session_id s) ContractPanic) (\<lambda>session.
       Ok \<lparr>ar_is_error = tm_is_error ending, ar_subtype = tm_subtype ending, ar_response = response,
           ar_duration_ms = duration, ar_api_duration_ms = api_duration, ar_num_turns = tm_num_turns ending,
           ar_main_kv_scope = session, ar_usage = mr_all_usage ops (rc_requests s),
           ar_request_scopes = map (\<lambda>(scope, usage). \<lparr>rs_kv_scope = scope, rs_usage = usage\<rparr>) (mr_usage_scopes ops (rc_requests s)),
           ar_scopes = scopes, ar_missing_deliverables = tm_missing_deliverables ending\<rparr>)))))"

definition runtime_finish :: "('m, 'a) engine \<Rightarrow> ('m, 'a) runtime_contract \<Rightarrow> agent_result contract_result" where
  "runtime_finish env s =
     (case rc_first_refusal s of
        Some e \<Rightarrow> Err (Fault e)
      | None \<Rightarrow>
          if rc_pending s \<noteq> None then Err (Fault (InvalidRecord (Detail ''admission remains pending reconciliation'')))
          else if rc_prefix s = 0 then Err (Fault (InvalidRecord (Detail ''events.jsonl contains no events'')))
          else if rc_owed s \<noteq> None
          then Err (runtime_refusal ''ends before the assistant messages of a settled turn'' 0
                      (case rc_owed s of Some owed \<Rightarrow> scope_value (od_scope owed) | None \<Rightarrow> []))
          else
            (case find (\<lambda>state. sc_runtime_operation state \<noteq> None) (rc_scope_states s) of
               Some state \<Rightarrow> Err (runtime_refusal ''omits the assistant output of a local operation'' 0 (scope_value (sc_id state)))
             | None \<Rightarrow>
                 bindR (ok_or (get_at (rc_scope_states s) 0) ContractPanic) (\<lambda>main.
                 bindR (ok_or (sc_terminal main)
                          (runtime_refusal ''no main-session terminal result'' 0 [nat_to_string (unat (rc_prefix s))])) (\<lambda>ending.
                   answer (en_requests env) s ending))))"

end
