(* ===== verification/Runtime_Invariant.thy ===== *)
theory Runtime_Invariant
  imports Runtime_Admission
begin

text \<open>
  The invariant of \<^verbatim>\<open>RuntimeContract\<close>: the rows of scopes agree with the names of scopes, every child scope and every tool
  belongs to an issued tool, tools descend from tools issued before them, the root's result is complete, and a pending plan
  fits the state it was made for.
\<close>

section \<open>The invariant\<close>

definition tool_keys :: "(string, tool_use) btree \<Rightarrow> string set" where
  "tool_keys tools = fst ` set tools"

lemma btree_get_None_iff: "btree_get m k = None \<longleftrightarrow> k \<notin> fst ` set m"
  by (simp add: btree_get_map_of map_of_eq_None_iff)

lemma tool_keys_iff: "i \<in> tool_keys tools \<longleftrightarrow> btree_get tools i \<noteq> None"
  by (simp add: tool_keys_def btree_get_None_iff)

text \<open>Every tool descends from tools issued before it: some order of issue makes the scope of a tool strictly earlier.\<close>

definition descends :: "(string, tool_use) btree \<Rightarrow> bool" where
  "descends tools \<longleftrightarrow> (\<exists>rank :: string \<Rightarrow> nat. \<forall>i tool. btree_get tools i = Some tool \<longrightarrow>
     (\<forall>j. tu_scope tool = Some j \<longrightarrow> j \<in> tool_keys tools \<and> rank j < rank i))"

definition rows_ok :: "scope_state list \<Rightarrow> (string \<rightharpoonup> nat) \<Rightarrow> (string, tool_use) btree \<Rightarrow> bool" where
  "rows_ok states rows tools \<longleftrightarrow>
     states \<noteq> [] \<and> sc_id (states ! 0) = None
     \<and> (\<forall>row. 0 < row \<and> row < length states \<longrightarrow> (\<exists>i. sc_id (states ! row) = Some i \<and> rows i = Some row \<and> i \<in> tool_keys tools))
     \<and> (\<forall>i row. rows i = Some row \<longrightarrow> 0 < row \<and> row < length states \<and> sc_id (states ! row) = Some i)"

definition complete_ending :: "terminal option \<Rightarrow> bool" where
  "complete_ending ending \<longleftrightarrow>
     (\<forall>t. ending = Some t \<longrightarrow> tm_response t \<noteq> None \<and> tm_duration_ms t \<noteq> None \<and> tm_api_duration_ms t \<noteq> None)"

definition owes_messages :: "owed_display option \<Rightarrow> bool" where
  "owes_messages owed \<longleftrightarrow> (\<forall>d. owed = Some d \<longrightarrow> od_messages d \<noteq> [])"

text \<open>What a plan for a scope promises about the tools and the scope it was made for.\<close>

definition additions_ok :: "(string, tool_use) btree \<Rightarrow> string option \<Rightarrow> (string, tool_use) btree \<Rightarrow> bool" where
  "additions_ok tools scope additions \<longleftrightarrow>
     (\<forall>(i, tool) \<in> set additions. i \<notin> tool_keys tools \<and> tu_scope tool = scope \<and> \<not> tu_returned tool)"

definition returns_ok :: "(string, tool_use) btree \<Rightarrow> string option \<Rightarrow> string set \<Rightarrow> bool" where
  "returns_ok tools scope returns \<longleftrightarrow>
     (\<forall>i \<in> returns. \<exists>tool. btree_get tools i = Some tool \<and> tu_scope tool = scope \<and> \<not> tu_returned tool)"

definition plan_ok :: "('m, 'a) runtime_contract \<Rightarrow> string option \<Rightarrow> 'a admission_plan \<Rightarrow> bool" where
  "plan_ok s scope p \<longleftrightarrow>
     ap_row p = scope_row s scope \<and> sc_id (ap_state p) = sc_id (scope_entry s scope)
     \<and> additions_ok (rc_tool_uses s) scope (ap_additions p) \<and> returns_ok (rc_tool_uses s) scope (ap_returns p)
     \<and> owes_messages (ap_owed p) \<and> (scope = None \<longrightarrow> complete_ending (sc_terminal (ap_state p)))"

definition issued_scope :: "('m, 'a) runtime_contract \<Rightarrow> string option \<Rightarrow> bool" where
  "issued_scope s scope \<longleftrightarrow> (\<forall>i. scope = Some i \<longrightarrow> i \<in> tool_keys (rc_tool_uses s))"

definition pending_ok :: "('m, 'a) runtime_contract \<Rightarrow> 'a pending_admission \<Rightarrow> bool" where
  "pending_ok s pending \<longleftrightarrow>
     (\<exists>scope. issued_scope s scope \<and> plan_ok s scope (pa_plan pending))
     \<and> unat (ap_prefix (pa_plan pending)) = unat (rc_prefix s) + 1
     \<and> unat (pa_sequence pending) \<le> unat (rc_records_seen s)"

text \<open>A record is certified, pending, or the cause of a refusal.\<close>

definition counts_ok :: "('m, 'a) runtime_contract \<Rightarrow> bool" where
  "counts_ok s \<longleftrightarrow> (rc_first_refusal s = None \<longrightarrow>
     unat (rc_records_seen s) = unat (rc_prefix s) + (if rc_pending s = None then 0 else 1))"

definition structure_ok :: "('m, 'a) runtime_contract \<Rightarrow> bool" where
  "structure_ok s \<longleftrightarrow>
     rows_ok (rc_scope_states s) (rc_scope_rows s) (rc_tool_uses s) \<and> descends (rc_tool_uses s)
     \<and> complete_ending (sc_terminal (rc_scope_states s ! 0)) \<and> owes_messages (rc_owed s)"

definition session_ok :: "('m, 'a) runtime_contract \<Rightarrow> bool" where
  "session_ok s \<longleftrightarrow> (rc_prefix s \<noteq> 0 \<or> rc_pending s \<noteq> None \<longrightarrow> rc_session_id s \<noteq> None)"

definition runtime_ok :: "('m, 'a) runtime_contract \<Rightarrow> bool" where
  "runtime_ok s \<longleftrightarrow> structure_ok s \<and> session_ok s \<and> counts_ok s
     \<and> (\<forall>pending. rc_pending s = Some pending \<longrightarrow> pending_ok s pending)"

lemma runtime_new_ok: "runtime_ok (runtime_new requests identity manifest json operations operator)"
  by (simp add: runtime_ok_def structure_ok_def session_ok_def counts_ok_def runtime_new_def rows_ok_def descends_def
      complete_ending_def owes_messages_def scope_state_default_def) auto

section \<open>The walk up the scopes ends\<close>

lemma row_open_no_panic: "rows_ok (rc_scope_states s) (rc_scope_rows s) (rc_tool_uses s) \<Longrightarrow> no_panic (row_open s line i)"
  by (cases "rc_scope_rows s i") (auto simp: row_open_def rows_ok_def)

lemma ancestry_enough:
  assumes rank: "\<And>i tool j. btree_get (rc_tool_uses s) i = Some tool \<Longrightarrow> tu_scope tool = Some j \<Longrightarrow>
      j \<in> tool_keys (rc_tool_uses s) \<and> (rank j :: nat) < rank i"
    and "\<forall>i. scope = Some i \<longrightarrow> card {j \<in> tool_keys (rc_tool_uses s). rank j < rank i} < fuel"
    and "fuel \<le> fuel'" and rows: "rows_ok (rc_scope_states s) (rc_scope_rows s) (rc_tool_uses s)"
  shows "ancestry_loop fuel s line scope = ancestry_loop fuel' s line scope \<and> no_panic (ancestry_loop fuel s line scope)"
  using assms(2,3)
proof (induction fuel arbitrary: scope fuel')
  case 0
  then show ?case by (cases scope) auto
next
  case (Suc fuel)
  then obtain f where f: "fuel' = Suc f" "fuel \<le> f" by (cases fuel') auto
  have up: "ancestry_loop fuel s line (tu_scope tool) = ancestry_loop f s line (tu_scope tool) \<and> no_panic (ancestry_loop fuel s line (tu_scope tool))"
    if i: "scope = Some i" and tool: "btree_get (rc_tool_uses s) i = Some tool" for i tool
  proof (rule Suc.IH [OF _ f(2)], intro allI impI)
    fix j
    assume "tu_scope tool = Some j"
    with rank tool have "j \<in> tool_keys (rc_tool_uses s)" "rank j < rank i" by auto
    then have "{k \<in> tool_keys (rc_tool_uses s). rank k < rank j} \<subset> {k \<in> tool_keys (rc_tool_uses s). rank k < rank i}"
      by auto
    then have "card {k \<in> tool_keys (rc_tool_uses s). rank k < rank j} < card {k \<in> tool_keys (rc_tool_uses s). rank k < rank i}"
      by (intro psubset_card_mono) (simp_all add: tool_keys_def)
    with Suc.prems(1) i show "card {k \<in> tool_keys (rc_tool_uses s). rank k < rank j} < fuel" by fastforce
  qed
  show ?case
  proof (cases scope)
    case (Some i)
    have "no_panic (ancestry_loop (Suc fuel) s line (Some i))"
      using up [OF Some] row_open_no_panic [OF rows] by (auto intro!: no_panic_bind no_panic_ok_or)
    then show ?thesis using up [OF Some] Some f by (auto intro!: bindR_cong)
  qed simp
qed

lemma ancestry_fuel:
  assumes "descends (rc_tool_uses s)" and "length (rc_tool_uses s) < fuel"
    and "rows_ok (rc_scope_states s) (rc_scope_rows s) (rc_tool_uses s)"
  shows "ensure_ancestry s scope line = ancestry_loop fuel s line scope \<and> no_panic (ensure_ancestry s scope line)"
proof -
  obtain rank :: "string \<Rightarrow> nat" where rank: "\<And>i tool j. btree_get (rc_tool_uses s) i = Some tool \<Longrightarrow> tu_scope tool = Some j \<Longrightarrow>
      j \<in> tool_keys (rc_tool_uses s) \<and> rank j < rank i"
    using assms(1) by (auto simp: descends_def)
  have "card {j \<in> tool_keys (rc_tool_uses s). rank j < r} \<le> length (rc_tool_uses s)" for r
  proof -
    have "card {j \<in> tool_keys (rc_tool_uses s). rank j < r} \<le> card (tool_keys (rc_tool_uses s))"
      by (intro card_mono) (auto simp: tool_keys_def)
    also have "\<dots> \<le> length (rc_tool_uses s)" unfolding tool_keys_def
      by (metis card_length length_map list.set_map)
    finally show ?thesis .
  qed
  then show ?thesis unfolding ensure_ancestry_def
    by (intro ancestry_enough [of s rank]) (use rank assms in \<open>auto simp: less_Suc_eq_le\<close>)
qed

section \<open>Plans fit the state they are made for\<close>

lemma plan_base_ok: "structure_ok s \<Longrightarrow> owes_messages owed \<Longrightarrow> plan_ok s scope (plan_base s scope owed)"
  by (auto simp: plan_ok_def plan_base_def additions_ok_def returns_ok_def structure_ok_def rows_ok_def scope_entry_def scope_row_def
      get_at_def)

lemma owed_message_owes: "owed_message s r scope line = Ok (owed, shown_turn) \<Longrightarrow> owes_messages (rc_owed s) \<Longrightarrow> owes_messages owed"
  by (auto simp: owed_message_def owes_messages_def split: option.splits if_splits list.splits)

lemma display_nonempty: "display quote g was_refused \<noteq> Ok []"
  by (auto simp: display_def Let_def enumerate_eq_zip split: if_splits)

lemma duration_given: "terminal_duration v True key = Ok d \<Longrightarrow> d \<noteq> None"
  by (auto simp: terminal_duration_def split: option.splits)

lemma read_terminal_complete:
  assumes "read_terminal c missing_subtype v line True = Ok t"
  shows "complete_ending (Some t)"
proof -
  have "tm_duration_ms t \<noteq> None" "tm_api_duration_ms t \<noteq> None" "tm_response t \<noteq> None"
    using assms by (auto simp: read_terminal_def split: if_splits dest!: duration_given)
  then show ?thesis by (simp add: complete_ending_def)
qed

text \<open>A step that touches neither the identity of its scope, the tools, the owed messages nor the result keeps a plan fit.\<close>

definition kept ::
  "'a admission_plan \<Rightarrow> nat \<times> string option \<times> terminal option \<times> (string, tool_use) btree \<times> string set \<times> owed_display option" where
  "kept p = (ap_row p, sc_id (ap_state p), sc_terminal (ap_state p), ap_additions p, ap_returns p, ap_owed p)"

lemma plan_ok_kept: "plan_ok s scope p \<Longrightarrow> kept q = kept p \<Longrightarrow> plan_ok s scope q"
  by (simp add: plan_ok_def kept_def)

lemma chat_origin_kept: "chat_origin s scope attempt kv_scope line p = Ok q \<Longrightarrow> kept q = kept p"
  by (auto simp: chat_origin_def kept_def split: if_splits option.splits)

lemma plan_model_request_kept: "plan_model_request ops s scope v line p = Ok q \<Longrightarrow> kept q = kept p"
  by (auto simp: plan_model_request_def kept_def split: if_splits option.splits dest!: chat_origin_kept)

lemma plan_utility_kept: "plan_utility ops s v line p = Ok q \<Longrightarrow> kept q = kept p"
  by (auto simp: plan_utility_def kept_def split: if_splits)

lemma plan_generation_record_kept: "plan_generation_record digest ops s scope v line p = Ok q \<Longrightarrow> kept q = kept p"
  by (auto simp: plan_generation_record_def kept_def split: if_splits)

lemma settle_operation_kept:
  "settle_operation digest scope line rendered state = Ok state' \<Longrightarrow> sc_id state' = sc_id state \<and> sc_terminal state' = sc_terminal state"
  by (auto simp: settle_operation_def split: if_splits)

lemma plan_runtime_output_kept: "plan_runtime_output digest ops s scope v line p = Ok q \<Longrightarrow> kept q = kept p"
  by (auto simp: plan_runtime_output_def kept_def split: if_splits dest: settle_operation_kept)

lemma plan_stream_event_kept: "plan_stream_event s scope r line p = Ok q \<Longrightarrow> kept q = kept p"
  by (auto simp: plan_stream_event_def kept_def)

lemma compaction_plan_kept: "kept (compaction_plan kv_scope p r) = kept p"
  by (cases r) (simp add: compaction_plan_def kept_def)

lemma plan_compaction_kept: "plan_compaction ops s scope v line p = Ok q \<Longrightarrow> kept q = kept p"
  by (auto simp: plan_compaction_def compaction_plan_kept split: if_splits)

lemma plan_operation_kept: "plan_operation s scope v line p = Ok q \<Longrightarrow> kept q = kept p"
  by (auto simp: plan_operation_def kept_def split: if_splits)

lemma plan_system_kept: "plan_system ops s scope v line p = Ok q \<Longrightarrow> kept q = kept p"
proof -
  assume *: "plan_system ops s scope v line p = Ok q"
  then obtain name kind where "text_field v ''subtype'' line = Ok name" "system_kind_from_wire name = Some kind"
    by (auto simp: plan_system_def)
  with * show ?thesis
    by (cases kind) (auto simp: plan_system_def kept_def dest: plan_compaction_kept plan_operation_kept split: if_splits option.splits)
qed

lemma btree_insert_entries: "set (btree_insert k v m) \<subseteq> Set.insert (k, v) (set m)"
  by (induction k v m rule: btree_insert.induct) auto

lemma issue_call_ok:
  assumes "issue_call s scope line additions call = Ok additions'" and "additions_ok (rc_tool_uses s) scope additions"
  shows "additions_ok (rc_tool_uses s) scope additions'"
proof -
  obtain tool where "additions' = btree_insert (cl_id call) tool additions" "tu_scope tool = scope" "\<not> tu_returned tool"
    "btree_get (rc_tool_uses s) (cl_id call) = None"
    using assms(1) by (auto simp: issue_call_def split: if_splits)
  with assms(2) show ?thesis using btree_insert_entries [of "cl_id call" tool additions]
    by (auto simp: additions_ok_def tool_keys_iff)
qed

lemma issue_calls_ok:
  "foldR (issue_call s scope line) additions calls = Ok additions' \<Longrightarrow> additions_ok (rc_tool_uses s) scope additions \<Longrightarrow>
    additions_ok (rc_tool_uses s) scope additions'"
  by (induction calls arbitrary: additions) (auto dest: issue_call_ok)

lemma owe_turn_ok: "owe_turn quote scope g disposition p = Ok q \<Longrightarrow> plan_ok s scope p \<Longrightarrow> plan_ok s scope q"
  by (auto simp: owe_turn_def plan_ok_def owes_messages_def display_nonempty split: if_splits)

lemma show_model_text_kept:
  "sc_id (show_model_text scope g state) = sc_id state" "sc_terminal (show_model_text scope g state) = sc_terminal state"
  by (simp_all add: show_model_text_def)

lemma accept_turn_ok: "accept_turn s scope line g p = Ok q \<Longrightarrow> plan_ok s scope p \<Longrightarrow> plan_ok s scope q"
  by (auto simp: accept_turn_def plan_ok_def show_model_text_kept dest: issue_calls_ok)

lemma plan_ok_partial: "plan_ok s scope p \<Longrightarrow> plan_ok s scope (p\<lparr>ap_state := (ap_state p)\<lparr>sc_partial := partial\<rparr>\<rparr>)"
  by (simp add: plan_ok_def)

lemma settle_turn_ok: "settle_turn quote s scope line g disposition p = Ok q \<Longrightarrow> plan_ok s scope p \<Longrightarrow> plan_ok s scope q"
  by (auto simp: settle_turn_def split: if_splits dest: owe_turn_ok [OF _ plan_ok_partial] accept_turn_ok)

lemma plan_ok_requests [simp]:
  "plan_ok s scope (p\<lparr>ap_completion := a\<rparr>) \<longleftrightarrow> plan_ok s scope p"
  "plan_ok s scope (p\<lparr>ap_utility_completion := a\<rparr>) \<longleftrightarrow> plan_ok s scope p"
  "plan_ok s scope (p\<lparr>ap_response := a\<rparr>) \<longleftrightarrow> plan_ok s scope p"
  "plan_ok s scope (p\<lparr>ap_seed := a\<rparr>) \<longleftrightarrow> plan_ok s scope p"
  "plan_ok s scope (p\<lparr>ap_request_origin := a, ap_prefix := n\<rparr>) \<longleftrightarrow> plan_ok s scope p"
  by (simp_all add: plan_ok_def)

lemma plan_completion_record_ok:
  "plan_completion_record quote ops s scope v line p = Ok q \<Longrightarrow> plan_ok s scope p \<Longrightarrow> plan_ok s scope q"
  by (auto simp: plan_completion_record_def split: if_splits dest: settle_turn_ok)

lemma require_tool_owner_Ok_iff:
  "require_tool_owner s i scope line = Ok () \<longleftrightarrow>
    (\<exists>tool. btree_get (rc_tool_uses s) i = Some tool \<and> tu_scope tool = scope \<and> \<not> tu_returned tool)"
  by (auto simp: require_tool_owner_def)

lemma take_structured_kept: "kept (take_structured tool p) = kept p"
  by (simp add: take_structured_def kept_def)

lemma plan_ok_return:
  "plan_ok s scope p \<Longrightarrow> require_tool_owner s i scope line = Ok () \<Longrightarrow> plan_ok s scope (p\<lparr>ap_returns := Set.insert i (ap_returns p)\<rparr>)"
  by (simp add: plan_ok_def returns_ok_def require_tool_owner_Ok_iff)

lemma tool_result_ok: "tool_result s scope line p block = Ok q \<Longrightarrow> plan_ok s scope p \<Longrightarrow> plan_ok s scope q"
  by (auto simp: tool_result_def split: if_splits intro!: plan_ok_return intro: plan_ok_kept [OF _ take_structured_kept])

lemma tool_results_ok: "foldR (tool_result s scope line) p blocks = Ok q \<Longrightarrow> plan_ok s scope p \<Longrightarrow> plan_ok s scope q"
  by (induction blocks arbitrary: p) (auto dest: tool_result_ok)

lemma plan_user_ok: "plan_user s scope v line p = Ok q \<Longrightarrow> plan_ok s scope p \<Longrightarrow> plan_ok s scope q"
  by (auto simp: plan_user_def dest: tool_results_ok)

lemma plan_result_ok: "plan_result c missing_subtype ops s scope v line p = Ok q \<Longrightarrow> plan_ok s scope p \<Longrightarrow> plan_ok s scope q"
  by (auto simp: plan_result_def plan_ok_def split: if_splits dest: read_terminal_complete)

lemma plan_event_ok:
  assumes "plan_event c missing_subtype digest quote ops s scope r line shown_turn p = Ok q" and "plan_ok s scope p"
  shows "plan_ok s scope q"
  using assms
  by (cases "dr_kind r")
     (auto simp: plan_event_def Let_def split: if_splits
       dest: plan_completion_record_ok plan_user_ok plan_result_ok
       intro: plan_ok_kept plan_model_request_kept plan_utility_kept plan_generation_record_kept plan_runtime_output_kept
         plan_stream_event_kept plan_system_kept)

lemma add_count_Ok: "add_count a b name = Ok n \<Longrightarrow> unat n = unat a + unat b"
  by (simp add: add_count_def checked_add_Some_iff)

lemma ancestry_issued: "ensure_ancestry s scope line = Ok () \<Longrightarrow> issued_scope s scope"
  by (cases scope) (auto simp: ensure_ancestry_def issued_scope_def tool_keys_iff)

theorem runtime_plan_ok:
  assumes "runtime_plan c missing_subtype digest quote ops s r line = Ok p" and ok: "structure_ok s"
  shows "(\<exists>scope. issued_scope s scope \<and> plan_ok s scope p) \<and> unat (ap_prefix p) = unat (rc_prefix s) + 1"
proof -
  obtain scope owed shown_turn q where scope: "ensure_ancestry s scope line = Ok ()"
    and owed: "owed_message s r scope line = Ok (owed, shown_turn)"
    and q: "plan_event c missing_subtype digest quote ops s scope r line shown_turn (plan_base s scope owed) = Ok q"
    and p: "plan_prefix ops s (dr_value r) line q = Ok p"
    using assms(1) by (auto simp: runtime_plan_def split: if_splits)
  have "owes_messages owed" using ok owed_message_owes [OF owed] by (simp add: structure_ok_def)
  from plan_event_ok [OF q plan_base_ok [OF ok this]] have "plan_ok s scope q" .
  moreover obtain origin n where "p = q\<lparr>ap_request_origin := origin, ap_prefix := n\<rparr>" "unat n = unat (rc_prefix s) + 1"
    using p by (auto simp: plan_prefix_def dest!: add_count_Ok)
  ultimately show ?thesis using ancestry_issued [OF scope] by auto
qed

section \<open>Records keep the invariant\<close>

text \<open>The state between the counting of a record and its admission or refusal: all of the invariant but the counts.\<close>

definition records_ok :: "('m, 'a) runtime_contract \<Rightarrow> bool" where
  "records_ok s \<longleftrightarrow> structure_ok s \<and> session_ok s \<and> (\<forall>pending. rc_pending s = Some pending \<longrightarrow> pending_ok s pending)"

lemma runtime_ok_iff: "runtime_ok s \<longleftrightarrow> records_ok s \<and> counts_ok s"
  by (auto simp: runtime_ok_def records_ok_def)

text \<open>Identification and observation leave everything that is certified.\<close>

definition same_certified :: "('m, 'a) runtime_contract \<Rightarrow> ('m, 'a) runtime_contract \<Rightarrow> bool" where
  "same_certified s t \<longleftrightarrow>
     rc_scope_states t = rc_scope_states s \<and> rc_scope_rows t = rc_scope_rows s \<and> rc_tool_uses t = rc_tool_uses s
     \<and> rc_owed t = rc_owed s \<and> rc_prefix t = rc_prefix s \<and> rc_pending t = rc_pending s \<and> rc_requests t = rc_requests s
     \<and> rc_identity t = rc_identity s \<and> (rc_session_id s \<noteq> None \<longrightarrow> rc_session_id t \<noteq> None)"

lemma same_certified_trans [trans]: "same_certified s t \<Longrightarrow> same_certified t u \<Longrightarrow> same_certified s u"
  by (auto simp: same_certified_def)

lemma same_certified_refl [simp]: "same_certified s s"
  by (simp add: same_certified_def)

lemma scope_row_same: "same_certified s t \<Longrightarrow> scope_row t scope = scope_row s scope"
  by (simp add: scope_row_def same_certified_def split: option.split)

lemma plan_ok_same: "same_certified s t \<Longrightarrow> plan_ok t scope p \<longleftrightarrow> plan_ok s scope p"
  using scope_row_same [of s t scope] by (simp add: plan_ok_def scope_entry_def same_certified_def)

lemma records_ok_same:
  assumes "records_ok s" and "same_certified s t" and "unat (rc_records_seen s) \<le> unat (rc_records_seen t)"
  shows "records_ok t"
proof -
  have "structure_ok t" "session_ok t" using assms(1,2) by (auto simp: records_ok_def structure_ok_def session_ok_def same_certified_def)
  moreover have "pending_ok t pending" if "rc_pending t = Some pending" for pending
  proof -
    have "pending_ok s pending" using that assms(1,2) by (simp add: records_ok_def same_certified_def)
    then show ?thesis using assms(2,3) plan_ok_same [OF assms(2)]
      by (simp add: pending_ok_def issued_scope_def same_certified_def)
  qed
  ultimately show ?thesis by (simp add: records_ok_def)
qed

lemma latch_same [simp]: "same_certified s (latch e s)" "rc_records_seen (latch e s) = rc_records_seen s"
    "rc_first_refusal (latch e s) \<noteq> None"
  by (simp_all add: same_certified_def latch_def)

lemma latch_ok: "records_ok s \<Longrightarrow> runtime_ok (latch e s)"
  using records_ok_same [of s "latch e s"] by (simp add: runtime_ok_iff counts_ok_def)

lemma latch_records_ok [simp]: "records_ok s \<Longrightarrow> records_ok (latch e s)"
  using latch_ok [of s e] by (simp add: runtime_ok_iff)

lemma count_record_Ok:
  "count_record s = Ok t \<Longrightarrow> same_certified s t \<and> unat (rc_records_seen t) = unat (rc_records_seen s) + 1
     \<and> rc_first_refusal t = rc_first_refusal s"
  by (auto simp: count_record_def same_certified_def dest!: add_count_Ok)

lemma count_unaccounted_Ok:
  "count_unaccounted s = Ok t \<Longrightarrow> same_certified s t \<and> rc_records_seen t = rc_records_seen s \<and> rc_first_refusal t = rc_first_refusal s
     \<and> rc_session_id t = rc_session_id s"
  by (auto simp: count_unaccounted_def same_certified_def)

lemma identify_same:
  assumes "identify sha s v line = (r, t)"
  shows "same_certified s t \<and> rc_records_seen t = rc_records_seen s \<and> rc_first_refusal t = rc_first_refusal s"
  using assms by (auto simp: identify_def Let_def same_certified_def split: result.splits)

lemma identify_session: "identify sha s v line = (Ok u, t) \<Longrightarrow> rc_session_id t \<noteq> None"
  by (auto simp: identify_def Let_def same_session_def split: result.splits option.splits if_splits)

lemma runtime_observe_same:
  "runtime_observe s v line = Ok t \<Longrightarrow> same_certified s t \<and> rc_records_seen t = rc_records_seen s
     \<and> rc_first_refusal t = rc_first_refusal s \<and> rc_session_id t = rc_session_id s"
  by (auto simp: runtime_observe_def record_observation_def same_certified_def)

lemma account_same:
  "account s v line decoded = Ok t \<Longrightarrow> same_certified s t \<and> rc_records_seen t = rc_records_seen s
     \<and> rc_first_refusal t = rc_first_refusal s \<and> rc_session_id t = rc_session_id s"
  by (auto simp: account_def split: result.splits contract_fault.splits dest: runtime_observe_same count_unaccounted_Ok)

lemma scope_row_pending [simp]: "scope_row (s\<lparr>rc_pending := x\<rparr>) scope = scope_row s scope"
  by (simp add: scope_row_def split: option.split)

lemma plan_ok_pending [simp]:
  "plan_ok (s\<lparr>rc_pending := x\<rparr>) scope p \<longleftrightarrow> plan_ok s scope p" "issued_scope (s\<lparr>rc_pending := x\<rparr>) scope \<longleftrightarrow> issued_scope s scope"
  by (simp_all add: plan_ok_def issued_scope_def scope_entry_def)

lemma admit_ok:
  assumes "records_ok s" "rc_pending s = None" "rc_session_id s \<noteq> None"
    and "rc_first_refusal s = None \<longrightarrow> unat (rc_records_seen s) = unat (rc_prefix s) + 1"
    and "admit env s document line decoded = (r, t)" "r \<noteq> Err ContractPanic"
  shows "runtime_ok t"
proof (cases "rc_first_refusal s")
  case None
  show ?thesis
  proof (cases "bindR decoded (engine_plan env s line)")
    case (Ok plan)
    then have "(\<exists>scope. issued_scope s scope \<and> plan_ok s scope plan) \<and> unat (ap_prefix plan) = unat (rc_prefix s) + 1"
      using assms(1) runtime_plan_ok by (fastforce simp: engine_plan_def records_ok_def)
    moreover have "t = s\<lparr>rc_pending := Some \<lparr>pa_sequence = rc_records_seen s, pa_document = document, pa_plan = plan\<rparr>\<rparr>"
      using assms(5) None Ok by (simp add: admit_def)
    ultimately show ?thesis using assms(1,3,4) None
      by (simp add: runtime_ok_def records_ok_def structure_ok_def session_ok_def counts_ok_def pending_ok_def)
  next
    case (Err fault)
    then show ?thesis using assms None latch_ok by (cases fault) (auto simp: admit_def)
  qed
next
  case (Some e)
  then show ?thesis using assms by (auto simp: admit_def runtime_ok_iff counts_ok_def)
qed

text \<open>What holds after a record was prepared, before its error is latched.\<close>

definition prepared_ok :: "'b contract_result \<Rightarrow> ('m, 'a) runtime_contract \<Rightarrow> bool" where
  "prepared_ok r t \<longleftrightarrow> (case r of Ok _ \<Rightarrow> runtime_ok t | Err fault \<Rightarrow> fault = ContractPanic \<or> records_ok t)"

lemma relatch_ok: "relatch (r, s) = (r', t) \<Longrightarrow> prepared_ok r s \<Longrightarrow> r' \<noteq> Err ContractPanic \<Longrightarrow> runtime_ok t"
  by (auto simp: relatch_def prepared_ok_def latch_ok split: result.splits contract_fault.splits)

lemma refused_ok: "refused fault s = (r, t) \<Longrightarrow> records_ok s \<Longrightarrow> prepared_ok r t"
  by (cases fault) (auto simp: prepared_ok_def)

lemma identified_ok:
  assumes "records_ok s" "rc_pending s = None"
    and "rc_first_refusal s = None \<longrightarrow> unat (rc_records_seen s) = unat (rc_prefix s) + 1"
    and "rc_session_id s \<noteq> None" and "account s v line decoded = Ok s'" and "admit env s' document line decoded = (r, t)"
  shows "prepared_ok r t"
proof -
  note same = account_same [OF assms(5)]
  have "records_ok s'" by (rule records_ok_same [OF assms(1)]) (use same in auto)
  moreover have "rc_pending s' = None" "rc_prefix s' = rc_prefix s" using same assms(2) by (auto simp: same_certified_def)
  ultimately have "r \<noteq> Err ContractPanic \<Longrightarrow> runtime_ok t"
    using admit_ok [OF _ _ _ _ assms(6)] same assms(3,4) by (metis (no_types, lifting))
  then show ?thesis by (auto simp: prepared_ok_def runtime_ok_iff split: result.split)
qed

lemma prepare_ok:
  assumes ok: "runtime_ok s" and prepare: "prepare env s document line = (r, t)"
  shows "prepared_ok r t"
proof (cases "rc_pending s")
  case (Some pending)
  then show ?thesis using ok prepare
    by (auto simp: prepare_def latched_def prepared_ok_def runtime_ok_iff)
next
  case pending: None
  show ?thesis
  proof (cases "count_record s")
    case (Err fault)
    then show ?thesis using pending ok prepare by (auto simp: prepare_def prepared_ok_def runtime_ok_iff)
  next
    case (Ok s1)
    obtain ri s2 where i: "identify (en_contract_sha256 env) s1 (document_tree document) line = (ri, s2)" by fastforce
    note counted = count_record_Ok [OF Ok] and identified = identify_same [OF i]
    have same: "same_certified s s2" using counted identified same_certified_trans by blast
    then have s2: "records_ok s2" "rc_pending s2 = None" "rc_prefix s2 = rc_prefix s"
      using records_ok_same [of s s2] ok counted identified pending by (auto simp: runtime_ok_iff same_certified_def)
    show ?thesis
    proof (cases ri)
      case (Err fault)
      then show ?thesis
        using prepare pending Ok i s2(1) records_ok_same [OF s2(1)] refused_ok [of fault _ r t] count_unaccounted_Ok [of s2]
        by (auto simp: prepare_def prepared_ok_def split: result.splits)
    next
      case Ok': (Ok u)
      have "rc_first_refusal s2 = None \<longrightarrow> unat (rc_records_seen s2) = unat (rc_prefix s2) + 1"
        using ok counted identified pending s2(3) by (simp add: runtime_ok_iff counts_ok_def)
      note admitted = identified_ok [OF s2(1,2) this identify_session [OF i [unfolded Ok']]]
      let ?decoded = "decoded_record_decode (en_contract env) (document_tree document) (rc_operations s2) line"
      show ?thesis
      proof (cases "account s2 (document_tree document) line ?decoded")
        case (Ok s3)
        then have "admit env s3 document line ?decoded = (r, t)" using prepare pending \<open>count_record s = Ok s1\<close> Ok' i
          by (simp add: prepare_def Let_def)
        with admitted Ok show ?thesis by blast
      next
        case (Err fault)
        then show ?thesis using prepare pending Ok Ok' i s2(1) by (auto simp: prepare_def prepared_ok_def Let_def)
      qed
    qed
  qed
qed

lemma observe_gap_ok:
  assumes "runtime_ok s" and "observe_gap cause s = (r, t)" and "r \<noteq> Err ContractPanic"
  shows "runtime_ok t"
proof (cases "bindR (count_record s) count_unaccounted")
  case (Ok u)
  then obtain s1 where "count_record s = Ok s1" "count_unaccounted s1 = Ok u" by auto
  then have "same_certified s u" "unat (rc_records_seen s) \<le> unat (rc_records_seen u)"
    using count_record_Ok [of s s1] count_unaccounted_Ok [of s1 u] same_certified_trans by fastforce+
  then have "records_ok u" using records_ok_same assms(1) by (auto simp: runtime_ok_iff)
  moreover have "t = latch cause u" using assms(2) unfolding observe_gap_def Ok by simp
  ultimately show ?thesis using latch_ok [of u cause] by simp
next
  case (Err fault)
  then show ?thesis using assms latch_ok [of "latch cause s"] by (cases fault) (auto simp: observe_gap_def runtime_ok_iff)
qed

lemma prepare_utf8_ok:
  assumes ok: "runtime_ok s" and prepare: "prepare_utf8 env s bytes line = (r, t)" and "r \<noteq> Err ContractPanic"
  shows "runtime_ok t"
proof (cases "rc_pending s = None")
  case False
  then show ?thesis using ok prepare latch_ok [of s] by (auto simp: prepare_utf8_def latched_def runtime_ok_iff)
next
  case pending: True
  show ?thesis
  proof (cases "document_decode bytes (rc_json_limits s)")
    case (Ok document)
    obtain r' u where u: "prepare env s document line = (r', u)" by fastforce
    from relatch_ok [OF _ prepare_ok [OF ok u] assms(3)] show ?thesis
      using Ok pending prepare u by (simp add: prepare_utf8_def)
  next
    case (Err cause)
    show ?thesis
    proof (cases "decode_failure cause line")
      case (Fault e)
      obtain counted u where u: "observe_gap e s = (counted, u)" by fastforce
      then have "counted \<noteq> Err ContractPanic" "t = u" using Err pending prepare Fault assms(3) by (auto simp: prepare_utf8_def)
      then show ?thesis using observe_gap_ok [OF ok u] by simp
    qed (use Err pending prepare assms(3) in \<open>auto simp: prepare_utf8_def\<close>)
  qed
qed

section \<open>Commits keep the invariant\<close>

lemma btree_keys_extend: "fst ` set (extend m additions) = fst ` set m \<union> fst ` set additions"
proof (induction additions arbitrary: m)
  case (Cons a additions)
  from Cons.IH [of "btree_insert (fst a) (snd a) m"] show ?case
    by (cases a) (simp add: extend_def btree_keys_insert Un_commute)
qed (simp add: extend_def)

lemma btree_get_extend:
  "btree_get (extend m additions) i = Some t \<Longrightarrow> (i, t) \<in> set additions \<or> btree_get m i = Some t"
proof (induction additions arbitrary: m)
  case (Cons a additions)
  from Cons.IH [of "btree_insert (fst a) (snd a) m"] Cons.prems show ?case
    by (cases a) (auto simp: extend_def split: if_splits)
qed (simp add: extend_def)

lemma btree_get_map_values: "btree_get (map (\<lambda>(i, t). (i, f i t)) m) k = map_option (f k) (btree_get m k)"
  by (induction m) auto

lemma commit_tools_Ok:
  assumes "commit_tools p tools = Ok tools'"
  shows "tool_keys tools' = tool_keys tools \<union> fst ` set (ap_additions p)"
    and "btree_get tools' i = Some t \<Longrightarrow> \<exists>u. tu_scope t = tu_scope u \<and> ((i, u) \<in> set (ap_additions p) \<or> btree_get tools i = Some u)"
proof -
  let ?f = "\<lambda>i t. if i \<in> ap_returns p then t\<lparr>tu_returned := True\<rparr> else t"
  have tools': "tools' = map (\<lambda>(i, t). (i, ?f i t)) (extend tools (ap_additions p))"
    using assms by (simp add: commit_tools_def Let_def split: if_splits)
  then show "tool_keys tools' = tool_keys tools \<union> fst ` set (ap_additions p)"
    by (simp add: tool_keys_def btree_keys_extend [symmetric] image_image case_prod_beta)
  assume "btree_get tools' i = Some t"
  then obtain u where "btree_get (extend tools (ap_additions p)) i = Some u" "t = ?f i u"
    by (auto simp: tools' btree_get_map_values [where f = ?f])
  then show "\<exists>u. tu_scope t = tu_scope u \<and> ((i, u) \<in> set (ap_additions p) \<or> btree_get tools i = Some u)"
    by (intro exI [of _ u]) (auto dest: btree_get_extend)
qed

lemma commit_tools_descends:
  assumes "descends tools" "additions_ok tools scope (ap_additions p)" "\<forall>j. scope = Some j \<longrightarrow> j \<in> tool_keys tools"
    and tools': "commit_tools p tools = Ok tools'"
  shows "descends tools'"
proof -
  obtain rank :: "string \<Rightarrow> nat" where rank: "\<And>i t j. btree_get tools i = Some t \<Longrightarrow> tu_scope t = Some j \<Longrightarrow>
      j \<in> tool_keys tools \<and> rank j < rank i"
    using assms(1) by (auto simp: descends_def)
  let ?rank = "\<lambda>i. if i \<in> tool_keys tools then rank i else Suc (rank (the scope))"
  have "j \<in> tool_keys tools' \<and> ?rank j < ?rank i" if t: "btree_get tools' i = Some t" "tu_scope t = Some j" for i t j
  proof -
    obtain u where u: "tu_scope u = Some j" "(i, u) \<in> set (ap_additions p) \<or> btree_get tools i = Some u"
      using commit_tools_Ok(2) [OF tools' t(1)] t(2) by auto
    then show ?thesis
    proof (elim disjE)
      assume "(i, u) \<in> set (ap_additions p)"
      then have "i \<notin> tool_keys tools" "scope = Some j" using assms(2) u(1) by (auto simp: additions_ok_def)
      then show ?thesis using assms(3) commit_tools_Ok(1) [OF tools'] by auto
    next
      assume "btree_get tools i = Some u"
      moreover from this have "i \<in> tool_keys tools" by (simp add: tool_keys_iff)
      ultimately show ?thesis using rank u(1) commit_tools_Ok(1) [OF tools'] by auto
    qed
  qed
  then show ?thesis unfolding descends_def by (intro exI [of _ ?rank]) blast
qed

lemma scope_row_bound:
  assumes "rows_ok (rc_scope_states s) (rc_scope_rows s) (rc_tool_uses s)"
  shows "scope_row s scope \<le> length (rc_scope_states s)"
    and "scope_row s scope = 0 \<longleftrightarrow> scope = None"
    and "scope_row s scope = length (rc_scope_states s) \<longleftrightarrow> (\<exists>i. scope = Some i \<and> rc_scope_rows s i = None)"
    and "scope_row s scope < length (rc_scope_states s) \<Longrightarrow> sc_id (scope_entry s scope) = sc_id (rc_scope_states s ! scope_row s scope)"
    and "sc_id (scope_entry s scope) = scope"
  using assms by (auto simp: rows_ok_def scope_row_def scope_entry_def scope_state_default_def less_imp_le split: option.splits)

lemma rows_ok_same_ids:
  assumes "rows_ok states rows tools" and "map sc_id states' = map sc_id states" and "tool_keys tools \<subseteq> tool_keys tools'"
  shows "rows_ok states' rows tools'"
proof -
  have len: "length states' = length states" using assms(2) map_eq_imp_length_eq by blast
  have "sc_id (states' ! row) = sc_id (states ! row)" if "row < length states" for row
    using assms(2) that len by (metis nth_map)
  then show ?thesis using assms(1,3) len unfolding rows_ok_def by (metis length_greater_0_conv subsetD)
qed

lemma commit_row_Ok:
  assumes rows: "rows_ok (rc_scope_states s) (rc_scope_rows s) (rc_tool_uses s)" and plan: "plan_ok s scope p"
    and issued: "issued_scope s scope" and grows: "tool_keys (rc_tool_uses s) \<subseteq> tool_keys tools"
  shows "\<exists>states rows. commit_row p (rc_scope_states s) (rc_scope_rows s) = Ok (states, rows) \<and> rows_ok states rows tools
    \<and> sc_terminal (states ! 0) = sc_terminal (if scope = None then ap_state p else rc_scope_states s ! 0)"
proof -
  let ?states = "rc_scope_states s" and ?row = "scope_row s scope"
  have p: "ap_row p = ?row" "sc_id (ap_state p) = scope" using plan scope_row_bound(5) [OF rows] by (auto simp: plan_ok_def)
  have ne: "?states \<noteq> []" using rows by (simp add: rows_ok_def)
  show ?thesis
  proof (cases "?row = length ?states")
    case True
    then obtain i where i: "scope = Some i" "rc_scope_rows s i = None" using scope_row_bound(3) [OF rows] by blast
    then have "commit_row p ?states (rc_scope_rows s) = Ok (?states @ [ap_state p], (rc_scope_rows s)(i \<mapsto> length ?states))"
      using True p by (simp add: commit_row_def)
    moreover have "rows_ok (?states @ [ap_state p]) ((rc_scope_rows s)(i \<mapsto> length ?states)) tools"
      using rows grows i issued p ne by (auto simp: rows_ok_def nth_append issued_scope_def less_Suc_eq)
        (metis option.distinct(1) subsetD)
    ultimately show ?thesis using i ne by (simp add: nth_append)
  next
    case False
    then have less: "?row < length ?states" using scope_row_bound(1) [OF rows, of scope] by simp
    then have "commit_row p ?states (rc_scope_rows s) = Ok (?states[?row := ap_state p], rc_scope_rows s)"
      using p by (simp add: commit_row_def)
    moreover have "rows_ok (?states[?row := ap_state p]) (rc_scope_rows s) tools"
      by (rule rows_ok_same_ids [OF rows _ grows])
         (use p less scope_row_bound(4,5) [OF rows, of scope] in \<open>simp add: map_update list_update_same_conv\<close>)
    ultimately show ?thesis using less ne scope_row_bound(2) [OF rows, of scope] by (auto simp: nth_list_update)
  qed
qed

lemma commit_tools_total:
  assumes "returns_ok tools scope (ap_returns p)"
  shows "\<exists>tools'. commit_tools p tools = Ok tools'"
proof -
  have "ap_returns p \<subseteq> tool_keys tools" using assms by (auto simp: returns_ok_def tool_keys_iff)
  then have "ap_returns p \<subseteq> fst ` set (extend tools (ap_additions p))" by (auto simp: btree_keys_extend tool_keys_def)
  then show ?thesis by (simp add: commit_tools_def Let_def)
qed

text \<open>The one lemma on commits: with the requests committed, it succeeds and keeps the invariant.\<close>

lemma commit_plan_ok:
  assumes ok: "runtime_ok s" and pending: "rc_pending s = Some pending" and "rc_first_refusal s = None"
    and m: "commit_evidence ops (pa_plan pending) (rc_requests s) = Ok m" "commit_requests ops (pa_plan pending) m = Ok m'"
  shows "\<exists>t. commit_plan ops (pa_plan pending) s = Ok t \<and> runtime_ok t \<and> rc_prefix t = ap_prefix (pa_plan pending)"
proof -
  let ?p = "pa_plan pending"
  obtain scope where scope: "issued_scope s scope" "plan_ok s scope ?p" and prefix: "unat (ap_prefix ?p) = unat (rc_prefix s) + 1"
    using ok pending by (auto simp: runtime_ok_def pending_ok_def)
  have built: "structure_ok s" using ok by (simp add: runtime_ok_def)
  obtain tools where tools: "commit_tools ?p (rc_tool_uses s) = Ok tools" using commit_tools_total [of "rc_tool_uses s" scope ?p] scope(2) by (auto simp: plan_ok_def)
  have grows: "tool_keys (rc_tool_uses s) \<subseteq> tool_keys tools" using commit_tools_Ok(1) [OF tools] by auto
  obtain states rows where rows: "commit_row ?p (rc_scope_states s) (rc_scope_rows s) = Ok (states, rows)"
      "rows_ok states rows tools" "sc_terminal (states ! 0) = sc_terminal (if scope = None then ap_state ?p else rc_scope_states s ! 0)"
    using commit_row_Ok [OF _ scope(2,1) grows] built by (auto simp: structure_ok_def)
  have "descends tools"
    by (rule commit_tools_descends [OF _ _ _ tools]) (use built scope in \<open>auto simp: structure_ok_def plan_ok_def issued_scope_def\<close>)
  moreover have "complete_ending (sc_terminal (states ! 0))" "owes_messages (ap_owed ?p)"
    using rows(3) scope(2) built by (auto simp: plan_ok_def structure_ok_def)
  moreover have "rc_session_id s \<noteq> None" "unat (rc_records_seen s) = unat (rc_prefix s) + 1"
    using ok pending assms(3) by (auto simp: runtime_ok_def session_ok_def counts_ok_def)
  ultimately show ?thesis using m tools rows prefix
    by (simp add: commit_plan_def runtime_ok_def structure_ok_def session_ok_def counts_ok_def)
qed

end
