(* ===== verification/Runtime_Certificate.thy ===== *)
theory Runtime_Certificate
  imports Runtime_Invariant
begin

text \<open>
  Runs of \<^verbatim>\<open>RuntimeContract\<close>: sequences of its calls with arbitrary bytes, causes and capabilities, from a new owner. A call that
  fails without changing the state is no step. The properties of the owner of a stream follow by induction over runs.
\<close>

section \<open>Runs\<close>

datatype runtime_call =
    PrepareCall string nat
  | GapCall contract_error
  | CommitCall admission_token
  | RejectCall admission_token contract_error

fun is_prepare :: "runtime_call \<Rightarrow> bool" where
  "is_prepare (PrepareCall _ _) = True"
| "is_prepare _ = False"

fun is_commit :: "runtime_call \<Rightarrow> bool" where
  "is_commit (CommitCall _) = True"
| "is_commit _ = False"

inductive runtime_step :: "('m, 'a) engine \<Rightarrow> ('m, 'a) runtime_contract \<Rightarrow> runtime_call \<Rightarrow> ('m, 'a) runtime_contract \<Rightarrow> bool" for env where
  prepared: "prepare_utf8 env s bytes line = (r, t) \<Longrightarrow> r \<noteq> Err ContractPanic \<Longrightarrow> runtime_step env s (PrepareCall bytes line) t"
| gap: "observe_gap cause s = (r, t) \<Longrightarrow> r \<noteq> Err ContractPanic \<Longrightarrow> runtime_step env s (GapCall cause) t"
| committed: "commit env s token = Ok (t, spent) \<Longrightarrow> runtime_step env s (CommitCall token) t"
| rejected: "reject_pending s token cause = Ok (t, spent) \<Longrightarrow> runtime_step env s (RejectCall token cause) t"

inductive_cases prepare_stepE: "runtime_step env s (PrepareCall bytes line) t"
inductive_cases gap_stepE: "runtime_step env s (GapCall cause) t"
inductive_cases commit_stepE: "runtime_step env s (CommitCall token) t"
inductive_cases reject_stepE: "runtime_step env s (RejectCall token cause) t"

inductive runtime_run :: "('m, 'a) engine \<Rightarrow> ('m, 'a) runtime_contract \<Rightarrow> runtime_call list \<Rightarrow> ('m, 'a) runtime_contract \<Rightarrow> bool" for env s where
  start: "runtime_run env s [] s"
| step: "runtime_run env s calls t \<Longrightarrow> runtime_step env t call u \<Longrightarrow> runtime_run env s (calls @ [call]) u"

lemma check_token_Ok_iff:
  "check_token s token = Ok pending \<longleftrightarrow>
     rc_pending s = Some pending \<and> tk_owner token = rc_identity s \<and> tk_sequence token = Some (pa_sequence pending)"
  by (auto simp: check_token_def split: option.splits)

lemma commit_Ok:
  assumes "commit env s token = Ok (t, spent)"
  obtains pending where "check_token s token = Ok pending" "rc_first_refusal s = None"
    "commit_plan (en_requests env) (pa_plan pending) s = Ok t" "spent = token\<lparr>tk_sequence := None\<rparr>"
  using assms by (auto simp: commit_def split: option.splits)

lemma commit_plan_requests:
  "commit_plan ops p s = Ok t \<Longrightarrow> \<exists>m m'. commit_evidence ops p (rc_requests s) = Ok m \<and> commit_requests ops p m = Ok m'"
  by (auto simp: commit_plan_def)

lemma commit_step_ok: "commit env s token = Ok (t, spent) \<Longrightarrow> runtime_ok s \<Longrightarrow> runtime_ok t"
  by (elim commit_Ok) (metis check_token_Ok_iff commit_plan_ok commit_plan_requests result.inject(1))

lemma reject_Ok:
  "reject_pending s token cause = Ok (t, spent) \<Longrightarrow> t = latch cause (s\<lparr>rc_pending := None\<rparr>)"
  by (auto simp: reject_pending_def)

lemma released_ok: "runtime_ok s \<Longrightarrow> records_ok (s\<lparr>rc_pending := None\<rparr>)"
  by (auto simp: runtime_ok_def records_ok_def structure_ok_def session_ok_def)

lemma reject_step_ok: "reject_pending s token cause = Ok (t, spent) \<Longrightarrow> runtime_ok s \<Longrightarrow> runtime_ok t"
  by (auto dest!: reject_Ok intro!: latch_ok released_ok)

lemma runtime_step_ok: "runtime_step env s call t \<Longrightarrow> runtime_ok s \<Longrightarrow> runtime_ok t"
  by (induction rule: runtime_step.induct) (auto dest: prepare_utf8_ok observe_gap_ok commit_step_ok reject_step_ok)

lemma runtime_run_ok: "runtime_run env s calls t \<Longrightarrow> runtime_ok s \<Longrightarrow> runtime_ok t"
  by (induction rule: runtime_run.induct) (auto dest: runtime_step_ok)

lemmas reachable_ok = runtime_run_ok [OF _ runtime_new_ok]

section \<open>Admitted and refused records\<close>

lemma admit_Ok:
  assumes "admit env s document line decoded = (Ok token, t)"
  shows "rc_first_refusal s = None \<and> token = \<lparr>tk_owner = rc_identity s, tk_sequence = Some (rc_records_seen s)\<rparr>
    \<and> (\<exists>plan. t = s\<lparr>rc_pending := Some \<lparr>pa_sequence = rc_records_seen s, pa_document = document, pa_plan = plan\<rparr>\<rparr>)"
proof (cases "rc_first_refusal s")
  case None
  have "refused fault s \<noteq> (Ok token, t)" for fault by (cases fault) simp_all
  then show ?thesis using assms None by (cases "bindR decoded (engine_plan env s line)") (auto simp: admit_def)
qed (use assms in \<open>simp add: admit_def\<close>)

text \<open>What an admitted record leaves: one more record seen, and pending under the capability that was returned.\<close>

definition admitted :: "('m, 'a) runtime_contract \<Rightarrow> string \<Rightarrow> admission_token \<Rightarrow> ('m, 'a) runtime_contract \<Rightarrow> bool" where
  "admitted s bytes token t \<longleftrightarrow> rc_pending s = None \<and> rc_first_refusal s = None \<and> rc_prefix t = rc_prefix s \<and> rc_identity t = rc_identity s
     \<and> rc_first_refusal t = None \<and> unat (rc_records_seen t) = unat (rc_records_seen s) + 1
     \<and> token = \<lparr>tk_owner = rc_identity s, tk_sequence = Some (rc_records_seen t)\<rparr>
     \<and> (\<exists>pending. rc_pending t = Some pending \<and> pa_sequence pending = rc_records_seen t \<and> doc_source (pa_document pending) = bytes)"

lemma prepare_Ok:
  assumes prepare: "prepare env s document line = (Ok token, t)"
  shows "admitted s (doc_source document) token t"
proof -
  have pending: "rc_pending s = None" using prepare by (auto simp: prepare_def latched_def split: if_splits)
  obtain s1 where s1: "count_record s = Ok s1" using prepare pending by (cases "count_record s") (auto simp: prepare_def)
  obtain ri s2 where i: "identify (en_contract_sha256 env) s1 (document_tree document) line = (ri, s2)" by fastforce
  have never: "refused fault u \<noteq> (Ok token, t)" for fault u by (cases fault) simp_all
  have "is_ok ri" using prepare pending s1 i never by (cases ri; cases "count_unaccounted s2") (auto simp: prepare_def)
  then obtain u where ri: "ri = Ok u" by (auto simp: is_ok_iff)
  let ?decoded = "decoded_record_decode (en_contract env) (document_tree document) (rc_operations s2) line"
  obtain s3 where s3: "account s2 (document_tree document) line ?decoded = Ok s3" "admit env s3 document line ?decoded = (Ok token, t)"
    using prepare pending s1 i ri
    by (cases "account s2 (document_tree document) line ?decoded") (auto simp: prepare_def Let_def)
  show ?thesis
    using admit_Ok [OF s3(2)] account_same [OF s3(1)] identify_same [OF i] count_record_Ok [OF s1] pending
    by (auto simp: admitted_def same_certified_def)
qed

lemma prepare_utf8_Ok:
  assumes "prepare_utf8 env s bytes line = (Ok token, t)"
  shows "admitted s bytes token t"
proof -
  have pending: "rc_pending s = None" using assms by (auto simp: prepare_utf8_def latched_def split: if_splits)
  then obtain document where d: "document_decode bytes (rc_json_limits s) = Ok document" "relatch (prepare env s document line) = (Ok token, t)"
    using assms by (cases "document_decode bytes (rc_json_limits s)")
      (auto simp: prepare_utf8_def split: contract_fault.splits prod.splits)
  then have "prepare env s document line = (Ok token, t)" by (auto simp: relatch_def split: prod.splits result.splits contract_fault.splits)
  then show ?thesis using prepare_Ok document_decode_source [OF d(1)] by blast
qed

text \<open>What every other record and every gap leaves: nothing certified changes, no refusal is lifted.\<close>

definition only_observed :: "('m, 'a) runtime_contract \<Rightarrow> ('m, 'a) runtime_contract \<Rightarrow> bool" where
  "only_observed s t \<longleftrightarrow> same_certified s t \<and> unat (rc_records_seen s) \<le> unat (rc_records_seen t)
     \<and> (\<forall>e. rc_first_refusal s = Some e \<longrightarrow> rc_first_refusal t = Some e)"

lemma only_observed_refl [simp]: "only_observed s s"
  by (simp add: only_observed_def)

lemma only_observed_trans: "only_observed s t \<Longrightarrow> only_observed t u \<Longrightarrow> only_observed s u"
  using same_certified_trans [of s t u] by (simp add: only_observed_def)

lemma latch_refused [simp]: "rc_first_refusal s = Some e \<Longrightarrow> rc_first_refusal (latch e' s) = Some e"
  by (simp add: latch_def)

lemma only_observed_latch: "only_observed s t \<Longrightarrow> only_observed s (latch e t)"
  using same_certified_trans [of s t "latch e t"] by (simp add: only_observed_def)

lemma only_observed_record: "count_record s = Ok t \<Longrightarrow> only_observed s t"
  using count_record_Ok [of s t] by (simp add: only_observed_def)

lemma only_observed_unaccounted: "count_unaccounted s = Ok t \<Longrightarrow> only_observed s t"
  using count_unaccounted_Ok [of s t] by (simp add: only_observed_def)

lemma only_observed_identify: "identify sha s v line = (r, t) \<Longrightarrow> only_observed s t"
  using identify_same [of sha s v line r t] by (simp add: only_observed_def)

lemma only_observed_account: "account s v line decoded = Ok t \<Longrightarrow> only_observed s t"
  using account_same [of s v line decoded t] by (simp add: only_observed_def)

lemma only_observed_refused: "refused fault t = (r, u) \<Longrightarrow> only_observed s t \<Longrightarrow> only_observed s u"
  by (cases fault) (auto simp: only_observed_latch)

lemma only_observed_relatch: "relatch (r, t) = (r', u) \<Longrightarrow> only_observed s t \<Longrightarrow> only_observed s u"
  by (auto simp: relatch_def only_observed_latch split: result.splits contract_fault.splits)

lemma admit_Err:
  assumes "admit env s document line decoded = (Err fault, t)"
  shows "only_observed s t"
proof (cases "rc_first_refusal s")
  case None
  then show ?thesis using assms only_observed_refused [of _ s "Err fault" t s]
    by (cases "bindR decoded (engine_plan env s line)") (auto simp: admit_def)
qed (use assms in \<open>simp add: admit_def\<close>)

lemma prepare_Err:
  assumes prepare: "prepare env s document line = (Err fault, t)"
  shows "only_observed s t"
proof (cases "rc_pending s = None")
  case False
  then show ?thesis using assms by (auto simp: prepare_def latched_def only_observed_latch)
next
  case pending: True
  show ?thesis
  proof (cases "count_record s")
    case (Err fault)
    then show ?thesis using assms pending by (simp add: prepare_def)
  next
    case s1: (Ok s1)
    obtain ri s2 where i: "identify (en_contract_sha256 env) s1 (document_tree document) line = (ri, s2)" by fastforce
    note s2 = only_observed_trans [OF only_observed_record [OF s1] only_observed_identify [OF i]]
    show ?thesis
    proof (cases ri)
      case ri: (Err fault')
      show ?thesis
      proof (cases "count_unaccounted s2")
        case (Ok s3)
        then have "refused fault' s3 = (Err fault :: admission_token contract_result, t)" using prepare pending s1 i ri by (simp add: prepare_def)
        from only_observed_refused [OF this only_observed_trans [OF s2 only_observed_unaccounted [OF Ok]]] show ?thesis .
      qed (use s2 prepare pending s1 i ri in \<open>auto simp: prepare_def\<close>)
    next
      case ri: (Ok u)
      let ?decoded = "decoded_record_decode (en_contract env) (document_tree document) (rc_operations s2) line"
      show ?thesis
      proof (cases "account s2 (document_tree document) line ?decoded")
        case (Ok s3)
        then have "admit env s3 document line ?decoded = (Err fault, t)" using prepare pending s1 i ri by (simp add: prepare_def Let_def)
        from only_observed_trans [OF only_observed_trans [OF s2 only_observed_account [OF Ok]] admit_Err [OF this]] show ?thesis .
      qed (use s2 prepare pending s1 i ri in \<open>auto simp: prepare_def Let_def\<close>)
    qed
  qed
qed

lemma observe_gap_only:
  assumes "observe_gap cause s = (r, t)"
  shows "only_observed s t"
proof (cases "bindR (count_record s) count_unaccounted")
  case (Ok u)
  then obtain s1 where "count_record s = Ok s1" "count_unaccounted s1 = Ok u" by auto
  then have "only_observed s u" using only_observed_record only_observed_unaccounted only_observed_trans by blast
  moreover have "t = latch cause u" using assms unfolding observe_gap_def Ok by simp
  ultimately show ?thesis by (simp add: only_observed_latch)
next
  case (Err fault)
  then have "refused fault (latch cause s) = (r, t)" using assms by (simp add: observe_gap_def)
  then show ?thesis using only_observed_refused only_observed_latch only_observed_refl by blast
qed

lemma prepare_utf8_Err:
  assumes prepare: "prepare_utf8 env s bytes line = (Err fault, t)"
  shows "only_observed s t"
proof (cases "rc_pending s = None")
  case False
  then show ?thesis using assms by (auto simp: prepare_utf8_def latched_def only_observed_latch)
next
  case pending: True
  show ?thesis
  proof (cases "document_decode bytes (rc_json_limits s)")
    case (Ok document)
    obtain r' u where u: "prepare env s document line = (r', u)" by fastforce
    have "relatch (r', u) = (Err fault, t)" using Ok pending prepare u by (simp add: prepare_utf8_def)
    moreover from this have "r' = Err fault" by (simp add: relatch_def)
    ultimately show ?thesis using only_observed_relatch prepare_Err u by blast
  next
    case (Err cause)
    show ?thesis
    proof (cases "decode_failure cause line")
      case (Fault f)
      obtain counted u where u: "observe_gap f s = (counted, u)" by fastforce
      then have "t = u" using Err pending prepare Fault by (auto simp: prepare_utf8_def)
      then show ?thesis using observe_gap_only [OF u] by simp
    qed (use Err pending prepare in \<open>auto simp: prepare_utf8_def\<close>)
  qed
qed

lemma prepare_utf8_refused:
  assumes "prepare_utf8 env s bytes line = (r, t)" and "rc_first_refusal s = Some e"
  shows "\<not> is_ok r \<and> only_observed s t"
  using assms prepare_utf8_Ok [of env s bytes line _ t] prepare_utf8_Err [of env s bytes line _ t] by (cases r) (auto simp: admitted_def)

section \<open>A refusal is final\<close>

lemma runtime_step_frozen:
  assumes "runtime_step env s call t" and "rc_first_refusal s = Some e"
  shows "rc_first_refusal t = Some e \<and> same_certified (s\<lparr>rc_pending := None\<rparr>) (t\<lparr>rc_pending := None\<rparr>)"
proof -
  have same: ?thesis if "only_observed s t"
    using that assms(2) by (simp add: only_observed_def same_certified_def)
  show ?thesis using assms(1)
  proof cases
    case (prepared bytes line r)
    then show ?thesis using prepare_utf8_refused [OF _ assms(2)] same by blast
  next
    case (gap cause r)
    then show ?thesis using observe_gap_only same by blast
  next
    case (committed token spent)
    then show ?thesis using assms(2) by (auto elim: commit_Ok)
  next
    case (rejected token cause spent)
    then show ?thesis using assms(2) by (auto simp: latch_def same_certified_def dest!: reject_Ok)
  qed
qed

lemma runtime_run_frozen:
  "runtime_run env s calls t \<Longrightarrow> rc_first_refusal s = Some e \<Longrightarrow>
    rc_first_refusal t = Some e \<and> same_certified (s\<lparr>rc_pending := None\<rparr>) (t\<lparr>rc_pending := None\<rparr>)"
proof (induction rule: runtime_run.induct)
  case (step calls t call u)
  then show ?case using runtime_step_frozen [of env t call u e] same_certified_trans by blast
qed simp

text \<open>
  C2: once an owner has refused its stream, nothing changes that: after any further calls the refusal is the same, the certified
  prefix, the scopes, the tools and the requests are as they were, the final answer is that refusal, and neither a commit
  nor another record is admitted.
\<close>

theorem refusal_is_final:
  assumes "rc_first_refusal s = Some e" and "runtime_run env s calls t"
  shows "rc_first_refusal t = Some e \<and> rc_prefix t = rc_prefix s \<and> rc_scope_states t = rc_scope_states s
    \<and> rc_tool_uses t = rc_tool_uses s \<and> rc_requests t = rc_requests s \<and> runtime_finish env t = Err (Fault e)
    \<and> (\<forall>token. \<not> is_ok (commit env t token)) \<and> (\<forall>bytes line. \<not> is_ok (fst (prepare_utf8 env t bytes line)))"
proof -
  have t: "rc_first_refusal t = Some e" "same_certified (s\<lparr>rc_pending := None\<rparr>) (t\<lparr>rc_pending := None\<rparr>)"
    using runtime_run_frozen [OF assms(2,1)] by auto
  have "\<not> is_ok (commit env t token)" for token
    using t(1) by (cases "check_token t token") (simp_all add: commit_def)
  moreover have "\<not> is_ok (fst (prepare_utf8 env t bytes line))" for bytes line
    using prepare_utf8_refused [OF _ t(1), of env bytes line] by (cases "prepare_utf8 env t bytes line") simp
  ultimately show ?thesis using t by (simp add: same_certified_def runtime_finish_def)
qed

section \<open>The owner never panics on what it admitted\<close>

lemma mapR_total: "(\<And>x. x \<in> set xs \<Longrightarrow> \<exists>y. f x = Ok y) \<Longrightarrow> \<exists>ys. mapR f xs = Ok ys"
proof (induction xs)
  case (Cons x xs)
  then obtain ys where "mapR f xs = Ok ys" by auto
  moreover obtain y where "f x = Ok y" using Cons.prems [of x] by auto
  ultimately show ?case by simp
qed simp

lemma scope_answers:
  assumes "rows_ok states rows tools"
  shows "\<exists>scopes. mapR (scope_answer tools) (drop 1 states) = Ok scopes"
proof -
  have "\<exists>a. scope_answer tools state = Ok a" if "state \<in> set (drop 1 states)" for state
  proof -
    obtain k where "k < length (drop 1 states)" "drop 1 states ! k = state" using \<open>state \<in> set (drop 1 states)\<close> by (auto simp: in_set_conv_nth)
    then have "Suc k < length states" "states ! Suc k = state" by auto
    moreover have "\<forall>row. 0 < row \<and> row < length states \<longrightarrow> (\<exists>i. sc_id (states ! row) = Some i \<and> i \<in> tool_keys tools)"
      using assms unfolding rows_ok_def by blast
    ultimately obtain i where "sc_id state = Some i" "i \<in> tool_keys tools" by (metis zero_less_Suc)
    then show ?thesis by (auto simp: scope_answer_def tool_keys_iff)
  qed
  then show ?thesis by (rule mapR_total)
qed

lemma answer_total:
  assumes "runtime_ok s" "rc_prefix s \<noteq> 0" "sc_terminal (rc_scope_states s ! 0) = Some ending"
  shows "\<exists>result. answer ops s ending = Ok result"
proof -
  have "rows_ok (rc_scope_states s) (rc_scope_rows s) (rc_tool_uses s)" using assms(1) by (simp add: runtime_ok_def structure_ok_def)
  moreover have "tm_response ending \<noteq> None" "tm_duration_ms ending \<noteq> None" "tm_api_duration_ms ending \<noteq> None" "rc_session_id s \<noteq> None"
    using assms by (auto simp: runtime_ok_def structure_ok_def complete_ending_def session_ok_def)
  ultimately show ?thesis using scope_answers by (auto simp: answer_def)
qed

lemma runtime_finish_no_panic: "runtime_ok s \<Longrightarrow> runtime_finish env s \<noteq> Err ContractPanic"
proof -
  assume ok: "runtime_ok s"
  then obtain main children where states: "rc_scope_states s = main # children"
    by (cases "rc_scope_states s") (auto simp: runtime_ok_def structure_ok_def rows_ok_def)
  then have "\<exists>result. answer (en_requests env) s ending = Ok result" if "rc_prefix s \<noteq> 0" "sc_terminal main = Some ending" for ending
    using answer_total [OF ok] that by simp
  then show ?thesis using states by (auto simp: runtime_finish_def bindR_Err_iff split: option.split)
qed

text \<open>
  C3: in every state a run reaches, the final answer does not panic, and the commit of a pending record succeeds whenever the
  requests it commits are accepted: new rows belong to child scopes, planned returns name issued tools, child scopes have
  issued owners, and an admitted root result is complete.
\<close>

theorem admitted_stream_never_panics:
  assumes "runtime_run env (runtime_new requests identity manifest json operations operator) calls s"
  shows "runtime_finish env s \<noteq> Err ContractPanic \<and>
    (\<forall>token pending m m'. check_token s token = Ok pending \<and> rc_first_refusal s = None
       \<and> commit_evidence (en_requests env) (pa_plan pending) (rc_requests s) = Ok m
       \<and> commit_requests (en_requests env) (pa_plan pending) m = Ok m' \<longrightarrow> is_ok (commit env s token))"
proof -
  have ok: "runtime_ok s" by (rule reachable_ok [OF assms])
  have "is_ok (commit env s token)" if "check_token s token = Ok pending" "rc_first_refusal s = None"
    "commit_evidence (en_requests env) (pa_plan pending) (rc_requests s) = Ok m"
    "commit_requests (en_requests env) (pa_plan pending) m = Ok m'" for token pending m m'
    using commit_plan_ok [OF ok _ that(2,3,4)] that(1,2) by (auto simp: commit_def check_token_Ok_iff is_ok_iff)
  then show ?thesis using runtime_finish_no_panic [OF ok] by blast
qed

text \<open>
  C5: in every state a run reaches, the walk from a scope up to the root ends: it takes at most one step for every issued tool,
  whatever the record names, and it ends with acceptance or a refusal.
\<close>

theorem ancestry_walk_ends:
  assumes "runtime_run env (runtime_new requests identity manifest json operations operator) calls s"
    and "length (rc_tool_uses s) < fuel"
  shows "ensure_ancestry s scope line = ancestry_loop fuel s line scope \<and> ensure_ancestry s scope line \<noteq> Err ContractPanic"
proof -
  have "structure_ok s" using reachable_ok [OF assms(1)] by (simp add: runtime_ok_def)
  then have "descends (rc_tool_uses s)" "rows_ok (rc_scope_states s) (rc_scope_rows s) (rc_tool_uses s)"
    by (auto simp: structure_ok_def)
  then have "ensure_ancestry s scope line = ancestry_loop fuel s line scope" "no_panic (ensure_ancestry s scope line)"
    using ancestry_fuel [OF _ assms(2)] by blast+
  then show ?thesis unfolding ensures_iff by blast
qed

section \<open>A certificate covers every record\<close>

lemma relatch_latched: "relatch (r, s) = (Err (Fault e), t) \<Longrightarrow> rc_first_refusal t \<noteq> None"
  by (auto simp: relatch_def latch_def split: result.splits contract_fault.splits)

lemma observe_gap_latched: "observe_gap cause s = (r, t) \<Longrightarrow> r \<noteq> Err ContractPanic \<Longrightarrow> rc_first_refusal t \<noteq> None"
proof (cases "bindR (count_record s) count_unaccounted")
  case (Err fault)
  then show "observe_gap cause s = (r, t) \<Longrightarrow> r \<noteq> Err ContractPanic \<Longrightarrow> ?thesis"
    by (cases fault) (auto simp: observe_gap_def latch_def)
qed (auto simp: observe_gap_def latch_def split: result.splits)

lemma prepare_utf8_latched:
  assumes prepare: "prepare_utf8 env s bytes line = (Err (Fault e), t)"
  shows "rc_first_refusal t \<noteq> None"
proof (cases "rc_pending s = None")
  case False
  then show ?thesis using assms by (auto simp: prepare_utf8_def latched_def latch_def)
next
  case pending: True
  show ?thesis
  proof (cases "document_decode bytes (rc_json_limits s)")
    case (Ok document)
    obtain r' u where u: "prepare env s document line = (r', u)" by fastforce
    then show ?thesis using Ok pending prepare relatch_latched [of r' u e t] by (simp add: prepare_utf8_def)
  next
    case (Err cause)
    then obtain f where f: "decode_failure cause line = Fault f" using pending prepare
      by (cases "decode_failure cause line") (auto simp: prepare_utf8_def)
    obtain counted u where u: "observe_gap f s = (counted, u)" by fastforce
    then have "t = u" "counted \<noteq> Err ContractPanic" using Err f pending prepare by (auto simp: prepare_utf8_def)
    then show ?thesis using observe_gap_latched [OF u] by simp
  qed
qed

lemma commit_advances:
  assumes "commit env s token = Ok (t, spent)" and "runtime_ok s"
  shows "unat (rc_prefix t) = unat (rc_prefix s) + 1 \<and> rc_records_seen t = rc_records_seen s \<and> rc_pending t = None
    \<and> rc_first_refusal s = None \<and> rc_identity t = rc_identity s"
proof -
  obtain pending where p: "check_token s token = Ok pending" "rc_first_refusal s = None"
    "commit_plan (en_requests env) (pa_plan pending) s = Ok t"
    using assms(1) by (elim commit_Ok)
  have "rc_pending s = Some pending" using p(1) by (simp add: check_token_Ok_iff)
  then have "unat (ap_prefix (pa_plan pending)) = unat (rc_prefix s) + 1"
    using assms(2) by (auto simp: runtime_ok_def pending_ok_def)
  then show ?thesis using p(2,3) by (auto simp: commit_plan_def)
qed

definition call_counts :: "runtime_call list \<Rightarrow> nat \<times> nat \<times> nat" where
  "call_counts calls = (length (filter is_prepare calls), length (filter is_commit calls), length calls)"

lemma unrefused_counts:
  assumes "runtime_run env s calls t" and "runtime_ok s" "rc_records_seen s = 0" "rc_prefix s = 0" and "rc_first_refusal t = None"
  shows "call_counts calls = (unat (rc_records_seen t), unat (rc_prefix t), unat (rc_records_seen t) + unat (rc_prefix t))"
  using assms
proof (induction rule: runtime_run.induct)
  case start
  then show ?case by (simp add: call_counts_def)
next
  case (step calls t call u)
  have open_t: "rc_first_refusal t = None" using runtime_step_frozen [OF step.hyps(2)] step.prems(4) by (cases "rc_first_refusal t") auto
  note IH = step.IH [OF step.prems(1-3) open_t]
  have ok: "runtime_ok t" by (rule runtime_run_ok [OF step.hyps(1) step.prems(1)])
  from step.hyps(2) show ?case
  proof cases
    case (prepared bytes line r)
    obtain token where "r = Ok token"
      using prepare_utf8_latched [of env t bytes line _ u] prepared step.prems(4) by (cases r; cases "(case r of Err f \<Rightarrow> f)") auto
    then have "admitted t bytes token u" using prepare_utf8_Ok prepared by blast
    then show ?thesis using IH prepared by (simp add: call_counts_def admitted_def)
  next
    case (gap cause r)
    then show ?thesis using observe_gap_latched step.prems(4) by blast
  next
    case (committed token spent)
    then show ?thesis using IH commit_advances [OF committed(2) ok] by (simp add: call_counts_def)
  next
    case (rejected token cause spent)
    then show ?thesis using reject_Ok [OF rejected(2)] step.prems(4) by (simp add: latch_def)
  qed
qed

lemma runtime_finish_open: "runtime_finish env s = Ok result \<Longrightarrow> rc_first_refusal s = None \<and> rc_pending s = None \<and> rc_owed s = None"
  by (auto simp: runtime_finish_def split: option.splits if_splits)

text \<open>
  C1: a final answer certifies the whole stream: when a run ends in one, every record presented was admitted and committed, in
  turn, and there was nothing else: as many records were prepared as are certified, as many commits were made, and no
  gap was observed and no record rejected.
\<close>

theorem certificate_covers_every_record:
  assumes "runtime_run env (runtime_new requests identity manifest json operations operator) calls s"
    and "runtime_finish env s = Ok result"
  shows "rc_records_seen s = rc_prefix s \<and> length (filter is_prepare calls) = unat (rc_prefix s)
    \<and> length (filter is_commit calls) = unat (rc_prefix s) \<and> list_all (\<lambda>call. is_prepare call \<or> is_commit call) calls"
proof -
  let ?new = "runtime_new requests identity manifest json operations operator"
  have "call_counts calls = (unat (rc_records_seen s), unat (rc_prefix s), unat (rc_records_seen s) + unat (rc_prefix s))"
    using unrefused_counts [OF assms(1) runtime_new_ok] runtime_finish_open [OF assms(2)] by (simp add: runtime_new_def)
  moreover have "unat (rc_records_seen s) = unat (rc_prefix s)"
    using reachable_ok [OF assms(1)] runtime_finish_open [OF assms(2)] by (simp add: runtime_ok_def counts_ok_def)
  ultimately have counts: "length (filter is_prepare calls) = unat (rc_prefix s)" "length (filter is_commit calls) = unat (rc_prefix s)"
      "length calls = 2 * unat (rc_prefix s)" "rc_records_seen s = rc_prefix s"
    by (simp_all add: call_counts_def word_unat_eq_iff)
  have "length (filter is_prepare calls) + length (filter is_commit calls) + length (filter (\<lambda>call. \<not> is_prepare call \<and> \<not> is_commit call) calls)
      = length calls"
  proof (induction calls)
    case (Cons call calls)
    then show ?case by (cases call) auto
  qed simp
  with counts have "filter (\<lambda>call. \<not> is_prepare call \<and> \<not> is_commit call) calls = []" by simp
  then show ?thesis using counts by (auto simp: list_all_iff filter_empty_conv)
qed

section \<open>Capabilities\<close>

text \<open>No capability of a sequence number up to \<open>n\<close> fits the state, now or later.\<close>

definition spent_up_to :: "nat \<Rightarrow> ('m, 'a) runtime_contract \<Rightarrow> bool" where
  "spent_up_to n s \<longleftrightarrow> n \<le> unat (rc_records_seen s) \<and> (\<forall>pending. rc_pending s = Some pending \<longrightarrow> n < unat (pa_sequence pending))"

lemma only_observed_spent: "only_observed s t \<Longrightarrow> spent_up_to n s \<Longrightarrow> spent_up_to n t"
  by (auto simp: only_observed_def same_certified_def spent_up_to_def)

lemma runtime_step_spent:
  assumes "runtime_step env s call t" and "spent_up_to n s"
  shows "spent_up_to n t"
  using assms(1)
proof cases
  case (prepared bytes line r)
  then show ?thesis using prepare_utf8_Ok [of env s bytes line _ t] prepare_utf8_Err [of env s bytes line _ t] only_observed_spent assms(2)
    by (cases r) (auto simp: admitted_def spent_up_to_def)
next
  case (gap cause r)
  then show ?thesis using observe_gap_only only_observed_spent assms(2) by blast
next
  case (committed token spent)
  then show ?thesis using assms(2) by (auto simp: spent_up_to_def commit_plan_def elim!: commit_Ok)
next
  case (rejected token cause spent)
  then show ?thesis using assms(2) by (auto simp: spent_up_to_def latch_def dest!: reject_Ok)
qed

lemma runtime_run_spent: "runtime_run env s calls t \<Longrightarrow> spent_up_to n s \<Longrightarrow> spent_up_to n t"
  by (induction rule: runtime_run.induct) (auto dest: runtime_step_spent)

lemma spent_token: "spent_up_to n s \<Longrightarrow> tk_sequence token = Some m \<Longrightarrow> unat m \<le> n \<Longrightarrow> \<not> is_ok (check_token s token)"
  by (auto simp: is_ok_iff check_token_Ok_iff spent_up_to_def)

lemma settled_spent:
  assumes "admitted s bytes token t" and "commit env t token = Ok (u, spent) \<or> reject_pending t token cause = Ok (u, spent)"
  shows "spent_up_to (unat (rc_records_seen t)) u \<and> tk_sequence spent = None"
  using assms(2)
proof
  assume "commit env t token = Ok (u, spent)"
  then show ?thesis by (elim commit_Ok) (auto simp: spent_up_to_def commit_plan_def)
next
  assume "reject_pending t token cause = Ok (u, spent)"
  then show ?thesis by (auto simp: reject_pending_def spent_up_to_def latch_def)
qed

text \<open>
  C4: an admitted record is held by one capability and that capability is used once: it alone fits the state, it reads exactly
  the bytes that were presented, and once it has committed or rejected its record neither it nor what is left of it fits
  any state that later calls reach.
\<close>

theorem capability_is_single_use:
  assumes prepare: "prepare_utf8 env s bytes line = (Ok token, t)"
  shows "pending_bytes t token = Ok bytes \<and> (\<forall>other. is_ok (check_token t other) \<longrightarrow> other = token)
    \<and> (\<forall>cause u spent calls v. (commit env t token = Ok (u, spent) \<or> reject_pending t token cause = Ok (u, spent)) \<and> runtime_run env u calls v
        \<longrightarrow> \<not> is_ok (check_token v token) \<and> \<not> is_ok (check_token v spent))"
proof -
  have admitted: "admitted s bytes token t" by (rule prepare_utf8_Ok [OF prepare])
  then obtain pending where p: "rc_pending t = Some pending" "doc_source (pa_document pending) = bytes"
      "pa_sequence pending = rc_records_seen t" "token = \<lparr>tk_owner = rc_identity t, tk_sequence = Some (pa_sequence pending)\<rparr>"
    by (auto simp: admitted_def)
  have "\<not> is_ok (check_token v token) \<and> \<not> is_ok (check_token v spent)"
    if "commit env t token = Ok (u, spent) \<or> reject_pending t token cause = Ok (u, spent)" "runtime_run env u calls v" for cause u spent calls v
  proof -
    have "spent_up_to (unat (rc_records_seen t)) v" "tk_sequence spent = None"
      using settled_spent [OF admitted that(1)] runtime_run_spent [OF that(2)] by auto
    then show ?thesis using spent_token [of _ v token] p(3,4) by (auto simp: is_ok_iff check_token_Ok_iff)
  qed
  moreover have "pending_bytes t token = Ok bytes" using p by (simp add: pending_bytes_def check_token_def)
  moreover have "other = token" if "is_ok (check_token t other)" for other
    using that p by (cases other) (auto simp: is_ok_iff check_token_Ok_iff)
  ultimately show ?thesis by blast
qed

end
