(* ===== verification/Runtime_Observed.thy ===== *)
theory Runtime_Observed
  imports Runtime_Certificate
begin

text \<open>
  What the owner of a stream reports of the physical requests: the totals it keeps by observation are the counts of the requests
  it has seen, whether or not their records were certified.
\<close>

section \<open>Observed requests\<close>

text \<open>The observed chat requests, and those among them whose outcome is still owed.\<close>

definition chat_requests :: "('m, 'a) runtime_contract \<Rightarrow> string set" where
  "chat_requests s = dom (rc_observed_requests s) - rc_observed_utility_requests s"

definition owed_outcomes :: "('m, 'a) runtime_contract \<Rightarrow> string set" where
  "owed_outcomes s = {i \<in> chat_requests s. rc_observed_requests s i = Some False}"

definition observed_ok :: "('m, 'a) runtime_contract \<Rightarrow> bool" where
  "observed_ok s \<longleftrightarrow> finite (dom (rc_observed_requests s)) \<and> rc_observed_utility_requests s \<subseteq> dom (rc_observed_requests s)
     \<and> unat (us_requests (ob_usage (rc_observations s))) = card (chat_requests s)
     \<and> unat (us_unfinalized_requests (ob_usage (rc_observations s))) = card (owed_outcomes s)"

text \<open>The fields that observation reads and writes; no other operation touches them.\<close>

definition observed_part :: "('m, 'a) runtime_contract \<Rightarrow> (string \<rightharpoonup> bool) \<times> string set \<times> usage_summary" where
  "observed_part s = (rc_observed_requests s, rc_observed_utility_requests s, ob_usage (rc_observations s))"

lemma observed_ok_part: "observed_part t = observed_part s \<Longrightarrow> observed_ok s \<Longrightarrow> observed_ok t"
  by (simp add: observed_part_def observed_ok_def chat_requests_def owed_outcomes_def)

lemma record_observation_parts:
  "rc_observations (record_observation s scope obs) = on_observations obs"
  "rc_observed_utility_requests (record_observation s scope obs) =
     (case on_utility_request obs of Some i \<Rightarrow> Set.insert i (rc_observed_utility_requests s) | None \<Rightarrow> rc_observed_utility_requests s)"
  "rc_observed_requests (record_observation s scope obs) =
     (let requests = (case on_request obs of Some i \<Rightarrow> (rc_observed_requests s)(i \<mapsto> False) | None \<Rightarrow> rc_observed_requests s)
      in case on_outcome obs of Some i \<Rightarrow> requests(i \<mapsto> True) | None \<Rightarrow> requests)"
  by (simp_all add: record_observation_def)

text \<open>The four ways a record is observed.\<close>

inductive observes :: "('m, 'a) runtime_contract \<Rightarrow> observation \<Rightarrow> bool" for s where
  plain: "on_request obs = None \<Longrightarrow> on_utility_request obs = None \<Longrightarrow> on_outcome obs = None \<Longrightarrow>
    ob_usage (on_observations obs) = ob_usage (rc_observations s) \<Longrightarrow> observes s obs"
| chat: "on_request obs = Some i \<Longrightarrow> on_utility_request obs = None \<Longrightarrow> on_outcome obs = None \<Longrightarrow> rc_observed_requests s i = None \<Longrightarrow>
    admit_request (ob_usage (rc_observations s)) = Ok (ob_usage (on_observations obs)) \<Longrightarrow> observes s obs"
| utility: "on_request obs = Some i \<Longrightarrow> on_utility_request obs = Some i \<Longrightarrow> on_outcome obs = None \<Longrightarrow> rc_observed_requests s i = None \<Longrightarrow>
    ob_usage (on_observations obs) = ob_usage (rc_observations s) \<Longrightarrow> observes s obs"
| outcome: "on_request obs = None \<Longrightarrow> on_utility_request obs = None \<Longrightarrow> on_outcome obs = Some i \<Longrightarrow> rc_observed_requests s i = Some False \<Longrightarrow>
    (if i \<in> rc_observed_utility_requests s then ob_usage (on_observations obs) = ob_usage (rc_observations s)
     else \<exists>served. finalize (ob_usage (rc_observations s)) served = Ok (ob_usage (on_observations obs))) \<Longrightarrow> observes s obs"

lemma observe_request_observes: "observe_request s v line = Ok obs \<Longrightarrow> observes s obs"
  by (auto simp: observe_request_def split: if_splits intro: observes.chat)

lemma observe_utility_observes: "observe_utility_request s v line = Ok obs \<Longrightarrow> observes s obs"
  by (auto simp: observe_utility_request_def split: if_splits intro: observes.utility)

lemma observe_outcome_observes:
  assumes "observe_outcome s i event line = Ok obs" and "rc_observed_requests s i \<noteq> None"
  shows "observes s obs"
proof -
  let ?usage = "ob_usage (rc_observations s)"
  have owed: "rc_observed_requests s i \<noteq> Some True" using assms(1) by (auto simp: observe_outcome_def)
  then obtain usage ob where obs: "(plain_observation ob)\<lparr>on_outcome := Some i\<rparr> = obs"
    and ob: "(if i \<in> rc_observed_utility_requests s then Ok (rc_observations s)
       else bindR (if is_null usage then Ok None else map_ok Some (served_usage_read usage line)) (\<lambda>served.
            bindR (finalize ?usage served) (\<lambda>usage. Ok ((rc_observations s)\<lparr>ob_usage := usage\<rparr>)))) = Ok ob"
    using assms(1) unfolding observe_outcome_def by (simp only: owed if_False bindR_Ok_iff [of "field event ''served_usage'' line"]
      bindR_Ok_iff [where f = "\<lambda>ob. Ok ((plain_observation ob)\<lparr>on_outcome := Some i\<rparr>)"] result.inject) blast
  have "if i \<in> rc_observed_utility_requests s then ob_usage ob = ?usage else \<exists>served. finalize ?usage served = Ok (ob_usage ob)"
  proof (cases "i \<in> rc_observed_utility_requests s")
    case False
    with ob obtain served u where "finalize ?usage served = Ok u" "ob = (rc_observations s)\<lparr>ob_usage := u\<rparr>" by auto
    with False show ?thesis by auto
  qed (use ob in simp)
  with assms(2) obs [symmetric] owed show ?thesis by (intro observes.outcome [where i = i]) auto
qed

lemma observe_response_observes: "observe_response s v line = Ok obs \<Longrightarrow> observes s obs"
  by (auto simp: observe_response_def split: if_splits intro: observes.plain dest: observe_outcome_observes)

lemma observe_record_observes:
  assumes "observe_record s v scope line = Ok obs"
  shows "observes s obs"
proof -
  have "observes s obs" if "observe_stream_start s v line = Ok obs \<or> observe_result s v line = Ok obs \<or> obs = plain_observation (rc_observations s)"
    using that by (auto simp: observe_stream_start_def observe_result_def split: if_splits intro!: observes.plain)
  moreover obtain type where
    "(if type = ''system'' \<and> Option.bind (jget v ''subtype'') as_str = Some ''stream_start'' then observe_stream_start s v line
       else if type = ''model_request'' then observe_request s v line
       else if type = ''model_utility_request'' then observe_utility_request s v line
       else if type = ''model_response'' then observe_response s v line
       else if type = ''result'' \<and> scope = None then observe_result s v line
       else Ok (plain_observation (rc_observations s))) = Ok obs"
    using assms unfolding observe_record_def bindR_Ok_iff by blast
  ultimately show ?thesis
    by (simp only: split: if_split_asm)
       (blast intro: observe_request_observes observe_utility_observes observe_response_observes)+
qed

lemma observes_ok:
  assumes "observes s obs" and ok: "observed_ok s"
  shows "observed_ok (record_observation s scope obs)"
  using assms(1)
proof cases
  case plain
  then have "observed_part (record_observation s scope obs) = observed_part s" by (simp add: observed_part_def record_observation_parts)
  from observed_ok_part [OF this ok] show ?thesis .
next
  case (chat i)
  let ?t = "record_observation s scope obs"
  have "i \<notin> rc_observed_utility_requests s" using ok chat(4) by (auto simp: observed_ok_def)
  then have sets: "chat_requests ?t = Set.insert i (chat_requests s)" "owed_outcomes ?t = Set.insert i (owed_outcomes s)"
    using chat by (auto simp: chat_requests_def owed_outcomes_def record_observation_parts)
  have "i \<notin> chat_requests s" "i \<notin> owed_outcomes s" using chat(4) by (auto simp: chat_requests_def owed_outcomes_def)
  moreover have "finite (chat_requests s)" "finite (owed_outcomes s)"
    using ok by (auto simp: observed_ok_def chat_requests_def owed_outcomes_def)
  moreover have "unat (us_requests (ob_usage (on_observations obs))) = unat (us_requests (ob_usage (rc_observations s))) + 1"
    "unat (us_unfinalized_requests (ob_usage (on_observations obs))) = unat (us_unfinalized_requests (ob_usage (rc_observations s))) + 1"
    using admit_request_Ok [OF chat(5)] summary_counts.simps(1,3) by (metis (full_types))+
  ultimately show ?thesis using ok chat sets by (auto simp: observed_ok_def record_observation_parts)
next
  case (utility i)
  let ?t = "record_observation s scope obs"
  have "chat_requests ?t = chat_requests s" "owed_outcomes ?t = owed_outcomes s"
    using utility by (auto simp: chat_requests_def owed_outcomes_def record_observation_parts)
  then show ?thesis using ok utility by (auto simp: observed_ok_def record_observation_parts)
next
  case (outcome i)
  let ?t = "record_observation s scope obs"
  have sets: "chat_requests ?t = chat_requests s" "owed_outcomes ?t = owed_outcomes s - {i}"
    using outcome by (auto simp: chat_requests_def owed_outcomes_def record_observation_parts)
  show ?thesis
  proof (cases "i \<in> rc_observed_utility_requests s")
    case True
    then have "owed_outcomes s - {i} = owed_outcomes s" by (auto simp: owed_outcomes_def chat_requests_def)
    then show ?thesis using ok outcome True sets by (auto simp: observed_ok_def record_observation_parts)
  next
    case False
    then have i: "i \<in> owed_outcomes s" using outcome(4) by (auto simp: owed_outcomes_def chat_requests_def)
    have "finite (owed_outcomes s)" using ok by (auto simp: observed_ok_def owed_outcomes_def chat_requests_def)
    then have "card (owed_outcomes s) = Suc (card (owed_outcomes s - {i}))" using i by (rule card.remove)
    moreover obtain served where "finalize (ob_usage (rc_observations s)) served = Ok (ob_usage (on_observations obs))"
      using outcome(5) False by auto
    ultimately show ?thesis using ok outcome sets finalize_Ok [of "ob_usage (rc_observations s)" served]
      by (auto simp: observed_ok_def record_observation_parts all_counters optional_counts_def split: option.splits)
  qed
qed

lemma runtime_observe_ok: "runtime_observe s v line = Ok t \<Longrightarrow> observed_ok s \<Longrightarrow> observed_ok t"
proof -
  assume "runtime_observe s v line = Ok t" and ok: "observed_ok s"
  then obtain scope obs n where obs: "observe_record s v scope line = Ok obs"
    and t: "t = record_observation s scope obs \<or>
      t = record_observation s scope (obs\<lparr>on_observations := (on_observations obs)\<lparr>ob_subagent_scope_count := n\<rparr>\<rparr>)"
    by (auto simp: runtime_observe_def split: if_splits)
  let ?t = "record_observation s scope obs"
  have "observed_ok ?t" by (rule observes_ok [OF observe_record_observes [OF obs] ok])
  moreover have "observed_part t = observed_part ?t" using t by (auto simp: observed_part_def record_observation_parts)
  ultimately show ?thesis using observed_ok_part by blast
qed

lemma observed_part_frames [simp]:
  "observed_part (latch e s) = observed_part s" "observed_part (s\<lparr>rc_pending := p\<rparr>) = observed_part s"
  by (simp_all add: observed_part_def latch_def)

lemma count_record_part: "count_record s = Ok t \<Longrightarrow> observed_part t = observed_part s"
  by (auto simp: count_record_def observed_part_def)

lemma count_unaccounted_part: "count_unaccounted s = Ok t \<Longrightarrow> observed_part t = observed_part s"
  by (auto simp: count_unaccounted_def observed_part_def)

lemma identify_part: "identify sha s v line = (r, t) \<Longrightarrow> observed_part t = observed_part s"
  by (auto simp: identify_def Let_def observed_part_def split: result.splits if_splits)

lemma refused_part: "refused fault s = (r, t) \<Longrightarrow> observed_part t = observed_part s"
  by (cases fault) auto

lemma relatch_part: "relatch (r, s) = (r', t) \<Longrightarrow> observed_part t = observed_part s"
  by (auto simp: relatch_def split: result.splits contract_fault.splits)

lemma admit_part: "admit env s document line decoded = (r, t) \<Longrightarrow> observed_part t = observed_part s"
  by (auto simp: admit_def split: option.splits result.splits dest: refused_part)

lemma commit_part: "commit_plan ops p s = Ok t \<Longrightarrow> observed_part t = observed_part s"
  by (auto simp: commit_plan_def observed_part_def)

lemma account_ok: "account s v line decoded = Ok t \<Longrightarrow> observed_ok s \<Longrightarrow> observed_ok t"
  by (auto simp: account_def split: result.splits contract_fault.splits
      dest: runtime_observe_ok observed_ok_part [OF count_unaccounted_part])

lemma prepare_observed_ok:
  assumes prepare: "prepare env s document line = (r, t)" and ok: "observed_ok s"
  shows "observed_ok t"
proof (cases "rc_pending s = None")
  case False
  then show ?thesis using prepare ok observed_ok_part [of t s] by (auto simp: prepare_def latched_def)
next
  case pending: True
  show ?thesis
  proof (cases "count_record s")
    case (Err fault)
    then show ?thesis using prepare pending ok by (simp add: prepare_def)
  next
    case s1: (Ok s1)
    obtain ri s2 where i: "identify (en_contract_sha256 env) s1 (document_tree document) line = (ri, s2)" by fastforce
    have s2: "observed_ok s2" using observed_ok_part [of s2 s] ok identify_part [OF i] count_record_part [OF s1] by simp
    show ?thesis
    proof (cases ri)
      case ri: (Err fault')
      show ?thesis
      proof (cases "count_unaccounted s2")
        case (Ok s3)
        then have "refused fault' s3 = (r, t)" using prepare pending s1 i ri by (simp add: prepare_def)
        from observed_ok_part [of t s2] refused_part [OF this] count_unaccounted_part [OF Ok] s2 show ?thesis by simp
      qed (use s2 prepare pending s1 i ri in \<open>auto simp: prepare_def\<close>)
    next
      case ri: (Ok u)
      let ?decoded = "decoded_record_decode (en_contract env) (document_tree document) (rc_operations s2) line"
      show ?thesis
      proof (cases "account s2 (document_tree document) line ?decoded")
        case (Ok s3)
        then have "admit env s3 document line ?decoded = (r, t)" using prepare pending s1 i ri by (simp add: prepare_def Let_def)
        from observed_ok_part [OF admit_part [OF this] account_ok [OF Ok s2]] show ?thesis .
      qed (use s2 prepare pending s1 i ri in \<open>auto simp: prepare_def Let_def\<close>)
    qed
  qed
qed

lemma observe_gap_part: "observe_gap cause s = (r, t) \<Longrightarrow> observed_part t = observed_part s"
proof (cases "bindR (count_record s) count_unaccounted")
  case (Ok u)
  assume gap: "observe_gap cause s = (r, t)"
  from Ok obtain s1 where "count_record s = Ok s1" "count_unaccounted s1 = Ok u" by auto
  moreover have "t = latch cause u" using gap unfolding observe_gap_def Ok by simp
  ultimately show ?thesis using count_record_part count_unaccounted_part by fastforce
next
  case (Err fault)
  assume "observe_gap cause s = (r, t)"
  then have "refused fault (latch cause s) = (r, t)" using Err by (simp add: observe_gap_def)
  from refused_part [OF this] show ?thesis by simp
qed

lemma prepare_utf8_observed_ok:
  assumes prepare: "prepare_utf8 env s bytes line = (r, t)" and ok: "observed_ok s"
  shows "observed_ok t"
proof (cases "rc_pending s = None")
  case False
  then show ?thesis using prepare ok observed_ok_part [of t s] by (auto simp: prepare_utf8_def latched_def)
next
  case pending: True
  show ?thesis
  proof (cases "document_decode bytes (rc_json_limits s)")
    case (Ok document)
    obtain r' u where u: "prepare env s document line = (r', u)" by fastforce
    have "relatch (r', u) = (r, t)" using Ok pending prepare u by (simp add: prepare_utf8_def)
    from observed_ok_part [OF relatch_part [OF this] prepare_observed_ok [OF u ok]] show ?thesis .
  next
    case (Err cause)
    show ?thesis
    proof (cases "decode_failure cause line")
      case (Fault f)
      obtain counted u where u: "observe_gap f s = (counted, u)" by fastforce
      then have "t = u" using Err pending prepare Fault by (auto simp: prepare_utf8_def)
      then show ?thesis using observed_ok_part [OF observe_gap_part [OF u] ok] by simp
    qed (use Err pending prepare ok in \<open>auto simp: prepare_utf8_def\<close>)
  qed
qed

lemma runtime_step_observed_ok:
  assumes "runtime_step env s call t" and ok: "observed_ok s"
  shows "observed_ok t"
  using assms(1)
proof cases
  case (prepared bytes line r)
  then show ?thesis using prepare_utf8_observed_ok ok by blast
next
  case (gap cause r)
  then show ?thesis using observed_ok_part [OF observe_gap_part ok] by blast
next
  case (committed token spent)
  then show ?thesis using ok by (elim commit_Ok) (blast intro: observed_ok_part commit_part)
next
  case (rejected token cause spent)
  then have "observed_part t = observed_part s" using reject_Ok by fastforce
  from observed_ok_part [OF this ok] show ?thesis .
qed


end
