(* ===== verification/Session_Records.thy ===== *)
theory Session_Records
  imports Json_Value
begin

text \<open>The two records of the sample session as they stand in its stream, and the values they decode to.\<close>

abbreviation session_limits :: limits where
  "session_limits \<equiv> \<lparr>lim_bytes = 300, lim_nodes = 40, lim_depth = 4\<rparr>"

definition sample_start :: string where
  "sample_start = ''{\"type\":\"system\",\"subtype\":\"stream_start\",\"uuid\":\"a\",\"session_id\":\"s\",\"stream_contract_sha256\":\"c\",\"request_evidence_origin\":{\"journal_id\":\"j\"}}''"

definition sample_end :: string where
  "sample_end = ''{\"type\":\"result\",\"subtype\":\"e\",\"uuid\":\"b\",\"session_id\":\"s\",\"is_error\":true,\"duration_ms\":0,\"duration_api_ms\":0,\"num_turns\":0,\"usage\":{\"usage\":null,\"requests\":0,\"usageReports\":0,\"unfinalizedRequests\":0,\"unreportedUsageRequests\":0},\"permission_denials\":[],\"error\":{\"message\":\"m\"}}''"

definition sample_start_value :: jvalue where
  "sample_start_value = JObject
     [(''request_evidence_origin'', JObject [(''journal_id'', JString ''j'')]), (''session_id'', JString ''s''),
      (''stream_contract_sha256'', JString ''c''), (''subtype'', JString ''stream_start''), (''type'', JString ''system''),
      (''uuid'', JString ''a'')]"

definition sample_zero :: jvalue where
  "sample_zero = JNumber \<lparr>jn_token = ''0'', jn_value = DZero\<rparr>"

definition sample_end_value :: jvalue where
  "sample_end_value = JObject
     [(''duration_api_ms'', sample_zero), (''duration_ms'', sample_zero), (''error'', JObject [(''message'', JString ''m'')]),
      (''is_error'', JBool True), (''num_turns'', sample_zero), (''permission_denials'', JArray []), (''session_id'', JString ''s''),
      (''subtype'', JString ''e''), (''type'', JString ''result''),
      (''usage'', JObject [(''requests'', sample_zero), (''unfinalizedRequests'', sample_zero), (''unreportedUsageRequests'', sample_zero),
         (''usage'', JNull), (''usageReports'', sample_zero)]),
      (''uuid'', JString ''b'')]"

lemma sample_start_decodes: "map_ok document_tree (document_decode sample_start session_limits) = Ok sample_start_value"
  by code_simp

lemma sample_end_decodes: "map_ok document_tree (document_decode sample_end session_limits) = Ok sample_end_value"
  by code_simp

end
