(* ===== verification/Runtime_Session.thy ===== *)
theory Runtime_Session
  imports Runtime_Observed Session_Records
begin

text \<open>
  A session of two records, from the start of its stream to a certified answer, run through the whole owner: decoding, validation,
  identification, observation, planning, commit and answer. It witnesses the properties of runs.
\<close>

definition sample_requests :: "(unit, unit) model_requests" where
  "sample_requests =
     \<lparr>mr_plan = \<lambda>_ _ _ _ _. Ok (), mr_attempt = \<lambda>_. None, mr_scope = \<lambda>_. [], mr_plan_utility_request = \<lambda>_ _ _ _. Ok (),
      mr_plan_utility_completion = \<lambda>_ _ _. Ok (), mr_plan_response = \<lambda>_ _ _. Ok (), mr_plan_seed = \<lambda>_ _ _. Ok (),
      mr_plan_generation = \<lambda>_ _ _ _ _. Err ContractPanic, mr_plan_completion = \<lambda>_ _ _. Err ContractPanic,
      mr_has_chat_attempt_in_scope = \<lambda>_ _. False, mr_validate_compaction = \<lambda>_ _ _ _ _ _. Ok ([], None),
      mr_validate_summary = \<lambda>_ _ _. Ok (), mr_plan_origin = \<lambda>_ _ _. Ok (), mr_commit_origin = \<lambda>_ _. Ok (),
      mr_commit_response = \<lambda>_ _. Ok (), mr_commit_utility_completion = \<lambda>_ _. Ok (), mr_commit_seed = \<lambda>_ _. Ok (),
      mr_commit_generation = \<lambda>_ _. Ok (), mr_commit_completion = \<lambda>_ _. Ok (), mr_commit_compaction_claims = \<lambda>_ _. Ok (),
      mr_commit_compaction = \<lambda>_ _. Ok (), mr_commit = \<lambda>_ _. Ok (), mr_commit_utility_request = \<lambda>_ _. Ok (),
      mr_all_usage = \<lambda>_. usage_summary_default, mr_usage_scopes = \<lambda>_. []\<rparr>"

definition sample_stream_contract :: compilation where
  "sample_stream_contract = \<lparr>cp_schema_id = ''s'', cp_table = [\<lparr>sn_path = [], sn_rules = []\<rparr>],
     cp_entries = [(''Record'', 0), (''TerminalResult'', 0)], cp_event_kinds = [], cp_system_kinds = [], cp_partial_kinds = [],
     cp_terminal_outcomes = [], cp_success_subtype = ''success'', cp_error_subtypes = [''e'']\<rparr>"

definition sample_engine :: "(unit, unit) engine" where
  "sample_engine = \<lparr>en_contract = sample_stream_contract, en_contract_sha256 = ''c'', en_missing_subtype = ''error_missing_deliverables'',
     en_digest = \<lambda>s. s, en_quote = \<lambda>s. s, en_requests = sample_requests\<rparr>"

abbreviation sample_owner :: "(unit, unit) runtime_contract" where
  "sample_owner \<equiv> runtime_new () 0 JNull session_limits 10 []"

lemma sample_validates:
  "validate sample_stream_contract v ''Record'' 10 line = Ok ()" "validate sample_stream_contract v ''TerminalResult'' 10 line = Ok ()"
  by code_simp+

definition sample_started :: "(unit, unit) runtime_contract" where
  "sample_started = sample_owner\<lparr>rc_session_id := Some ''s'', rc_seen_uuids := {''a''}, rc_observed_journal := Some ''j'', rc_records_seen := 1\<rparr>"

definition sample_start_plan :: "unit admission_plan" where
  "sample_start_plan = (plan_base sample_started None None)\<lparr>ap_request_origin := Some (), ap_prefix := 1\<rparr>"

lemma sample_started_parts:
  "rc_scope_states sample_started = [scope_state_default]" "rc_tool_uses sample_started = []" "rc_owed sample_started = None"
  "rc_prefix sample_started = 0" "rc_requests sample_started = ()" "rc_pending sample_started = None" "rc_scope_rows sample_started = Map.empty"
  "rc_first_refusal sample_started = None" "rc_identity sample_started = 0" "rc_records_seen sample_started = 1" "rc_runtime_initialized sample_started = False"
  "rc_failed_compaction_scopes sample_started = {}" "rc_runtime_operation_ids sample_started = {}" "rc_partial_origins sample_started = Map.empty"
  by (simp_all add: sample_started_def runtime_new_def)

lemma default_open: "sc_terminal scope_state_default = None" "sc_runtime_operation scope_state_default = None"
  by (simp_all add: scope_state_default_def)

lemma sample_start_planned: "engine_plan sample_engine sample_started line \<lparr>dr_value = sample_start_value, dr_kind = EvSystem\<rparr> = Ok sample_start_plan"
  by (simp add: engine_plan_def sample_engine_def runtime_plan_def sample_started_parts default_open required_scope_def sample_start_value_def
      ensure_ancestry_def owed_message_def plan_event_def plan_system_def text_field_def field_def system_kind_from_wire_def plan_prefix_def
      add_count_def checked_add_def sample_requests_def sample_start_plan_def Let_def)

lemma sample_start_kind: "decode_event_kind sample_start_value line = Ok EvSystem"
proof -
  have "text_field sample_start_value ''type'' line = Ok ''system''" by (simp add: text_field_def field_def sample_start_value_def)
  then show ?thesis by (simp only: decode_event_kind_def bindR.simps) (simp add: event_kind_from_wire_def)
qed

lemma sample_start_prepared:
  assumes "document_decode sample_start session_limits = Ok d" "document_tree d = sample_start_value"
  shows "prepare_utf8 sample_engine sample_owner sample_start 1 =
    (Ok \<lparr>tk_owner = 0, tk_sequence = Some 1\<rparr>, sample_started\<lparr>rc_pending := Some \<lparr>pa_sequence = 1, pa_document = d, pa_plan = sample_start_plan\<rparr>\<rparr>)"
proof -
  let ?s = "sample_owner\<lparr>rc_records_seen := 1\<rparr>"
  let ?i = "?s\<lparr>rc_session_id := Some ''s'', rc_seen_uuids := {''a''}\<rparr>"
  let ?r = "\<lparr>dr_value = sample_start_value, dr_kind = EvSystem\<rparr>"
  have counted: "count_record sample_owner = Ok ?s" by (simp add: count_record_def add_count_def checked_add_def runtime_new_def)
  have identified: "identify ''c'' ?s sample_start_value 1 = (Ok (), ?i)"
    by (simp add: identify_def text_field_def field_def sample_start_value_def validate_stream_start_def required_scope_def same_session_def
        Let_def runtime_new_def)
  have decoded: "decoded_record_decode sample_stream_contract sample_start_value 10 1 = Ok ?r"
    by (simp add: decoded_record_decode_def sample_start_kind sample_validates)
  have accounted: "account ?i sample_start_value 1 (Ok ?r) = Ok sample_started"
    by (simp add: account_def runtime_observe_def required_scope_def observe_record_def text_field_def observe_stream_start_def field_def
        record_observation_def sample_start_value_def sample_started_def runtime_new_def)
  have "admit sample_engine sample_started d 1 (Ok ?r) =
    (Ok \<lparr>tk_owner = 0, tk_sequence = Some 1\<rparr>, sample_started\<lparr>rc_pending := Some \<lparr>pa_sequence = 1, pa_document = d, pa_plan = sample_start_plan\<rparr>\<rparr>)"
    by (simp add: admit_def sample_started_parts sample_start_planned)
  moreover have "rc_operations ?i = 10" "rc_pending sample_owner = None" "rc_json_limits sample_owner = session_limits"
    by (simp_all add: runtime_new_def)
  ultimately show ?thesis using assms counted identified decoded accounted
    by (simp add: prepare_utf8_def prepare_def relatch_def sample_engine_def Let_def)
qed

lemma sample_start_committed:
  "commit sample_engine (sample_started\<lparr>rc_pending := Some \<lparr>pa_sequence = 1, pa_document = d, pa_plan = sample_start_plan\<rparr>\<rparr>)
     \<lparr>tk_owner = 0, tk_sequence = Some 1\<rparr> = Ok (sample_started\<lparr>rc_prefix := 1\<rparr>, \<lparr>tk_owner = 0, tk_sequence = None\<rparr>)"
  by (simp add: commit_def check_token_def sample_started_parts commit_plan_def commit_evidence_def commit_requests_def commit_row_def
      commit_tools_def extend_def insert_optional_def sample_start_plan_def plan_base_def scope_row_def scope_entry_def sample_engine_def
      sample_requests_def)

definition sample_terminal :: terminal where
  "sample_terminal = \<lparr>tm_line = 2, tm_is_error = True, tm_subtype = ''e'', tm_response = Some ''m'', tm_duration_ms = Some 0,
     tm_api_duration_ms = Some 0, tm_num_turns = 0, tm_error_message = Some ''m'', tm_missing_deliverables = None\<rparr>"

lemma sample_zero_unsigned: "unsigned sample_zero name m = Ok 0"
  by (simp add: unsigned_def sample_zero_def as_unsigned_def)

lemma sample_usage_read:
  "usage_summary_read (JObject [(''requests'', sample_zero), (''unfinalizedRequests'', sample_zero), (''unreportedUsageRequests'', sample_zero),
     (''usage'', JNull), (''usageReports'', sample_zero)]) 2 = Ok usage_summary_default"
  by (simp add: usage_summary_read_def count_field_def field_def sample_zero_unsigned is_null_def usage_summary_validate_def
      usage_summary_default_def checked_add_def SAFE_INTEGER_def Let_def)

lemma sample_terminal_read: "read_terminal sample_stream_contract ''error_missing_deliverables'' sample_end_value 2 True = Ok sample_terminal"
  by (simp add: read_terminal_def sample_end_value_def field_def text_field_def sample_stream_contract_def terminal_duration_def
      sample_zero_unsigned sample_usage_read is_array_def terminal_error_message_def as_object_def terminal_missing_def sample_terminal_def)

definition sample_ended :: "(unit, unit) runtime_contract" where
  "sample_ended = sample_started\<lparr>rc_prefix := 1, rc_records_seen := 2, rc_seen_uuids := {''b'', ''a''},
     rc_observations := (rc_observations sample_started)\<lparr>ob_num_turns := Some 0\<rparr>\<rparr>"

lemma sample_ended_parts:
  "rc_scope_states sample_ended = [scope_state_default]" "rc_tool_uses sample_ended = []" "rc_owed sample_ended = None"
  "rc_prefix sample_ended = 1" "rc_requests sample_ended = ()" "rc_pending sample_ended = None" "rc_scope_rows sample_ended = Map.empty"
  "rc_first_refusal sample_ended = None" "rc_identity sample_ended = 0" "rc_records_seen sample_ended = 2" "rc_runtime_initialized sample_ended = False"
  "rc_failed_compaction_scopes sample_ended = {}" "rc_runtime_operation_ids sample_ended = {}" "rc_partial_origins sample_ended = Map.empty"
  "rc_session_id sample_ended = Some ''s''"
  by (simp_all add: sample_ended_def sample_started_parts) (simp add: sample_started_def)

definition sample_end_plan :: "unit admission_plan" where
  "sample_end_plan = (plan_base sample_ended None None)\<lparr>ap_state := scope_state_default\<lparr>sc_terminal := Some sample_terminal\<rparr>, ap_request_origin := None, ap_prefix := 2\<rparr>"

lemma sample_end_planned: "engine_plan sample_engine sample_ended 2 \<lparr>dr_value = sample_end_value, dr_kind = EvResult\<rparr> = Ok sample_end_plan"
proof -
  have "required_scope sample_end_value 2 = Ok None" by (simp add: required_scope_def sample_end_value_def)
  moreover have "jget sample_end_value ''structured_result'' = None" by (simp add: sample_end_value_def)
  moreover have "plan_base sample_ended None None = (plan_base sample_ended None None)\<lparr>ap_state := scope_state_default\<rparr>"
    "ap_state (plan_base sample_ended None None) = scope_state_default" "ap_runtime_initialized (plan_base sample_ended None None) = False"
    by (simp_all add: plan_base_def scope_entry_def scope_row_def sample_ended_parts)
  moreover have "finish partial_stream_default = Ok ()" by (simp add: finish_def partial_stream_default_def any_open_def is_model_def)
  moreover have "scope_state_default\<lparr>sc_completed_runtime_operation := None, sc_terminal := x\<rparr> = scope_state_default\<lparr>sc_terminal := x\<rparr>" for x
    by (simp add: scope_state_default_def)
  ultimately show ?thesis
    by (simp add: engine_plan_def sample_engine_def runtime_plan_def sample_ended_parts default_open ensure_ancestry_def owed_message_def plan_event_def
        plan_result_def sample_terminal_read structured_agrees_def contradicts_def close_root_def plan_prefix_def add_count_def checked_add_def
        sample_requests_def sample_end_plan_def Let_def) (simp add: scope_state_default_def sample_terminal_def)
qed

lemma sample_end_kind: "decode_event_kind sample_end_value line = Ok EvResult"
proof -
  have "text_field sample_end_value ''type'' line = Ok ''result''" by (simp add: text_field_def field_def sample_end_value_def)
  then show ?thesis by (simp only: decode_event_kind_def bindR.simps) (simp add: event_kind_from_wire_def)
qed

lemma sample_end_prepared:
  assumes "document_decode sample_end session_limits = Ok d" "document_tree d = sample_end_value"
  shows "prepare_utf8 sample_engine (sample_started\<lparr>rc_prefix := 1\<rparr>) sample_end 2 =
    (Ok \<lparr>tk_owner = 0, tk_sequence = Some 2\<rparr>, sample_ended\<lparr>rc_pending := Some \<lparr>pa_sequence = 2, pa_document = d, pa_plan = sample_end_plan\<rparr>\<rparr>)"
proof -
  let ?o = "sample_started\<lparr>rc_prefix := 1\<rparr>"
  let ?s = "?o\<lparr>rc_records_seen := 2\<rparr>"
  let ?i = "?s\<lparr>rc_seen_uuids := {''b'', ''a''}\<rparr>"
  let ?r = "\<lparr>dr_value = sample_end_value, dr_kind = EvResult\<rparr>"
  have counted: "count_record ?o = Ok ?s" by (simp add: count_record_def add_count_def checked_add_def sample_started_parts)
  have "rc_session_id sample_started = Some ''s''" "rc_seen_uuids sample_started = {''a''}" by (simp_all add: sample_started_def)
  then have identified: "identify ''c'' ?s sample_end_value 2 = (Ok (), ?i)"
    by (simp add: identify_def text_field_def field_def sample_end_value_def same_session_def Let_def)
  have decoded: "decoded_record_decode sample_stream_contract sample_end_value 10 2 = Ok ?r"
    by (simp add: decoded_record_decode_def sample_end_kind sample_validates)
  have accounted: "account ?i sample_end_value 2 (Ok ?r) = Ok sample_ended"
    by (simp add: account_def runtime_observe_def required_scope_def observe_record_def text_field_def observe_result_def field_def
        sample_zero_unsigned record_observation_def sample_end_value_def sample_ended_def sample_started_def runtime_new_def)
  have "admit sample_engine sample_ended d 2 (Ok ?r) =
    (Ok \<lparr>tk_owner = 0, tk_sequence = Some 2\<rparr>, sample_ended\<lparr>rc_pending := Some \<lparr>pa_sequence = 2, pa_document = d, pa_plan = sample_end_plan\<rparr>\<rparr>)"
    by (simp add: admit_def sample_ended_parts sample_end_planned)
  moreover have "rc_operations ?i = 10" "rc_pending ?o = None" "rc_json_limits ?o = session_limits"
    by (simp_all add: sample_started_def runtime_new_def)
  ultimately show ?thesis using assms counted identified decoded accounted
    by (simp add: prepare_utf8_def prepare_def relatch_def sample_engine_def Let_def)
qed

definition sample_closed :: "(unit, unit) runtime_contract" where
  "sample_closed = sample_ended\<lparr>rc_prefix := 2, rc_scope_states := [scope_state_default\<lparr>sc_terminal := Some sample_terminal\<rparr>]\<rparr>"

lemma sample_end_committed:
  "commit sample_engine (sample_ended\<lparr>rc_pending := Some \<lparr>pa_sequence = 2, pa_document = d, pa_plan = sample_end_plan\<rparr>\<rparr>)
     \<lparr>tk_owner = 0, tk_sequence = Some 2\<rparr> = Ok (sample_closed, \<lparr>tk_owner = 0, tk_sequence = None\<rparr>)"
  by (simp add: commit_def check_token_def sample_ended_parts commit_plan_def commit_evidence_def commit_requests_def commit_row_def
      commit_tools_def extend_def insert_optional_def sample_end_plan_def plan_base_def scope_row_def scope_entry_def sample_engine_def
      sample_requests_def sample_closed_def)

lemma sample_finished: "is_ok (runtime_finish sample_engine sample_closed)"
  by (simp add: runtime_finish_def sample_closed_def sample_ended_parts default_open answer_def sample_terminal_def)

definition sample_calls :: "runtime_call list" where
  "sample_calls = [PrepareCall sample_start 1, CommitCall \<lparr>tk_owner = 0, tk_sequence = Some 1\<rparr>,
     PrepareCall sample_end 2, CommitCall \<lparr>tk_owner = 0, tk_sequence = Some 2\<rparr>]"

lemma runtime_run_Cons: "runtime_step env s call t \<Longrightarrow> runtime_run env t calls u \<Longrightarrow> runtime_run env s (call # calls) u"
proof (rotate_tac, induction rule: runtime_run.induct)
  case start
  then show ?case using runtime_run.step [OF runtime_run.start, of env s call t] by simp
next
  case (step calls t call u)
  then show ?case using runtime_run.step by (metis append_Cons)
qed

lemma sample_run: "runtime_run sample_engine sample_owner sample_calls sample_closed"
proof -
  obtain d e where d: "document_decode sample_start session_limits = Ok d" "document_tree d = sample_start_value"
    and e: "document_decode sample_end session_limits = Ok e" "document_tree e = sample_end_value"
    using sample_start_decodes sample_end_decodes by auto
  show ?thesis unfolding sample_calls_def
    by (intro runtime_run_Cons [OF runtime_step.prepared [OF sample_start_prepared [OF d]]]
        runtime_run_Cons [OF runtime_step.committed [OF sample_start_committed]]
        runtime_run_Cons [OF runtime_step.prepared [OF sample_end_prepared [OF e]]]
        runtime_run_Cons [OF runtime_step.committed [OF sample_end_committed]] runtime_run.start) simp_all
qed

section \<open>Witnesses\<close>

theorem certificate_covers_every_record_witness:
  "is_ok (runtime_finish sample_engine sample_closed) \<and> length (filter is_prepare sample_calls) = unat (rc_prefix sample_closed)"
proof -
  obtain result where "runtime_finish sample_engine sample_closed = Ok result" using sample_finished by (auto simp: is_ok_iff)
  from certificate_covers_every_record [OF sample_run this] sample_finished show ?thesis by simp
qed

theorem admitted_stream_never_panics_witness:
  "runtime_run sample_engine sample_owner sample_calls sample_closed \<and> runtime_finish sample_engine sample_closed \<noteq> Err ContractPanic"
  using admitted_stream_never_panics [OF sample_run] sample_run by blast

theorem ancestry_walk_ends_witness:
  "length (rc_tool_uses sample_closed) < 1 \<and> ensure_ancestry sample_closed (Some ''t'') 3 = ancestry_loop 1 sample_closed 3 (Some ''t'')"
proof -
  have "length (rc_tool_uses sample_closed) < 1" by (simp add: sample_closed_def sample_ended_parts)
  with ancestry_walk_ends [OF sample_run this, of "Some ''t''" 3] show ?thesis by blast
qed


theorem capability_is_single_use_witness:
  "\<exists>t. prepare_utf8 sample_engine sample_owner sample_start 1 = (Ok \<lparr>tk_owner = 0, tk_sequence = Some 1\<rparr>, t)
    \<and> pending_bytes t \<lparr>tk_owner = 0, tk_sequence = Some 1\<rparr> = Ok sample_start"
proof -
  obtain d where "document_decode sample_start session_limits = Ok d" "document_tree d = sample_start_value" using sample_start_decodes by auto
  note prepared = sample_start_prepared [OF this]
  from capability_is_single_use [OF prepared] prepared show ?thesis by blast
qed

text \<open>An owner that has refused once gives that refusal as its answer.\<close>

theorem refusal_is_final_witness:
  "rc_first_refusal (latch already_pending sample_closed) = Some already_pending
    \<and> runtime_finish sample_engine (latch already_pending sample_closed) = Err (Fault already_pending)"
proof -
  have "rc_first_refusal (latch already_pending sample_closed) = Some already_pending"
    by (simp add: latch_def sample_closed_def sample_ended_parts)
  with refusal_is_final [OF this runtime_run.start, of sample_engine] show ?thesis by blast
qed

end
