(* ===== verification/Spec2Isabelle.thy ===== *)
theory Spec2Isabelle
  imports Schema_Compiled Usage Authorship Progress Container_Image Sse_Values Runtime_Session
begin

text \<open>
  The agent service runs a coding agent in a container and publishes what it did. The agent writes one JSON record per line;
  the service trusts a run only when the contract engine under \<^verbatim>\<open>protocol/engine\<close> has read that stream from its first record to its terminal
  result and every record fits the ones before it. This library models the engine, and the parts of the service under
  \<^verbatim>\<open>src/src\<close> that decide something: what a caller may ask for, which files a run must deliver, which image a container runs, and the
  progress file that survives crashes.

  \<^bold>\<open>How the parts interact.\<close> \<^verbatim>\<open>RuntimeContract\<close> (\<^verbatim>\<open>runtime.rs\<close>) owns one stream. It hands the bytes of a record to the JSON decoder
  (\<^verbatim>\<open>json.rs\<close>, with the exact numbers of \<^verbatim>\<open>number.rs\<close>), checks the identity of the record, validates the value against the schema
  that the build compiled (\<^verbatim>\<open>schema_compiler.rs\<close>, \<^verbatim>\<open>schema.rs\<close>, \<^verbatim>\<open>stream.rs\<close>), observes the physical usage (\<^verbatim>\<open>usage.rs\<close>), and plans
  what the record would change: display scopes (\<^verbatim>\<open>partial_stream.rs\<close>), generations (\<^verbatim>\<open>generation.rs\<close>), tools and the requests
  (\<^verbatim>\<open>model_requests.rs\<close>), whose bodies name the author of every byte (\<^verbatim>\<open>authorship.rs\<close>). The caller holds a capability for the plan and commits
  or rejects it. At the end \<^verbatim>\<open>finish\<close> gives the answer or the first refusal.

  \<^bold>\<open>Theories.\<close>
  \<^item> \<open>Prelude\<close>: results with errors, loops over them, 64-bit checked arithmetic, \<^verbatim>\<open>BTreeMap\<close> as a sorted association list with the
    interface \<open>ordered_map\<close>. \<open>Utf8\<close>, \<open>Unicode_Text\<close>: UTF-8 validity, character boundaries and white space of the standard library.
    \<open>Serde\<close>: what the code uses of \<^verbatim>\<open>serde_json\<close>, as an argument.
  \<^item> \<open>Number\<close> (\<^verbatim>\<open>number.rs\<close>): parsing accepts exactly the JSON grammar, and equality, order and conversion are those of the rational
    number that is written.
  \<^item> \<open>Json\<close>, \<open>Json_Arena\<close>, \<open>Json_Value\<close> (\<^verbatim>\<open>json.rs\<close>): the parser as the loop of the code, with every index and slice
    a possible panic; no input panics, the arena is a tree within its limits, its accessors are those of that tree, and the worklist
    equality is structural.
  \<^item> \<open>Schema\<close>, \<open>Schema_Semantics\<close>, \<open>Schema_Compiler\<close>, \<open>Schema_Compiled\<close> (\<^verbatim>\<open>schema.rs\<close>, \<^verbatim>\<open>schema_compiler.rs\<close>): the task machine
    of the validator and the compiler of the build. The machine returns the verdict of a big-step meaning or reports that its budget is
    used up, and for every schema the build accepts a budget exists that settles it.
  \<^item> \<open>Contract_Stream\<close> (\<^verbatim>\<open>lib.rs\<close>, \<^verbatim>\<open>stream.rs\<close>, \<^verbatim>\<open>build.rs\<close>): errors, field readers, the kinds of records, decoding of a record,
    goal evidence.
  \<^item> \<open>Usage\<close> (\<^verbatim>\<open>usage.rs\<close>): served counts and populations of requests; the interface \<open>checked_sum\<close> is interpreted on both checked
    additions, so that totals do not depend on order.
  \<^item> \<open>Generation\<close> (\<^verbatim>\<open>generation.rs\<close>) and \<open>Partial_Stream\<close> (\<^verbatim>\<open>partial_stream.rs\<close>): what a model generated, the messages it
    is shown as, and the state of one display scope, in which everything shown belongs to the generation.
  \<^item> \<open>Authorship\<close> (\<^verbatim>\<open>authorship.rs\<close>): the table that attributes every byte of a request body.
  \<^item> \<open>Sse_Values\<close> (\<^verbatim>\<open>model_requests.rs\<close>, \<^verbatim>\<open>ResponseValues\<close> and \<^verbatim>\<open>SseValues\<close>): the incremental reader of a served body, equal to a
    reader of whole lines.
  \<^item> \<open>Runtime_Contract\<close>, \<open>Runtime_Plan\<close>, \<open>Runtime_Admission\<close> (\<^verbatim>\<open>runtime.rs\<close>): the state of the owner with the fields of the struct, observation, the
    plan of each kind of record, and the operations. \<open>Runtime_Invariant\<close> has the invariant and that every operation keeps it, \<open>Runtime_Certificate\<close> and
    \<open>Runtime_Observed\<close> the properties of all runs of calls, \<open>Session_Records\<close> and \<open>Runtime_Session\<close> a session evaluated from its bytes to
    its certified answer.
  \<^item> \<open>Service_Error\<close> (\<^verbatim>\<open>error.rs\<close>), \<open>Request_Validation\<close> (\<^verbatim>\<open>validation.rs\<close>), \<open>Deliverables\<close> (\<^verbatim>\<open>deliverables.rs\<close>), \<open>Container_Image\<close>
    (\<^verbatim>\<open>container_image.rs\<close>): exact conditions of acceptance, and what a refusal says.
  \<^item> \<open>Progress\<close> (\<^verbatim>\<open>progress.rs\<close>): publication over a file system whose calls may fail or be the last, as a step relation; the visible
    file is always one complete history and histories only grow.

  \<^bold>\<open>Conventions.\<close> A fallible function returns a result; a panic (\<^verbatim>\<open>expect\<close>, index, slice) is the error \<open>ContractPanic\<close> or \<open>Panic\<close>.
  A message is a literal of the source or a constructor with the values it formats, without its wording around them. \<^verbatim>\<open>u64\<close> is a
  64-bit word; \<^verbatim>\<open>usize\<close> is a natural number, with its overflow where the code checks it. A string is its UTF-8 bytes. An operation of
  \<^verbatim>\<open>&mut self\<close> returns the new state; where the caller can go on after an error, it returns the state with the error.
  Loops are recursive functions with a termination proof. One loop has fuel: the walk up the scopes of a record, with one step
  for each issued tool and one more; \<open>ancestry_walk_ends\<close> shows that more fuel changes nothing.

  \<^bold>\<open>Arguments.\<close> The compiled contract, the SHA-256 digest, the quotation of a JSON string, \<^verbatim>\<open>serde_json\<close> values, Unicode normalisation and
  file metadata are arguments of the definitions that use them. The operations of \<^verbatim>\<open>ModelRequests\<close> are an argument of the
  runtime contract, the record \<open>model_requests\<close>; the theorems on the owner hold for all of them.

  \<^bold>\<open>Not modelled.\<close> The plans and commits of \<^verbatim>\<open>ModelRequests\<close> and the compaction check of \<^verbatim>\<open>runtime.rs\<close> that belongs to them; the framing of captured files
  (\<^verbatim>\<open>result_parse.rs\<close>); the HTTP API, the session registry and supervisor, the Docker broker, staging, bundling and the binaries of the
  container, which are asynchronous input and output over sockets, processes and archive libraries; reading of the
  configuration apart from the bounds other parts use; serialisation derived by macros.
\<close>

end
